(* ===== verification/Prelude.thy ===== *)
theory Prelude
  imports Main "HOL-Library.Word" "HOL-Library.Multiset"
begin

text \<open>
  What every component shares: the machine integers of the C++ sources, the ways in which a
  C++ expression has no defined value, the error codes of the RPC replies
  (\<^verbatim>\<open>common/errCode.h\<close>), decimal printing as \<^verbatim>\<open>operator<<\<close> does it, and general facts
  on lists and words.
\<close>

section \<open>Machine integers\<close>

type_synonym u8 = "8 word"
type_synonym u32 = "32 word"
type_synonym u64 = "64 word"

section \<open>Undefined behaviour as a value\<close>

text \<open>
  Where the C++ code dereferences a null pointer, an end iterator or the last element of an
  empty container, an object that was deleted, reads past the end of a buffer, or reads a variable without a value, the
  model returns \<open>Inl\<close> of the reason; \<open>Inr\<close> is a defined result.
\<close>

datatype ub = NullDeref | EndDeref | EmptyDeref | OutOfBounds | UseAfterFree | Indeterminate

type_synonym 'a ub_or = "ub + 'a"

definition defined :: "'a ub_or \<Rightarrow> bool" where
  "defined r = (case r of Inl _ \<Rightarrow> False | Inr _ \<Rightarrow> True)"

lemma defined_simps [simp]: "defined (Inr x)" "\<not> defined (Inl e)"
  by (simp_all add: defined_def)

lemma defined_iff: "defined r \<longleftrightarrow> (\<exists>x. r = Inr x)"
  by (cases r) auto

section \<open>Error codes\<close>

text \<open>\<^verbatim>\<open>enum ErrCode { SUCCESS = 0, ERR = 1 }\<close>; a reply carries it as an \<^verbatim>\<open>int32\<close>.\<close>

datatype err_code = SUCCESS | ERR

definition err_value :: "err_code \<Rightarrow> int" where
  "err_value e = (case e of SUCCESS \<Rightarrow> 0 | ERR \<Rightarrow> 1)"

section \<open>Decimal printing\<close>

text \<open>\<^verbatim>\<open>ostringstream << n\<close> for an unsigned and for a signed integer.\<close>

definition digit_char :: "nat \<Rightarrow> char" where
  "digit_char d = char_of (48 + d)"

fun show_nat :: "nat \<Rightarrow> string" where
  "show_nat n = (if n < 10 then [digit_char n] else show_nat (n div 10) @ [digit_char (n mod 10)])"

declare show_nat.simps [simp del]

definition show_int :: "int \<Rightarrow> string" where
  "show_int i = (if i < 0 then ''-'' @ show_nat (nat (- i)) else show_nat (nat i))"

definition is_digit :: "char \<Rightarrow> bool" where
  "is_digit c = (48 \<le> (of_char c :: nat) \<and> (of_char c :: nat) \<le> 57)"

definition digit_val :: "char \<Rightarrow> nat" where
  "digit_val c = of_char c - 48"

definition nat_of_digits :: "string \<Rightarrow> nat" where
  "nat_of_digits = foldl (\<lambda>n c. 10 * n + digit_val c) 0"

text \<open>
  \<^verbatim>\<open>stringstream ss; ss << s; ss >> n\<close> for an unsigned 64-bit \<^verbatim>\<open>n\<close> and a string that starts
  with a digit: the longest prefix of digits is converted; a value that does not fit is
  replaced by the greatest one (the conversion \<^verbatim>\<open>strtoull\<close> does).
\<close>

definition parse_u64 :: "string \<Rightarrow> u64" where
  "parse_u64 s = (let n = nat_of_digits (takeWhile is_digit s)
     in if n < 2 ^ 64 then word_of_nat n else - 1)"

lemma digit_char_val [simp]: "d < 10 \<Longrightarrow> digit_val (digit_char d) = d"
  by (simp add: digit_val_def digit_char_def)

lemma digit_char_is_digit [simp]: "d < 10 \<Longrightarrow> is_digit (digit_char d)"
  by (simp add: is_digit_def digit_char_def)

lemma show_nat_digits: "\<forall>c \<in> set (show_nat n). is_digit c"
proof (induction n rule: show_nat.induct)
  case (1 n)
  then show ?case by (cases "n < 10") (auto simp: show_nat.simps [of n])
qed

lemma show_nat_nonempty [simp]: "show_nat n \<noteq> []"
  by (subst show_nat.simps) simp

lemma nat_of_digits_snoc: "nat_of_digits (s @ [c]) = 10 * nat_of_digits s + digit_val c"
  by (simp add: nat_of_digits_def)

lemma nat_of_digits_show [simp]: "nat_of_digits (show_nat n) = n"
proof (induction n rule: show_nat.induct)
  case (1 n)
  show ?case
  proof (cases "n < 10")
    case True
    then show ?thesis by (simp add: show_nat.simps [of n] nat_of_digits_def)
  next
    case False
    with 1 show ?thesis by (simp add: show_nat.simps [of n] nat_of_digits_snoc)
  qed
qed

lemma show_nat_inj: "show_nat m = show_nat n \<longleftrightarrow> m = n"
  by (metis nat_of_digits_show)

lemma takeWhile_show_nat [simp]: "takeWhile is_digit (show_nat n) = show_nat n"
  using show_nat_digits by (subst takeWhile_eq_all_conv)

lemma parse_show_u64: "parse_u64 (show_nat (unat (w :: u64))) = w"
proof -
  have "unat w < 2 ^ 64" using unsigned_less [of w] by simp
  then show ?thesis by (simp add: parse_u64_def Let_def)
qed

section \<open>Words\<close>

lemma unat_u64_bound: "unat (w :: u64) < 2 ^ 64"
  using unsigned_less [of w] by simp

lemma unat_add_no_wrap64: "unat (a :: u64) + unat b < 2 ^ 64 \<Longrightarrow> unat (a + b) = unat a + unat b"
  by (simp add: unat_word_ariths)

lemma unat_succ_no_wrap64: "(a :: u64) \<noteq> - 1 \<Longrightarrow> unat (a + 1) = unat a + 1"
  using unatSuc [of a] by (simp add: add.commute add_eq_0_iff)

lemma u64_less_succ: "(a :: u64) \<noteq> - 1 \<Longrightarrow> a < a + 1"
  by (simp add: unat_succ_no_wrap64 word_less_nat_alt)

section \<open>Lists and multisets\<close>

lemma find_Some_sorted:
  assumes "sorted_wrt (<) (map fst m)" and "find (\<lambda>p. k \<le> fst p) m = Some p"
  shows "p \<in> set m \<and> k \<le> fst p \<and> (\<forall>q \<in> set m. k \<le> fst q \<longrightarrow> fst p \<le> (fst q :: 'k::linorder))"
  using assms
proof (induction m)
  case Nil
  then show ?case by simp
next
  case (Cons a m)
  then show ?case
    by (cases "k \<le> fst a") (auto simp: less_imp_le)
qed

lemma in_drop_other: "t \<in># M \<Longrightarrow> t \<noteq> u \<Longrightarrow> t \<in># M - {#u#}"
  by (simp add: in_diff_count)

end
