(* ===== verification/StdContainers.thy ===== *)
theory StdContainers
  imports Prelude
begin

text \<open>
  The containers of the C++ standard library that the daemon keeps its tables in.
  \<^verbatim>\<open>std::map<K,V>\<close> is a list of key-value pairs in strictly increasing key order, the order
  its iterators follow; \<^verbatim>\<open>std::set<K>\<close> is such a map with the unit value; the one
  \<^verbatim>\<open>unordered_map\<close> of the sources is used only through operations whose result does not
  depend on its order, and is the same list. The locale \<open>std_map\<close> is the interface the
  components use; it is interpreted here on the list.
\<close>

type_synonym ('k, 'v) omap = "('k \<times> 'v) list"
type_synonym 'k oset = "('k, unit) omap"

section \<open>Operations\<close>

definition om_ok :: "('k::linorder, 'v) omap \<Rightarrow> bool" where
  "om_ok m = sorted_wrt (<) (map fst m)"

text \<open>\<^verbatim>\<open>m[k] = v\<close>: replaces or inserts.\<close>

definition om_assign :: "'k::linorder \<Rightarrow> 'v \<Rightarrow> ('k, 'v) omap \<Rightarrow> ('k, 'v) omap" where
  "om_assign k v m = takeWhile (\<lambda>p. fst p < k) m @ (k, v) # dropWhile (\<lambda>p. fst p \<le> k) m"

text \<open>\<^verbatim>\<open>m.insert(make_pair(k, v))\<close>: keeps an existing entry; the flag says whether it inserted.\<close>

definition om_insert :: "'k::linorder \<Rightarrow> 'v \<Rightarrow> ('k, 'v) omap \<Rightarrow> ('k, 'v) omap \<times> bool" where
  "om_insert k v m = (case map_of m k of None \<Rightarrow> (om_assign k v m, True) | Some _ \<Rightarrow> (m, False))"

text \<open>\<^verbatim>\<open>m[k]\<close> read or used as a reference: inserts the default value where there is no entry.\<close>

definition om_index :: "'k::linorder \<Rightarrow> 'v \<Rightarrow> ('k, 'v) omap \<Rightarrow> ('k, 'v) omap" where
  "om_index k d m = (case map_of m k of None \<Rightarrow> om_assign k d m | Some _ \<Rightarrow> m)"

text \<open>\<^verbatim>\<open>m.erase(k)\<close>.\<close>

definition om_erase :: "'k \<Rightarrow> ('k, 'v) omap \<Rightarrow> ('k, 'v) omap" where
  "om_erase k m = filter (\<lambda>p. fst p \<noteq> k) m"

text \<open>Writing a field of the entry an iterator points at; no entry, no change.\<close>

definition om_modify :: "'k \<Rightarrow> ('v \<Rightarrow> 'v) \<Rightarrow> ('k, 'v) omap \<Rightarrow> ('k, 'v) omap" where
  "om_modify k f m = map (\<lambda>(k', v). (k', if k' = k then f v else v)) m"

text \<open>\<^verbatim>\<open>*m.begin()\<close>, \<^verbatim>\<open>*m.rbegin()\<close> and \<^verbatim>\<open>m.lower_bound(k)\<close> (first key not less than \<^verbatim>\<open>k\<close>).\<close>

definition om_begin :: "('k, 'v) omap \<Rightarrow> ('k \<times> 'v) option" where
  "om_begin m = (if m = [] then None else Some (hd m))"

definition om_rbegin :: "('k, 'v) omap \<Rightarrow> ('k \<times> 'v) option" where
  "om_rbegin m = (if m = [] then None else Some (last m))"

definition om_lower_bound :: "'k::linorder \<Rightarrow> ('k, 'v) omap \<Rightarrow> ('k \<times> 'v) option" where
  "om_lower_bound k m = find (\<lambda>p. k \<le> fst p) m"

section \<open>The interface of a map\<close>

text \<open>
  What the components rely on: the abstraction \<open>find\<close> to a partial function, what each
  operation does to it, and that every operation keeps the representation invariant.
\<close>

locale std_map =
  fixes ok :: "'m \<Rightarrow> bool"
    and find :: "'m \<Rightarrow> 'k \<Rightarrow> 'v option"
    and assign :: "'k \<Rightarrow> 'v \<Rightarrow> 'm \<Rightarrow> 'm"
    and erase :: "'k \<Rightarrow> 'm \<Rightarrow> 'm"
    and modify :: "'k \<Rightarrow> ('v \<Rightarrow> 'v) \<Rightarrow> 'm \<Rightarrow> 'm"
    and index :: "'k \<Rightarrow> 'v \<Rightarrow> 'm \<Rightarrow> 'm"
  assumes find_assign: "ok m \<Longrightarrow> find (assign k v m) = (find m)(k \<mapsto> v)"
    and find_erase: "find (erase k m) = (find m)(k := None)"
    and find_modify: "find (modify k f m) = (find m)(k := map_option f (find m k))"
    and index_def: "index k v m = (case find m k of None \<Rightarrow> assign k v m | Some _ \<Rightarrow> m)"
    and ok_assign: "ok m \<Longrightarrow> ok (assign k v m)"
    and ok_erase: "ok m \<Longrightarrow> ok (erase k m)"
    and ok_modify: "ok m \<Longrightarrow> ok (modify k f m)"
begin

lemma find_index:
  "ok m \<Longrightarrow> find (index k v m) = (case find m k of None \<Rightarrow> (find m)(k \<mapsto> v) | Some _ \<Rightarrow> find m)"
  by (simp add: index_def find_assign split: option.splits)

lemma ok_index: "ok m \<Longrightarrow> ok (index k v m)"
  by (simp add: index_def ok_assign split: option.splits)

lemma dom_assign: "ok m \<Longrightarrow> dom (find (assign k v m)) = insert k (dom (find m))"
  by (simp add: find_assign)

lemma dom_erase: "dom (find (erase k m)) = dom (find m) - {k}"
  by (simp add: find_erase)

lemma dom_modify: "dom (find (modify k f m)) = dom (find m)"
  by (auto simp: find_modify dom_def)

lemma dom_index: "ok m \<Longrightarrow> dom (find (index k v m)) = insert k (dom (find m))"
  by (auto simp: find_index split: option.splits)

lemma index_stays: "ok m \<Longrightarrow> find m k' = Some x \<Longrightarrow> find (index k v m) k' = Some x"
  by (auto simp: find_index split: option.splits)

lemma index_value: "ok m \<Longrightarrow> \<exists>x. find (index k v m) k = Some x \<and> (find m k = Some x \<or> find m k = None \<and> x = v)"
  by (auto simp: find_index split: option.splits)

end

section \<open>The list implements the interface\<close>

lemma om_ok_Nil [simp]: "om_ok []"
  by (simp add: om_ok_def)

lemma om_ok_Cons: "om_ok (p # m) \<longleftrightarrow> (\<forall>q \<in> set m. fst p < fst q) \<and> om_ok m"
  by (auto simp: om_ok_def)

lemma om_assign_Nil: "om_assign k v [] = [(k, v)]"
  by (simp add: om_assign_def)

lemma om_assign_Cons:
  "om_ok (p # m) \<Longrightarrow> om_assign k v (p # m) =
    (if k < fst p then (k, v) # p # m else if k = fst p then (k, v) # m else p # om_assign k v m)"
proof -
  assume ok: "om_ok (p # m)"
  have "dropWhile (\<lambda>q. fst q \<le> fst p) m = m" 
    using ok by (cases m) (auto simp: om_ok_Cons)
  then show ?thesis by (auto simp: om_assign_def)
qed

lemma set_om_assign:
  "om_ok m \<Longrightarrow> set (om_assign k v m) = insert (k, v) {p \<in> set m. fst p \<noteq> k}"
proof (induction m)
  case Nil
  then show ?case by (simp add: om_assign_Nil)
next
  case (Cons p m)
  then have IH: "set (om_assign k v m) = insert (k, v) {p \<in> set m. fst p \<noteq> k}"
    by (simp add: om_ok_Cons)
  show ?case
    using Cons.prems by (auto simp: om_assign_Cons IH om_ok_Cons)
qed

lemma om_ok_assign: "om_ok m \<Longrightarrow> om_ok (om_assign k v m)"
proof (induction m)
  case Nil
  then show ?case by (simp add: om_assign_Nil om_ok_Cons)
next
  case (Cons p m)
  then have "om_ok m" "om_ok (om_assign k v m)" by (simp_all add: om_ok_Cons)
  with Cons.prems show ?case
    by (auto simp: om_assign_Cons om_ok_Cons set_om_assign)
qed

lemma map_of_om_assign: "om_ok m \<Longrightarrow> map_of (om_assign k v m) = (map_of m)(k \<mapsto> v)"
proof (induction m)
  case Nil
  then show ?case by (simp add: om_assign_Nil)
next
  case (Cons p m)
  then have IH: "map_of (om_assign k v m) x = ((map_of m)(k \<mapsto> v)) x" for x
    by (simp add: om_ok_Cons)
  show ?case
  proof
    fix x
    show "map_of (om_assign k v (p # m)) x = ((map_of (p # m))(k \<mapsto> v)) x"
      unfolding om_assign_Cons [OF Cons.prems] using IH [of x] by (cases p) auto
  qed
qed

lemma map_of_om_erase: "map_of (om_erase k m) = (map_of m)(k := None)"
  by (induction m) (auto simp: om_erase_def)

lemma om_ok_filter: "om_ok m \<Longrightarrow> om_ok (filter P m)"
  by (induction m) (auto simp: om_ok_Cons)

lemma om_ok_erase: "om_ok m \<Longrightarrow> om_ok (om_erase k m)"
  by (simp add: om_erase_def om_ok_filter)

lemma map_fst_om_modify [simp]: "map fst (om_modify k f m) = map fst m"
  by (induction m) (auto simp: om_modify_def)

lemma map_of_om_modify: "map_of (om_modify k f m) = (map_of m)(k := map_option f (map_of m k))"
  by (induction m) (auto simp: om_modify_def fun_eq_iff)

lemma om_ok_modify: "om_ok m \<Longrightarrow> om_ok (om_modify k f m)"
  by (simp add: om_ok_def)

interpretation om: std_map om_ok map_of om_assign om_erase om_modify om_index
  by unfold_locales
    (simp_all add: map_of_om_assign map_of_om_erase map_of_om_modify om_index_def
      om_ok_assign om_ok_erase om_ok_modify)

lemmas om_find_simps = om.find_assign om.find_erase om.find_modify om.find_index
lemmas om_ok_intros = om.ok_assign om.ok_erase om.ok_modify om.ok_index
lemmas om_dom_simps = om.dom_assign om.dom_erase om.dom_modify om.dom_index

section \<open>Order: first and last entry, lower bound\<close>

lemma om_ok_distinct: "om_ok m \<Longrightarrow> distinct (map fst m)"
  by (induction m) (auto simp: om_ok_Cons)

lemma om_begin_least:
  "om_ok m \<Longrightarrow> om_begin m = Some p \<Longrightarrow> p \<in> set m \<and> (\<forall>q \<in> set m. fst p \<le> fst q)"
  by (cases m) (auto simp: om_begin_def om_ok_Cons less_imp_le)

lemma om_begin_Nil [simp]: "om_begin [] = None" "om_rbegin [] = None"
  by (simp_all add: om_begin_def om_rbegin_def)

lemma om_begin_None [simp]: "om_begin m = None \<longleftrightarrow> m = []"
  by (simp add: om_begin_def)

lemma om_rbegin_None [simp]: "om_rbegin m = None \<longleftrightarrow> m = []"
  by (simp add: om_rbegin_def)

lemma om_rbegin_greatest:
  "om_ok m \<Longrightarrow> om_rbegin m = Some p \<Longrightarrow> p \<in> set m \<and> (\<forall>q \<in> set m. fst q \<le> fst p)"
proof (induction m)
  case Nil
  then show ?case by (simp add: om_rbegin_def)
next
  case (Cons a m)
  then show ?case
    by (cases "m = []") (auto simp: om_rbegin_def om_ok_Cons less_imp_le)
qed

lemma om_lower_bound_Some:
  "om_ok m \<Longrightarrow> om_lower_bound k m = Some p \<Longrightarrow>
    p \<in> set m \<and> k \<le> fst p \<and> (\<forall>q \<in> set m. k \<le> fst q \<longrightarrow> fst p \<le> fst q)"
  by (simp add: om_lower_bound_def om_ok_def find_Some_sorted)

lemma om_lower_bound_None: "om_lower_bound k m = None \<longleftrightarrow> (\<forall>q \<in> set m. fst q < k)"
  by (auto simp: om_lower_bound_def find_None_iff not_le)

lemma om_lower_bound_exists:
  assumes "om_rbegin m = Some p" and "k \<le> fst p"
  shows "\<exists>q. om_lower_bound k m = Some q"
proof -
  from assms(1) have "p \<in> set m" by (auto simp: om_rbegin_def split: if_splits)
  with assms(2) have "om_lower_bound k m \<noteq> None"
    unfolding om_lower_bound_None by fastforce
  then show ?thesis by simp
qed

section \<open>Facts on entries as sets\<close>

lemma om_entry_iff: "om_ok m \<Longrightarrow> (k, v) \<in> set m \<longleftrightarrow> map_of m k = Some v"
  using om_ok_distinct by (metis map_of_SomeD map_of_is_SomeI)

lemma om_dom: "dom (map_of m) = fst ` set m"
  by (rule dom_map_of_conv_image_fst)

lemma om_insert_ok: "om_ok m \<Longrightarrow> om_ok (fst (om_insert k v m))"
  by (auto simp: om_insert_def om_ok_assign split: option.splits)

lemma om_insert_find:
  "om_ok m \<Longrightarrow> map_of (fst (om_insert k v m)) =
    (case map_of m k of None \<Rightarrow> (map_of m)(k \<mapsto> v) | Some _ \<Rightarrow> map_of m)"
  by (auto simp: om_insert_def map_of_om_assign split: option.splits)

lemma om_insert_dom: "om_ok m \<Longrightarrow> dom (map_of (fst (om_insert k v m))) = insert k (dom (map_of m))"
  by (auto simp: om_insert_find split: option.splits)

lemma length_om_assign:
  "om_ok m \<Longrightarrow> length (om_assign k v m) = (if k \<in> dom (map_of m) then length m else Suc (length m))"
proof -
  assume ok: "om_ok m"
  have card: "length x = card (dom (map_of x))" if "om_ok x" for x :: "('a, 'b) omap"
    using distinct_card [OF om_ok_distinct [OF that]] by (simp add: om_dom)
  have "length (om_assign k v m) = card (insert k (dom (map_of m)))"
    using card [OF om_ok_assign [OF ok]] by (simp add: om.dom_assign [OF ok])
  then show ?thesis using card [OF ok] by (simp add: card_insert_if finite_dom_map_of)
qed

end
