(* ===== verification/Binary64.thy ===== *)
theory Binary64
  imports Complex_Main "HOL-Library.Log_Nat"
begin

text \<open>
  The C++ type \<^verbatim>\<open>double\<close>: a finite value is the rational number it stands for, and every
  arithmetic operation rounds the exact result to the nearest binary64 number, ties to even.
  Infinities and NaN are not modelled: no operation of the sources divides by zero, and the
  conversion of a string to a \<^verbatim>\<open>double\<close> yields finite values only. The locale \<open>rounding\<close>
  states what the components use of the rounding; it is interpreted on the binary64 rounding.
\<close>

type_synonym double = rat

section \<open>Rounding as an interface\<close>

locale rounding =
  fixes fl :: "rat \<Rightarrow> rat"
  assumes fl_mono: "x \<le> y \<Longrightarrow> fl x \<le> fl y"
    and fl_idem: "fl (fl x) = fl x"
    and fl_zero: "fl 0 = 0"
    and fl_one: "fl 1 = 1"
begin

lemma fl_nonneg: "0 \<le> x \<Longrightarrow> 0 \<le> fl x"
  using fl_mono [of 0 x] by (simp add: fl_zero)

lemma fl_nonpos: "x \<le> 0 \<Longrightarrow> fl x \<le> 0"
  using fl_mono [of x 0] by (simp add: fl_zero)

lemma fl_le_one: "x \<le> 1 \<Longrightarrow> fl x \<le> 1"
  using fl_mono [of x 1] by (simp add: fl_one)

lemma fl_le_repr: "fl m = m \<Longrightarrow> x \<le> m \<Longrightarrow> fl x \<le> m"
  using fl_mono [of x m] by simp

lemma fl_ge_repr: "fl m = m \<Longrightarrow> m \<le> x \<Longrightarrow> m \<le> fl x"
  using fl_mono [of m x] by simp

text \<open>A fraction of a representable value, computed in two rounded steps, stays below it.\<close>

lemma fl_scaled_le:
  assumes "fl m = m" and "0 \<le> m" and "0 \<le> q" and "q \<le> 1"
  shows "fl (fl q * m) \<le> m"
proof (rule fl_le_repr [OF assms(1)])
  show "fl q * m \<le> m"
    using mult_right_mono [OF fl_le_one [OF assms(4)] assms(2)] by simp
qed

lemma fl_scaled_nonneg:
  assumes "0 \<le> m" and "0 \<le> q"
  shows "0 \<le> fl (fl q * m)"
  using assms by (simp add: fl_nonneg)

lemma fl_add_nonneg: "fl r = r \<Longrightarrow> 0 \<le> s \<Longrightarrow> r \<le> fl (r + s)"
  by (simp add: fl_ge_repr)

end

section \<open>Rounding to an integer, ties to even\<close>

definition rne :: "rat \<Rightarrow> int" where
  "rne x = (let f = \<lfloor>x\<rfloor>; r = x - of_int f
     in if r < 1 / 2 then f else if 1 / 2 < r then f + 1 else if even f then f else f + 1)"

lemma rne_bounds: "\<lfloor>x\<rfloor> \<le> rne x" "rne x \<le> \<lfloor>x\<rfloor> + 1"
  by (auto simp: rne_def Let_def)

lemma rne_of_int [simp]: "rne (of_int k) = k"
  by (simp add: rne_def)

lemma rne_mono: "x \<le> y \<Longrightarrow> rne x \<le> rne y"
proof -
  assume le: "x \<le> y"
  then have f: "\<lfloor>x\<rfloor> \<le> \<lfloor>y\<rfloor>" by (rule floor_mono)
  show ?thesis
  proof (cases "\<lfloor>x\<rfloor> = \<lfloor>y\<rfloor>")
    case True
    with le show ?thesis by (auto simp: rne_def Let_def)
  next
    case False
    with f have "\<lfloor>x\<rfloor> + 1 \<le> \<lfloor>y\<rfloor>" by simp
    then show ?thesis using rne_bounds [of x] rne_bounds [of y] by linarith
  qed
qed

section \<open>The binary exponent of a positive rational\<close>

definition dbl_exp :: "rat \<Rightarrow> int" where
  "dbl_exp q = (case quotient_of q of (n, d) \<Rightarrow>
     let e = bitlen n - bitlen d in if 2 powi e \<le> q then e else e - 1)"

lemma powi2_mono: "a \<le> b \<Longrightarrow> (2::rat) powi a \<le> 2 powi b"
  by (simp add: power_int_increasing)

lemma powi2_pos [simp]: "0 < (2::rat) powi a"
  by (rule zero_less_power_int) simp

lemma powi2_add: "(2::rat) powi (a + b) = 2 powi a * 2 powi b"
  by (rule power_int_add) simp

lemma powi2_53: "(2::rat) powi (e + 1) = 2 ^ 53 * 2 powi (e - 52)"
  using power_int_add [of "2::rat" 53 "e - 52"] by (simp add: algebra_simps)

lemma powi2_52: "(2::rat) powi e = 2 ^ 52 * 2 powi (e - 52)"
  using power_int_add [of "2::rat" 52 "e - 52"] by simp

lemma bitlen_powi:
  assumes "0 < n"
  shows "(2::rat) powi (bitlen n - 1) \<le> of_int n" "of_int n < (2::rat) powi (bitlen n)"
proof -
  from bitlen_bounds [OF assms]
  have b: "2 ^ nat (bitlen n - 1) \<le> n" "n < 2 ^ nat (bitlen n)" by auto
  have "0 < bitlen n" using assms bitlen_eq_zero_iff [of n] bitlen_nonneg [of n] by linarith
  then have e: "(2::rat) powi (bitlen n - 1) = of_int (2 ^ nat (bitlen n - 1))"
    "(2::rat) powi (bitlen n) = of_int (2 ^ nat (bitlen n))"
    by (simp_all add: power_int_def)
  show "(2::rat) powi (bitlen n - 1) \<le> of_int n" "of_int n < (2::rat) powi (bitlen n)"
    unfolding e of_int_le_iff of_int_less_iff using b by simp_all
qed

lemma dbl_exp_bounds:
  assumes "0 < q"
  shows "2 powi (dbl_exp q) \<le> q" "q < 2 powi (dbl_exp q + 1)"
proof -
  obtain n d where nd: "quotient_of q = (n, d)" by (cases "quotient_of q")
  have d: "0 < d" by (rule quotient_of_denom_pos [OF nd])
  have q: "q = of_int n / of_int d" by (rule quotient_of_div [OF nd])
  with assms d have n: "0 < n" by (simp add: zero_less_divide_iff)
  let ?e = "bitlen n - bitlen d"
  note bn = bitlen_powi [OF n] and bd = bitlen_powi [OF d]
  have lo: "2 powi (?e - 1) \<le> q"
  proof -
    have "2 powi (?e - 1) * of_int d \<le> (2::rat) powi (?e - 1) * 2 powi (bitlen d)"
      using bd(2) by (simp add: mult_left_mono)
    also have "\<dots> = 2 powi (bitlen n - 1)"
      by (simp flip: powi2_add)
    also have "\<dots> \<le> of_int n" by (rule bn(1))
    finally show ?thesis using d by (simp add: q pos_le_divide_eq)
  qed
  have hi: "q < 2 powi (?e + 1)"
  proof -
    have "of_int n < (2::rat) powi (bitlen n)" by (rule bn(2))
    also have "\<dots> = 2 powi (?e + 1) * 2 powi (bitlen d - 1)"
      by (simp flip: powi2_add)
    also have "\<dots> \<le> 2 powi (?e + 1) * of_int d"
      using bd(1) by (simp add: mult_left_mono)
    finally show ?thesis using d by (simp add: q pos_divide_less_eq)
  qed
  show "2 powi (dbl_exp q) \<le> q" "q < 2 powi (dbl_exp q + 1)"
    using lo hi by (auto simp: dbl_exp_def nd Let_def)
qed

lemma dbl_exp_le: "0 < v \<Longrightarrow> v < 2 powi (e + 1) \<Longrightarrow> dbl_exp v \<le> e"
proof (rule ccontr)
  assume v: "0 < v" "v < 2 powi (e + 1)" and "\<not> dbl_exp v \<le> e"
  then have "2 powi (e + 1) \<le> (2::rat) powi (dbl_exp v)" by (intro powi2_mono) simp
  with v dbl_exp_bounds(1) [OF v(1)] show False by linarith
qed

lemma dbl_exp_ge: "0 < v \<Longrightarrow> 2 powi e \<le> v \<Longrightarrow> e \<le> dbl_exp v"
proof (rule ccontr)
  assume v: "0 < v" "2 powi e \<le> v" and "\<not> e \<le> dbl_exp v"
  then have "2 powi (dbl_exp v + 1) \<le> (2::rat) powi e" by (intro powi2_mono) simp
  with v dbl_exp_bounds(2) [OF v(1)] show False by linarith
qed

lemma dbl_exp_unique:
  assumes "2 powi e \<le> q" "q < 2 powi (e + 1)"
  shows "dbl_exp q = e"
proof -
  have "0 < q" using assms(1) powi2_pos less_le_trans by blast
  with assms dbl_exp_le [of q e] dbl_exp_ge [of q e] show ?thesis by simp
qed

lemma dbl_exp_mono: "0 < x \<Longrightarrow> x \<le> y \<Longrightarrow> dbl_exp x \<le> dbl_exp y"
proof (rule ccontr)
  assume x: "0 < x" "x \<le> y" and "\<not> dbl_exp x \<le> dbl_exp y"
  then have "dbl_exp y + 1 \<le> dbl_exp x" by simp
  then have "2 powi (dbl_exp y + 1) \<le> (2::rat) powi (dbl_exp x)" by (rule powi2_mono)
  with x dbl_exp_bounds [of x] dbl_exp_bounds [of y] show False by linarith
qed

section \<open>Rounding to binary64\<close>

text \<open>
  The unit in the last place of a value with exponent \<open>e\<close> is \<open>2 powi (e - 52)\<close>; below the
  least normal number, \<open>2 powi -1022\<close>, it stays that of the least exponent.
\<close>

definition dbl_ulp :: "rat \<Rightarrow> rat" where
  "dbl_ulp q = 2 powi (max (dbl_exp q) (-1022) - 52)"

definition fl_pos :: "rat \<Rightarrow> rat" where
  "fl_pos q = of_int (rne (q / dbl_ulp q)) * dbl_ulp q"

definition fl64 :: "rat \<Rightarrow> double" where
  "fl64 x = (if x = 0 then 0 else if 0 < x then fl_pos x else - fl_pos (- x))"

text \<open>The arithmetic of \<^verbatim>\<open>double\<close>.\<close>

definition dadd :: "double \<Rightarrow> double \<Rightarrow> double" where "dadd a b = fl64 (a + b)"
definition dmul :: "double \<Rightarrow> double \<Rightarrow> double" where "dmul a b = fl64 (a * b)"
definition ddiv :: "double \<Rightarrow> double \<Rightarrow> double" where "ddiv a b = fl64 (a / b)"

lemma dbl_ulp_pos [simp]: "0 < dbl_ulp q"
  by (simp add: dbl_ulp_def)

lemma rne_nonneg: "0 \<le> x \<Longrightarrow> 0 \<le> rne x"
  using rne_mono [of 0 x] rne_of_int [of 0] by simp

lemma fl_pos_nonneg: "0 < q \<Longrightarrow> 0 \<le> fl_pos q"
  by (simp add: fl_pos_def rne_nonneg less_imp_le)

lemma rne_le_of_int: "x \<le> of_int k \<Longrightarrow> rne x \<le> k"
  using rne_mono [of x "of_int k"] by simp

lemma rne_ge_of_int: "of_int k \<le> x \<Longrightarrow> k \<le> rne x"
  using rne_mono [of "of_int k" x] by simp

text \<open>The scaled value lies below \<open>2 ^ 53\<close>, and above \<open>2 ^ 52\<close> for a normal number.\<close>

lemma scaled_upper: "0 < q \<Longrightarrow> q / dbl_ulp q \<le> 2 ^ 53"
proof -
  assume "0 < q"
  have "q \<le> 2 powi (max (dbl_exp q) (-1022) + 1)"
    using dbl_exp_bounds(2) [OF \<open>0 < q\<close>] powi2_mono [of "dbl_exp q + 1" "max (dbl_exp q) (-1022) + 1"]
    by simp
  also have "\<dots> = 2 ^ 53 * dbl_ulp q"
    unfolding dbl_ulp_def by (rule powi2_53)
  finally show ?thesis by (simp add: pos_divide_le_eq)
qed

lemma scaled_lower: "0 < q \<Longrightarrow> -1022 \<le> dbl_exp q \<Longrightarrow> 2 ^ 52 \<le> q / dbl_ulp q"
proof -
  assume "0 < q" and e: "-1022 \<le> dbl_exp q"
  have "2 ^ 52 * dbl_ulp q = 2 powi (dbl_exp q)"
    using e powi2_52 [of "dbl_exp q"] by (simp add: dbl_ulp_def max_absorb1)
  also have "\<dots> \<le> q" using dbl_exp_bounds(1) [OF \<open>0 < q\<close>] by simp
  finally show ?thesis by (simp add: pos_le_divide_eq)
qed

lemma fl_pos_mono: "0 < x \<Longrightarrow> x \<le> y \<Longrightarrow> fl_pos x \<le> fl_pos y"
proof -
  assume x: "0 < x" and le: "x \<le> y"
  then have y: "0 < y" by simp
  let ?ex = "max (dbl_exp x) (-1022)" and ?ey = "max (dbl_exp y) (-1022)"
  have ee: "?ex \<le> ?ey" using dbl_exp_mono [OF x le] by simp
  show ?thesis
  proof (cases "?ex = ?ey")
    case True
    then have u: "dbl_ulp x = dbl_ulp y" by (simp add: dbl_ulp_def)
    have "rne (x / dbl_ulp y) \<le> rne (y / dbl_ulp y)"
      using le by (intro rne_mono divide_right_mono) (simp_all add: less_imp_le)
    then show ?thesis by (simp add: fl_pos_def u)
  next
    case False
    with ee have lt: "?ex + 1 \<le> ?ey" by linarith
    then have ey: "-1022 \<le> dbl_exp y" and eyy: "?ey = dbl_exp y" by linarith+
    have "fl_pos x \<le> 2 ^ 53 * dbl_ulp x"
      using rne_le_of_int [of "x / dbl_ulp x" "2 ^ 53"] scaled_upper [OF x]
      by (simp add: fl_pos_def)
    also have "\<dots> = 2 powi (?ex + 1)"
      unfolding dbl_ulp_def by (rule powi2_53 [symmetric])
    also have "\<dots> \<le> 2 powi ?ey"
      using lt by (rule powi2_mono)
    also have "\<dots> = 2 ^ 52 * dbl_ulp y"
      unfolding dbl_ulp_def by (rule powi2_52)
    also have "\<dots> \<le> fl_pos y"
      using rne_ge_of_int [of "2 ^ 52" "y / dbl_ulp y"] scaled_lower [OF y ey]
      by (simp add: fl_pos_def)
    finally show ?thesis .
  qed
qed

lemma fl_pos_fix:
  assumes "v = of_int k * dbl_ulp v"
  shows "fl_pos v = v"
proof -
  have "v / dbl_ulp v = of_int k * dbl_ulp v / dbl_ulp v" using assms by simp
  also have "\<dots> = of_int k" by (rule nonzero_mult_div_cancel_right) (simp add: less_imp_neq [symmetric])
  finally show ?thesis unfolding fl_pos_def using assms by simp
qed

lemma fl_pos_idem:
  assumes q: "0 < q" and v: "0 < fl_pos q"
  shows "fl_pos (fl_pos q) = fl_pos q"
proof -
  let ?E = "max (dbl_exp q) (-1022)" and ?v = "fl_pos q"
  define k where "k = rne (q / dbl_ulp q)"
  have vk: "?v = of_int k * dbl_ulp q" by (simp add: fl_pos_def k_def)
  have k53: "k \<le> 2 ^ 53"
    using rne_le_of_int [of "q / dbl_ulp q" "2 ^ 53"] scaled_upper [OF q] by (simp add: k_def)
  have u: "dbl_ulp q = 2 powi (?E - 52)" by (simp add: dbl_ulp_def)
  have up: "of_int (2 ^ 53) * dbl_ulp q = 2 powi (?E + 1)"
    unfolding u powi2_53 by simp
  show ?thesis
  proof (cases "k = 2 ^ 53")
    case True
    with vk up have v2: "?v = 2 powi (?E + 1)" by simp
    have "dbl_exp ?v = ?E + 1"
      unfolding v2 by (rule dbl_exp_unique) (auto simp: powi2_add)
    then have "dbl_ulp ?v = 2 powi (?E + 1 - 52)" by (simp add: dbl_ulp_def)
    moreover have "?v = of_int (2 ^ 52) * 2 powi (?E + 1 - 52)"
      unfolding v2 powi2_52 [of "?E + 1"] by simp
    ultimately show ?thesis by (intro fl_pos_fix [of _ "2 ^ 52"]) (simp only:)
  next
    case False
    with k53 have lt: "k < 2 ^ 53" by simp
    then have "?v < 2 powi (?E + 1)"
      unfolding vk up [symmetric] by (simp only: mult_less_cancel_right_pos dbl_ulp_pos of_int_less_iff)
    then have le: "dbl_exp ?v \<le> ?E"
      by (rule dbl_exp_le [OF v])
    have "?E \<le> max (dbl_exp ?v) (-1022)"
    proof (cases "-1022 \<le> dbl_exp q")
      case True
      have "of_int (2 ^ 52) * dbl_ulp q \<le> ?v"
        using rne_ge_of_int [of "2 ^ 52" "q / dbl_ulp q"] scaled_lower [OF q True]
        unfolding vk k_def by (intro mult_right_mono) (simp_all add: less_imp_le)
      moreover have "of_int (2 ^ 52) * dbl_ulp q = 2 powi ?E"
        unfolding u powi2_52 [of ?E] by simp
      ultimately have "2 powi ?E \<le> ?v" by simp
      then have "?E \<le> dbl_exp ?v"
        by (rule dbl_exp_ge [OF v])
      then show ?thesis by simp
    qed simp
    with le have "max (dbl_exp ?v) (-1022) = ?E" by linarith
    then have "dbl_ulp ?v = dbl_ulp q" unfolding dbl_ulp_def by (simp only:)
    then have "?v = of_int k * dbl_ulp ?v" using vk by metis
    then show ?thesis by (rule fl_pos_fix)
  qed
qed

section \<open>Binary64 rounding implements the interface\<close>

lemma fl64_minus: "fl64 (- x) = - fl64 x"
  by (simp add: fl64_def)

lemma fl64_pos: "0 \<le> x \<Longrightarrow> 0 \<le> fl64 x"
  by (simp add: fl64_def fl_pos_nonneg)

lemma fl64_mono_nonneg: "0 \<le> x \<Longrightarrow> x \<le> y \<Longrightarrow> fl64 x \<le> fl64 y"
  by (auto simp: fl64_def fl_pos_mono fl_pos_nonneg)

lemma fl64_mono: "x \<le> y \<Longrightarrow> fl64 x \<le> fl64 y"
proof -
  assume le: "x \<le> y"
  consider "0 \<le> x" | "x < 0" "0 \<le> y" | "y < 0" by linarith
  then show ?thesis
  proof cases
    case 1
    then show ?thesis using le by (rule fl64_mono_nonneg)
  next
    case 2
    have "fl64 x \<le> 0" using fl64_pos [of "- x"] 2 by (simp add: fl64_minus)
    also have "0 \<le> fl64 y" using fl64_pos 2 by blast
    finally show ?thesis .
  next
    case 3
    have "fl64 (- y) \<le> fl64 (- x)" using 3 le by (intro fl64_mono_nonneg) simp_all
    then show ?thesis by (simp add: fl64_minus)
  qed
qed

lemma fl64_idem_nonneg: "0 \<le> x \<Longrightarrow> fl64 (fl64 x) = fl64 x"
  using fl_pos_nonneg [of x] fl_pos_idem [of x] by (auto simp: fl64_def)

lemma fl64_idem: "fl64 (fl64 x) = fl64 x"
proof (cases "0 \<le> x")
  case True
  then show ?thesis by (rule fl64_idem_nonneg)
next
  case False
  then have "fl64 (fl64 (- x)) = fl64 (- x)" by (simp add: fl64_idem_nonneg)
  then show ?thesis unfolding fl64_minus by simp
qed

lemma dbl_exp_one: "dbl_exp 1 = 0"
  by (rule dbl_exp_unique) simp_all

lemma fl64_one: "fl64 1 = 1"
proof -
  have u: "dbl_ulp 1 = 1 / 2 ^ 52"
    using powi2_52 [of 0] by (simp add: dbl_ulp_def dbl_exp_one)
  have "1 / dbl_ulp 1 = of_int (2 ^ 52)" by (simp add: u)
  then have "rne (1 / dbl_ulp 1) = 2 ^ 52" by (simp only: rne_of_int)
  then have "fl_pos 1 = of_int (2 ^ 52) * dbl_ulp 1" by (simp only: fl_pos_def)
  also have "\<dots> = 1" unfolding u by simp
  finally show ?thesis by (simp add: fl64_def)
qed

interpretation b64: rounding fl64
  by unfold_locales (simp_all add: fl64_mono fl64_idem fl64_one, simp add: fl64_def)

end
