(* ===== verification/Common.thy ===== *)
theory Common
  imports Prelude Binary64
begin

text \<open>
  \<^verbatim>\<open>common/common.cpp\<close>: the names of the Redis keys and the load-balance score.
\<close>

section \<open>Redis keys\<close>

definition USER_INFO_KEY :: "string list" where
  "USER_INFO_KEY = [''OFFICIAL_FANS_'', ''MONTH_ACTIVE_USER_'', ''PUSH_SWITCH_OPENED_'']"

definition TMP_USER_INFO_KEY :: string where
  "TMP_USER_INFO_KEY = ''TMP_USER_INFO_KEY''"

definition SECONDS_PER_MINUTE :: u32 where
  "SECONDS_PER_MINUTE = 60"

definition genReleaseKey :: "string \<Rightarrow> string" where
  "genReleaseKey c = c @ ''RELEASE''"

definition genTempKey :: "string \<Rightarrow> string" where
  "genTempKey c = c @ ''TEMP''"

definition genDiffKey :: "string \<Rightarrow> string" where
  "genDiffKey c = c @ ''DIFF''"

text \<open>Every key the processes ever name.\<close>

definition all_keys :: "string list" where
  "all_keys = TMP_USER_INFO_KEY # map genReleaseKey USER_INFO_KEY
     @ map genTempKey USER_INFO_KEY @ map genDiffKey USER_INFO_KEY"

section \<open>The load-balance score\<close>

definition calLoadBalanceScore :: "double \<Rightarrow> double" where
  "calLoadBalanceScore avgTime = ddiv (dmul 10 7) (dadd avgTime 7)"

lemma dmul_10_7: "dmul 10 7 = 70"
  by code_simp

lemma score_zero: "calLoadBalanceScore 0 = 10"
  by code_simp

lemma score_repr: "fl64 (calLoadBalanceScore t) = calLoadBalanceScore t"
  by (simp add: calLoadBalanceScore_def ddiv_def b64.fl_idem)

lemma fl64_7: "fl64 7 = 7" by code_simp

lemma score_denominator: "0 \<le> t \<Longrightarrow> 7 \<le> dadd t 7"
  by (simp add: dadd_def b64.fl_ge_repr fl64_7)

lemma score_antitone_pos:
  assumes "0 \<le> s" and "s \<le> t"
  shows "calLoadBalanceScore t \<le> calLoadBalanceScore s"
proof -
  have "7 \<le> dadd s 7" using assms(1) by (rule score_denominator)
  moreover have "dadd s 7 \<le> dadd t 7"
    using assms(2) by (simp add: dadd_def b64.fl_mono)
  ultimately have "70 / dadd t 7 \<le> 70 / dadd s 7"
    by (intro divide_left_mono) auto
  then show ?thesis
    by (simp add: calLoadBalanceScore_def dmul_10_7 ddiv_def b64.fl_mono)
qed

lemma score_nonneg: "0 \<le> t \<Longrightarrow> 0 \<le> calLoadBalanceScore t"
  using score_denominator [of t]
  by (simp add: calLoadBalanceScore_def dmul_10_7 ddiv_def b64.fl_nonneg)

end
