(* ===== verification/DaemonState.thy ===== *)
theory DaemonState
  imports StdContainers Common
begin

text \<open>
  The global tables of \<^verbatim>\<open>daemonServer/daemonServer.cpp\<close>, all guarded by \<^verbatim>\<open>gSvrInfoMutex\<close>:
  the registered servers, the state of each producer, the idle producers, the ranks for the
  weighted choice and the number of unanswered requests; and \<^verbatim>\<open>Rebalance\<close>, which rebuilds
  the ranks. One value of the record \<open>daemon\<close> is the state between two critical sections.
\<close>

section \<open>State\<close>

record server_info =
  address :: string
  procName :: string
  groupId :: u32
  timestamp :: int
  score :: double

definition ServerInfo :: "string \<Rightarrow> string \<Rightarrow> u32 \<Rightarrow> int \<Rightarrow> server_info" where
  "ServerInfo addr proc grp ts =
     \<lparr>address = addr, procName = proc, groupId = grp, timestamp = ts, score = 0\<rparr>"

text \<open>
  A \<^verbatim>\<open>ProducerCaller\<close> owns the stub of a channel: it is modelled by the address of the
  channel, \<open>None\<close> for the null stub of a default-constructed caller.
\<close>

record producer_state =
  producerCaller :: "string option"
  curTaskCount :: u32
  failCount :: u32

definition default_producer_state :: producer_state where
  "default_producer_state = \<lparr>producerCaller = None, curTaskCount = 0, failCount = 0\<rparr>"

definition ProducerState :: "string option \<Rightarrow> u32 \<Rightarrow> producer_state" where
  "ProducerState pc n = \<lparr>producerCaller = pc, curTaskCount = n, failCount = 0\<rparr>"

record daemon =
  gSvrId2SvrInfo :: "(u64, server_info) omap"
  gRank2SvrId :: "(double, u64) omap"
  gSvrId2ProducerState :: "(u64, producer_state) omap"
  gSetIdleProducer :: "u64 oset"
  sendingCount :: u32

definition daemon_init :: daemon where
  "daemon_init = \<lparr>gSvrId2SvrInfo = [], gRank2SvrId = [], gSvrId2ProducerState = [],
     gSetIdleProducer = [], sendingCount = 0\<rparr>"

definition UID_COUNT_PER_TIME :: u64 where "UID_COUNT_PER_TIME = 4096"
definition FAIL_COUNT_LIMIT :: u32 where "FAIL_COUNT_LIMIT = 50"
definition ALIVE_DURATION :: int where "ALIVE_DURATION = 10"

text \<open>The entries of the tables as partial functions and sets.\<close>

abbreviation info_of :: "daemon \<Rightarrow> u64 \<Rightarrow> server_info option" where
  "info_of d \<equiv> map_of (gSvrId2SvrInfo d)"

abbreviation prod_of :: "daemon \<Rightarrow> u64 \<Rightarrow> producer_state option" where
  "prod_of d \<equiv> map_of (gSvrId2ProducerState d)"

abbreviation idle :: "daemon \<Rightarrow> u64 set" where
  "idle d \<equiv> dom (map_of (gSetIdleProducer d))"

abbreviation ranked :: "daemon \<Rightarrow> u64 set" where
  "ranked d \<equiv> snd ` set (gRank2SvrId d)"

section \<open>Rebalance\<close>

text \<open>
  The loop over \<^verbatim>\<open>gSvrId2SvrInfo\<close>. The log line reads
  \<^verbatim>\<open>gSvrId2ProducerState[p->first]\<close>, which inserts a default entry where there is none.
\<close>

fun rebalance_loop :: "(u64 \<times> server_info) list \<Rightarrow> double \<Rightarrow> daemon \<Rightarrow> daemon" where
  "rebalance_loop [] rank d = d"
| "rebalance_loop ((svrId, info) # rest) rank d =
     (let rank' = dadd rank (score info);
          d1 = d\<lparr>gSvrId2ProducerState := om_index svrId default_producer_state (gSvrId2ProducerState d)\<rparr>;
          d2 = d1\<lparr>gRank2SvrId := om_assign rank' svrId (gRank2SvrId d1)\<rparr>
      in rebalance_loop rest rank' d2)"

definition Rebalance :: "daemon \<Rightarrow> daemon" where
  "Rebalance d = rebalance_loop (gSvrId2SvrInfo d) 0 (d\<lparr>gRank2SvrId := []\<rparr>)"

section \<open>What Rebalance computes\<close>

text \<open>The running sums of the scores, with the server each belongs to.\<close>

fun prefix_ranks :: "double \<Rightarrow> (u64 \<times> server_info) list \<Rightarrow> (double \<times> u64) list" where
  "prefix_ranks r [] = []"
| "prefix_ranks r ((i, info) # rest) =
     (let r' = dadd r (score info) in (r', i) # prefix_ranks r' rest)"

definition assign_all :: "('k::linorder \<times> 'v) list \<Rightarrow> ('k, 'v) omap \<Rightarrow> ('k, 'v) omap" where
  "assign_all ps m = fold (\<lambda>(k, v). om_assign k v) ps m"

definition index_all :: "u64 list \<Rightarrow> (u64, producer_state) omap \<Rightarrow> (u64, producer_state) omap" where
  "index_all ks m = fold (\<lambda>k. om_index k default_producer_state) ks m"

lemma rebalance_loop_eq:
  "rebalance_loop l r d = d\<lparr>gRank2SvrId := assign_all (prefix_ranks r l) (gRank2SvrId d),
     gSvrId2ProducerState := index_all (map fst l) (gSvrId2ProducerState d)\<rparr>"
  by (induction l r d rule: rebalance_loop.induct)
    (simp_all add: assign_all_def index_all_def Let_def)

lemma Rebalance_eq:
  "Rebalance d = d\<lparr>gRank2SvrId := assign_all (prefix_ranks 0 (gSvrId2SvrInfo d)) [],
     gSvrId2ProducerState := index_all (map fst (gSvrId2SvrInfo d)) (gSvrId2ProducerState d)\<rparr>"
  by (simp add: Rebalance_def rebalance_loop_eq)

lemma Rebalance_frame [simp]:
  "gSvrId2SvrInfo (Rebalance d) = gSvrId2SvrInfo d"
  "gSetIdleProducer (Rebalance d) = gSetIdleProducer d"
  "sendingCount (Rebalance d) = sendingCount d"
  by (simp_all add: Rebalance_eq)

subsection \<open>Producer states\<close>

lemma index_all_ok: "om_ok m \<Longrightarrow> om_ok (index_all ks m)"
  by (induction ks arbitrary: m) (simp_all add: index_all_def om.ok_index)

lemma index_all_stays: "om_ok m \<Longrightarrow> map_of m k = Some p \<Longrightarrow> map_of (index_all ks m) k = Some p"
  by (induction ks arbitrary: m) (simp_all add: index_all_def om.ok_index om.index_stays)

lemma index_all_find:
  "om_ok m \<Longrightarrow> map_of (index_all ks m) k =
    (case map_of m k of Some p \<Rightarrow> Some p
     | None \<Rightarrow> if k \<in> set ks then Some default_producer_state else None)"
proof (induction ks arbitrary: m)
  case Nil
  then show ?case by (simp add: index_all_def split: option.splits)
next
  case (Cons a ks)
  then show ?case
    by (auto simp: index_all_def om.ok_index om.find_index split: option.splits)
qed

lemma Rebalance_prod:
  "om_ok (gSvrId2ProducerState d) \<Longrightarrow> prod_of (Rebalance d) k =
    (case prod_of d k of Some p \<Rightarrow> Some p
     | None \<Rightarrow> if k \<in> dom (info_of d) then Some default_producer_state else None)"
  by (auto simp: Rebalance_eq index_all_find om_dom split: option.splits)

lemma Rebalance_prod_dom:
  "om_ok (gSvrId2ProducerState d) \<Longrightarrow> dom (prod_of (Rebalance d)) = dom (prod_of d) \<union> dom (info_of d)"
  by (auto simp: dom_def Rebalance_prod split: option.splits if_splits)

subsection \<open>Ranks\<close>

lemma assign_all_ok: "om_ok m \<Longrightarrow> om_ok (assign_all ps m)"
  by (induction ps arbitrary: m) (auto simp: assign_all_def om_ok_assign)

lemma assign_all_subset: "om_ok m \<Longrightarrow> set (assign_all ps m) \<subseteq> set m \<union> set ps"
proof (induction ps arbitrary: m)
  case Nil
  then show ?case by (simp add: assign_all_def)
next
  case (Cons p ps)
  then have "set (assign_all ps (om_assign (fst p) (snd p) m)) \<subseteq> set (om_assign (fst p) (snd p) m) \<union> set ps"
    by (simp add: om_ok_assign)
  then show ?case
    using Cons.prems by (auto simp: assign_all_def set_om_assign split: prod.splits)
qed

lemma prefix_ranks_ids: "map snd (prefix_ranks r l) = map fst l"
  by (induction r l rule: prefix_ranks.induct) (simp_all add: Let_def)

lemma prefix_ranks_repr: "(r', i) \<in> set (prefix_ranks r l) \<Longrightarrow> fl64 r' = r'"
  by (induction r l rule: prefix_ranks.induct) (auto simp: Let_def dadd_def b64.fl_idem)

lemma Rebalance_ranked: "ranked (Rebalance d) \<subseteq> dom (info_of d)"
proof -
  have "ranked (Rebalance d) \<subseteq> snd ` set (prefix_ranks 0 (gSvrId2SvrInfo d))"
    using assign_all_subset [of "[]" "prefix_ranks 0 (gSvrId2SvrInfo d)"]
    by (auto simp: Rebalance_eq)
  also have "\<dots> = fst ` set (gSvrId2SvrInfo d)"
    using arg_cong [OF prefix_ranks_ids, of set] by simp
  finally show ?thesis by (simp add: om_dom)
qed

lemma Rebalance_rank_ok: "om_ok (gRank2SvrId (Rebalance d))"
  by (simp add: Rebalance_eq assign_all_ok)

lemma Rebalance_rank_repr: "(r, i) \<in> set (gRank2SvrId (Rebalance d)) \<Longrightarrow> fl64 r = r"
  using assign_all_subset [of "[]" "prefix_ranks 0 (gSvrId2SvrInfo d)"] prefix_ranks_repr
  by (fastforce simp: Rebalance_eq)

end
