(* ===== verification/CallData.thy ===== *)
theory CallData
  imports Prelude
begin

text \<open>
  \<^verbatim>\<open>common/handler_interface.h\<close>: the life of the server side of one asynchronous RPC, a
  \<^verbatim>\<open>CallData\<close> object, and the dispatch of a completed client call. Each RPC of the
  services is a class with a \<^verbatim>\<open>Proceed\<close> method; the contract they share is the locale
  \<open>call_data\<close>, interpreted on each class where the class is modelled.
\<close>

section \<open>States and effects of a CallData object\<close>

text \<open>\<^verbatim>\<open>enum CallStatus { CREATE, PROCESS, FINISH }\<close>, in the order of the enumeration.\<close>

datatype call_status = CREATE | PROCESS | FINISH

definition status_rank :: "call_status \<Rightarrow> nat" where
  "status_rank s = (case s of CREATE \<Rightarrow> 0 | PROCESS \<Rightarrow> 1 | FINISH \<Rightarrow> 2)"

lemma status_rank_inj: "status_rank s = status_rank t \<Longrightarrow> s = t"
  by (cases s; cases t) (simp_all add: status_rank_def)

instantiation call_status :: linorder
begin

definition less_eq_call_status :: "call_status \<Rightarrow> call_status \<Rightarrow> bool" where
  "less_eq_call_status s t = (status_rank s \<le> status_rank t)"

definition less_call_status :: "call_status \<Rightarrow> call_status \<Rightarrow> bool" where
  "less_call_status s t = (status_rank s < status_rank t)"

instance
  by standard (auto simp: less_eq_call_status_def less_call_status_def dest: status_rank_inj)

end

text \<open>
  What \<^verbatim>\<open>Proceed\<close> does with the gRPC service: it asks for the next RPC
  (\<^verbatim>\<open>service_->RequestX(..., this)\<close>), creates the object for the RPC after this one
  (\<^verbatim>\<open>new XCallData(service_, cq_)\<close>), sends the reply (\<^verbatim>\<open>responder_.Finish(reply_, OK, this)\<close>)
  or deletes itself.
\<close>

datatype 'reply action = RequestRpc | NewCallData | FinishRpc 'reply | DeleteThis

section \<open>The contract of Proceed\<close>

locale call_data =
  fixes proceed :: "call_status \<Rightarrow> 'env \<Rightarrow> 's \<Rightarrow> call_status \<times> 'reply action list \<times> 's"
  assumes proceed_create: "proceed CREATE e s = (PROCESS, [RequestRpc], s)"
    and proceed_process: "\<exists>r s'. proceed PROCESS e s = (FINISH, [NewCallData, FinishRpc r], s')"
    and proceed_finish: "proceed FINISH e s = (FINISH, [DeleteThis], s)"
begin

text \<open>The status never goes back.\<close>

lemma status_mono: "st \<le> fst (proceed st e s)"
proof (cases st)
  case PROCESS
  then show ?thesis
    using proceed_process [of e s] by (auto simp: less_eq_call_status_def status_rank_def)
qed (simp_all add: proceed_create proceed_finish less_eq_call_status_def status_rank_def)

text \<open>The state is written by the PROCESS branch only.\<close>

lemma state_frame: "st \<noteq> PROCESS \<Longrightarrow> snd (snd (proceed st e s)) = s"
  by (cases st) (simp_all add: proceed_create proceed_finish)

text \<open>
  The three calls of \<^verbatim>\<open>Proceed\<close> in the life of an object (its constructor, the arrival of
  the RPC, the completion of the reply) ask for one RPC, make one successor, send one
  reply and delete the object, in this order.
\<close>

lemma life_cycle:
  "\<exists>r s'. proceed (fst (proceed CREATE e0 s0)) e1 s1 = (FINISH, [NewCallData, FinishRpc r], s') \<and>
     fst (snd (proceed CREATE e0 s0)) @ fst (snd (proceed PROCESS e1 s1)) @
       fst (snd (proceed FINISH e2 s2)) = [RequestRpc, NewCallData, FinishRpc r, DeleteThis]"
  using proceed_process [of e1 s1] by (auto simp: proceed_create proceed_finish)

end

section \<open>A service: all its CallData objects\<close>

text \<open>
  The completion queue hands the tag of an object to a thread that calls \<^verbatim>\<open>Proceed\<close>. The
  objects of a service are kept by status; \<open>deliver\<close> runs \<^verbatim>\<open>Proceed\<close> of one object of status
  \<open>st\<close>: the object gets its new status or is deleted, and a successor, whose constructor
  runs \<^verbatim>\<open>Proceed\<close> once, joins the others.
\<close>

definition deliver ::
  "(call_status \<Rightarrow> 'env \<Rightarrow> 's \<Rightarrow> call_status \<times> 'reply action list \<times> 's) \<Rightarrow>
   call_status \<Rightarrow> 'env \<Rightarrow> call_status multiset \<times> 's \<Rightarrow> call_status multiset \<times> 's" where
  "deliver proceed st e = (\<lambda>(objs, s).
     let (st', acts, s') = proceed st e s;
         kept = (if DeleteThis \<in> set acts then {#} else {#st'#});
         created = (if NewCallData \<in> set acts then {#fst (proceed CREATE e s)#} else {#})
     in (objs - {#st#} + kept + created, s'))"

context call_data
begin

text \<open>
  A service always has exactly one object that waits for the next RPC: none is lost when an
  RPC arrives, and none is added when a reply completes.
\<close>

lemma one_listener:
  assumes "st \<in># objs" and "CREATE \<notin># objs" and "count objs PROCESS = 1"
  shows "count (fst (deliver proceed st e (objs, s))) PROCESS = 1 \<and>
    CREATE \<notin># fst (deliver proceed st e (objs, s))"
proof (cases st)
  case CREATE
  with assms show ?thesis by simp
next
  case PROCESS
  obtain r s' where "proceed PROCESS e s = (FINISH, [NewCallData, FinishRpc r], s')"
    using proceed_process by blast
  then show ?thesis using assms PROCESS
    by (auto simp: deliver_def proceed_create not_in_iff)
next
  case FINISH
  then show ?thesis using assms
    by (auto simp: deliver_def proceed_finish not_in_iff dest: in_diffD)
qed

end

section \<open>Completion of a client call\<close>

text \<open>
  \<^verbatim>\<open>HandleAsyncCall\<close>: the completion queue must report \<^verbatim>\<open>ok\<close> (else the process aborts,
  \<open>None\<close>); a call whose status is good goes to \<^verbatim>\<open>OnGetResponse\<close>, any other to
  \<^verbatim>\<open>OnResponseFail\<close>.
\<close>

definition HandleAsyncCall :: "bool \<Rightarrow> bool \<Rightarrow> ('s \<Rightarrow> 's) \<Rightarrow> ('s \<Rightarrow> 's) \<Rightarrow> 's \<Rightarrow> 's option" where
  "HandleAsyncCall ok status_ok onGetResponse onResponseFail s =
     (if \<not> ok then None else if status_ok then Some (onGetResponse s) else Some (onResponseFail s))"

end
