(* ===== verification/DoubleIO.thy ===== *)
theory DoubleIO
  imports Prelude Binary64
begin

text \<open>
  Extraction of a \<^verbatim>\<open>double\<close> from a stream, \<^verbatim>\<open>ss >> score\<close>, as the C++ standard library
  does it in the C locale: leading white space is skipped; the longest prefix that can
  belong to a decimal floating literal is taken; if it is no complete literal the result is
  0; a value out of range becomes the greatest finite one. An exhausted stream leaves the
  variable as it was (\<open>None\<close>).
\<close>

definition is_space :: "char \<Rightarrow> bool" where
  "is_space c = ((of_char c :: nat) = 32 \<or> 9 \<le> (of_char c :: nat) \<and> (of_char c :: nat) \<le> 13)"

definition split_sign :: "string \<Rightarrow> bool \<times> string" where
  "split_sign s = (case s of [] \<Rightarrow> (False, s)
     | c # r \<Rightarrow> if c = CHR ''-'' then (True, r) else if c = CHR ''+'' then (False, r) else (False, s))"

definition split_digits :: "string \<Rightarrow> string \<times> string" where
  "split_digits s = (takeWhile is_digit s, dropWhile is_digit s)"

definition split_fraction :: "string \<Rightarrow> string \<times> string" where
  "split_fraction s = (case s of [] \<Rightarrow> ([], s)
     | c # r \<Rightarrow> if c = CHR ''.'' then split_digits r else ([], s))"

text \<open>The exponent: \<open>None\<close> when an \<open>e\<close> is not followed by digits.\<close>

definition parse_exponent :: "string \<Rightarrow> int option" where
  "parse_exponent s = (case s of [] \<Rightarrow> Some 0
     | c # r \<Rightarrow> if c = CHR ''e'' \<or> c = CHR ''E'' then
         (let (neg, r') = split_sign r; (ds, _) = split_digits r'
          in if ds = [] then None
             else Some (if neg then - int (nat_of_digits ds) else int (nat_of_digits ds)))
       else Some 0)"

definition dbl_max :: double where
  "dbl_max = (2 ^ 53 - 1) * 2 ^ 971"

definition clamp_dbl :: "double \<Rightarrow> double" where
  "clamp_dbl v = (if dbl_max < v then dbl_max else if v < - dbl_max then - dbl_max else v)"

definition decimal_value :: "bool \<Rightarrow> string \<Rightarrow> string \<Rightarrow> int \<Rightarrow> rat" where
  "decimal_value neg ip fp e =
     (let v = of_nat (nat_of_digits (ip @ fp)) * 10 powi (e - int (length fp)) in if neg then - v else v)"

definition extract_double :: "string \<Rightarrow> double option" where
  "extract_double s =
     (let s1 = dropWhile is_space s in
      if s1 = [] then None
      else let (neg, s2) = split_sign s1;
               (ip, s3) = split_digits s2;
               (fp, s4) = split_fraction s3
           in if ip = [] \<and> fp = [] then Some 0
              else case parse_exponent s4 of None \<Rightarrow> Some 0
                   | Some e \<Rightarrow> Some (clamp_dbl (fl64 (decimal_value neg ip fp e))))"

lemma fl64_dbl_max: "fl64 dbl_max = dbl_max"
proof -
  have m: "dbl_max = of_int (2 ^ 53 - 1) * 2 powi 971"
    by (simp add: dbl_max_def power_int_def)
  have "2 powi 1023 = 2 ^ 52 * (2::rat) powi 971" "2 powi (1023 + 1) = 2 ^ 53 * (2::rat) powi 971"
    using powi2_52 [of 1023] powi2_53 [of 1023] by simp_all
  then have "dbl_exp dbl_max = 1023"
    by (intro dbl_exp_unique) (simp_all add: m del: power_int_numeral)
  then have "dbl_ulp dbl_max = 2 powi 971" by (simp add: dbl_ulp_def)
  with m have "fl_pos dbl_max = dbl_max" by (intro fl_pos_fix [of _ "2 ^ 53 - 1"]) (simp only:)
  moreover have "0 < dbl_max" by (simp add: m)
  ultimately show ?thesis by (simp add: fl64_def)
qed

lemma clamp_dbl_repr: "fl64 v = v \<Longrightarrow> fl64 (clamp_dbl v) = clamp_dbl v"
  by (simp add: clamp_dbl_def fl64_dbl_max fl64_minus)

lemma fl64_zero [simp]: "fl64 0 = 0"
  by (simp add: fl64_def)

lemma extract_double_repr: "extract_double s = Some v \<Longrightarrow> fl64 v = v"
  by (auto simp: extract_double_def Let_def b64.fl_idem clamp_dbl_repr
      split: if_splits prod.splits option.splits)

lemma extract_double_ex1: "extract_double ''nan'' = Some 0" by code_simp
lemma extract_double_ex2: "extract_double '''' = None" by code_simp
lemma extract_double_ex3: "extract_double ''-3'' = Some (-3)"
proof -
  have "fl64 (-3) = -3" by code_simp
  then show ?thesis
    by (simp add: extract_double_def split_sign_def split_digits_def split_fraction_def
        is_space_def is_digit_def parse_exponent_def decimal_value_def clamp_dbl_def dbl_max_def
        nat_of_digits_def digit_val_def)
qed

end
