(* ===== verification/DaemonHandlers.thy ===== *)
theory DaemonHandlers
  imports DaemonState CallData DoubleIO
begin

text \<open>
  The RPC handlers of the daemon that do not send requests to producers, each a critical
  section of \<^verbatim>\<open>gSvrInfoMutex\<close>: \<^verbatim>\<open>ClientRegister\<close>, \<^verbatim>\<open>LoadBalance\<close> and \<^verbatim>\<open>HeartBeat\<close> with the
  \<^verbatim>\<open>Proceed\<close> methods around them, and the pass of \<^verbatim>\<open>CheckProcAlive\<close> that removes servers
  whose heart beat is late.
\<close>

section \<open>Well-formed tables\<close>

definition tables_ok :: "daemon \<Rightarrow> bool" where
  "tables_ok d \<longleftrightarrow> om_ok (gSvrId2SvrInfo d) \<and> om_ok (gSvrId2ProducerState d) \<and>
     om_ok (gSetIdleProducer d) \<and> idle d \<subseteq> dom (prod_of d)"

definition ranks_ok :: "daemon \<Rightarrow> bool" where
  "ranks_ok d \<longleftrightarrow> om_ok (gRank2SvrId d) \<and> ranked d \<subseteq> dom (prod_of d) \<and>
     (\<forall>p \<in> set (gRank2SvrId d). fl64 (fst p) = fst p)"

definition daemon_ok :: "daemon \<Rightarrow> bool" where
  "daemon_ok d \<longleftrightarrow> tables_ok d \<and> ranks_ok d"

lemma daemon_okD: "daemon_ok d \<Longrightarrow> tables_ok d" "daemon_ok d \<Longrightarrow> ranks_ok d"
  by (simp_all add: daemon_ok_def)

lemma tables_okD:
  assumes "tables_ok d"
  shows "om_ok (gSvrId2SvrInfo d)" "om_ok (gSvrId2ProducerState d)" "om_ok (gSetIdleProducer d)"
    "idle d \<subseteq> dom (prod_of d)"
  using assms by (simp_all add: tables_ok_def)

lemma daemon_ok_init: "daemon_ok daemon_init"
  by (simp add: daemon_ok_def tables_ok_def ranks_ok_def daemon_init_def)

text \<open>\<^verbatim>\<open>Rebalance\<close> re-establishes what holds of the ranks, whatever they were before.\<close>

lemma Rebalance_ok: "tables_ok d \<Longrightarrow> daemon_ok (Rebalance d)"
proof -
  assume t: "tables_ok d"
  note ok = tables_okD [OF t]
  have dom: "dom (prod_of (Rebalance d)) = dom (prod_of d) \<union> dom (info_of d)"
    by (rule Rebalance_prod_dom [OF ok(2)])
  have "tables_ok (Rebalance d)"
    using ok dom by (auto simp: tables_ok_def Rebalance_eq index_all_ok)
  moreover have "ranks_ok (Rebalance d)"
    using Rebalance_ranked [of d] dom Rebalance_rank_repr [of _ _ d]
    by (auto simp: ranks_ok_def Rebalance_rank_ok)
  ultimately show ?thesis by (simp add: daemon_ok_def)
qed

section \<open>ClientRegister\<close>

text \<open>
  \<^verbatim>\<open>parseAndGetIp\<close>. The splitting at colons is \<^verbatim>\<open>boost::split\<close>, a parameter; what its
  documentation says of it is \<open>splits_at_colons\<close>: the tokens hold no colon, and joined by
  colons they are the input again.
\<close>

definition parseAndGetIp :: "(string \<Rightarrow> string list) \<Rightarrow> string \<Rightarrow> string" where
  "parseAndGetIp boost_split peer =
     (let result = boost_split peer in
      if length result = 3 \<and> result ! 1 \<noteq> [] then result ! 1 else [])"

fun join_colon :: "string list \<Rightarrow> string" where
  "join_colon [] = []"
| "join_colon [s] = s"
| "join_colon (s # t # rest) = s @ CHR '':'' # join_colon (t # rest)"

definition splits_at_colons :: "(string \<Rightarrow> string list) \<Rightarrow> bool" where
  "splits_at_colons sp \<longleftrightarrow>
     (\<forall>s. sp s \<noteq> [] \<and> (\<forall>t \<in> set (sp s). CHR '':'' \<notin> set t) \<and> join_colon (sp s) = s)"

record register_request =
  listening_port :: string
  proc_name :: string
  group_id :: u32

record register_reply =
  reg_err :: err_code
  reg_server_id :: u64

text \<open>
  What the handler takes from outside: the peer of the connection (\<^verbatim>\<open>ctx_.peer()\<close>), the random
  number between 0 and \<^verbatim>\<open>INT_MAX\<close>, the clock.
\<close>

record register_env =
  env_peer :: string
  env_random :: u64
  env_now :: int

definition register_id :: "u64 \<Rightarrow> daemon \<Rightarrow> u64" where
  "register_id rnd d = (case om_rbegin (gSvrId2SvrInfo d) of None \<Rightarrow> rnd | Some (k, _) \<Rightarrow> k + 1)"

definition ClientRegister ::
  "(string \<Rightarrow> string list) \<Rightarrow> register_request \<Rightarrow> register_env \<Rightarrow> daemon \<Rightarrow> register_reply \<times> daemon" where
  "ClientRegister boost_split req env d =
     (let svrId = register_id (env_random env) d;
          addr = parseAndGetIp boost_split (env_peer env) @ '':'' @ listening_port req;
          d1 = d\<lparr>gSvrId2SvrInfo := fst (om_insert svrId
                   (ServerInfo addr (proc_name req) (group_id req) (env_now env)) (gSvrId2SvrInfo d))\<rparr>;
          d2 = (if proc_name req = ''producer'' then
                  (let score' = calLoadBalanceScore 0;
                       e1 = d1\<lparr>gSvrId2SvrInfo := om_modify svrId (\<lambda>i. i\<lparr>score := score'\<rparr>) (gSvrId2SvrInfo d1)\<rparr>;
                       e2 = e1\<lparr>gSvrId2ProducerState := om_assign svrId (ProducerState (Some addr) 0)
                              (gSvrId2ProducerState e1)\<rparr>;
                       e3 = e2\<lparr>gSetIdleProducer := fst (om_insert svrId () (gSetIdleProducer e2))\<rparr>
                   in Rebalance e3)
                else d1)
      in (\<lparr>reg_err = SUCCESS, reg_server_id = svrId\<rparr>, d2))"

definition ClientRegister_Proceed ::
  "(string \<Rightarrow> string list) \<Rightarrow> call_status \<Rightarrow> register_request \<times> register_env \<Rightarrow> daemon \<Rightarrow>
   call_status \<times> register_reply action list \<times> daemon" where
  "ClientRegister_Proceed boost_split status env d =
     (if status = CREATE then (PROCESS, [RequestRpc], d)
      else if status = PROCESS then
        (let (reply, d') = ClientRegister boost_split (fst env) (snd env) d
         in (FINISH, [NewCallData, FinishRpc reply], d'))
      else (status, [DeleteThis], d))"

section \<open>LoadBalance\<close>

record load_balance_request =
  lb_server_id :: u64
  lb_score :: string

text \<open>
  The local \<^verbatim>\<open>double score\<close> has no initial value; \<open>junk\<close> is what it holds before the
  extraction, which leaves it there when the string is empty.
\<close>

definition LoadBalance :: "double \<Rightarrow> load_balance_request \<Rightarrow> daemon \<Rightarrow> err_code \<times> daemon" where
  "LoadBalance junk req d =
     (let score' = (case extract_double (lb_score req) of None \<Rightarrow> junk | Some v \<Rightarrow> v)
      in case info_of d (lb_server_id req) of
           None \<Rightarrow> (ERR, d)
         | Some _ \<Rightarrow> (SUCCESS, d\<lparr>gSvrId2SvrInfo :=
             om_modify (lb_server_id req) (\<lambda>i. i\<lparr>score := score'\<rparr>) (gSvrId2SvrInfo d)\<rparr>))"

definition LoadBalance_Proceed ::
  "call_status \<Rightarrow> double \<times> load_balance_request \<Rightarrow> daemon \<Rightarrow> call_status \<times> err_code action list \<times> daemon" where
  "LoadBalance_Proceed status env d =
     (if status = CREATE then (PROCESS, [RequestRpc], d)
      else if status = PROCESS then
        (let (reply, d') = LoadBalance (fst env) (snd env) d
         in (FINISH, [NewCallData, FinishRpc reply], d'))
      else (status, [DeleteThis], d))"

section \<open>HeartBeat\<close>

definition HeartBeat :: "int \<Rightarrow> u64 \<Rightarrow> daemon \<Rightarrow> err_code \<times> daemon" where
  "HeartBeat now svrId d =
     (case info_of d svrId of
        None \<Rightarrow> (ERR, d)
      | Some _ \<Rightarrow> (SUCCESS, d\<lparr>gSvrId2SvrInfo :=
          om_modify svrId (\<lambda>i. i\<lparr>timestamp := now\<rparr>) (gSvrId2SvrInfo d)\<rparr>))"

definition HeartBeat_Proceed ::
  "call_status \<Rightarrow> int \<times> u64 \<Rightarrow> daemon \<Rightarrow> call_status \<times> err_code action list \<times> daemon" where
  "HeartBeat_Proceed status env d =
     (if status = CREATE then (PROCESS, [RequestRpc], d)
      else if status = PROCESS then
        (let (reply, d') = HeartBeat (fst env) (snd env) d
         in (FINISH, [NewCallData, FinishRpc reply], d'))
      else (status, [DeleteThis], d))"

section \<open>CheckProcAlive\<close>

text \<open>
  One pass of the loop. The iteration erases only the entry it is at, and nothing else
  writes \<^verbatim>\<open>gSvrId2SvrInfo\<close> meanwhile, so it visits the entries there were at the start.
\<close>

fun sweep_loop :: "int \<Rightarrow> (u64 \<times> server_info) list \<Rightarrow> daemon \<Rightarrow> daemon" where
  "sweep_loop now [] d = d"
| "sweep_loop now ((svrId, info) # rest) d =
     (if now - timestamp info > ALIVE_DURATION then
        (let d1 = d\<lparr>gSvrId2SvrInfo := om_erase svrId (gSvrId2SvrInfo d)\<rparr>;
             d2 = (if procName info = ''producer'' then
                     Rebalance (d1\<lparr>gSvrId2ProducerState := om_erase svrId (gSvrId2ProducerState d1),
                                   gSetIdleProducer := om_erase svrId (gSetIdleProducer d1)\<rparr>)
                   else d1)
         in sweep_loop now rest d2)
      else sweep_loop now rest d)"

definition reset_fail_counts :: "daemon \<Rightarrow> daemon" where
  "reset_fail_counts d = d\<lparr>gSvrId2ProducerState :=
     map (\<lambda>(k, p). (k, p\<lparr>failCount := 0\<rparr>)) (gSvrId2ProducerState d)\<rparr>"

definition CheckProcAlive_pass :: "int \<Rightarrow> daemon \<Rightarrow> daemon" where
  "CheckProcAlive_pass now d = reset_fail_counts (sweep_loop now (gSvrId2SvrInfo d) d)"

section \<open>The CallData classes of the daemon\<close>

interpretation register: call_data "ClientRegister_Proceed boost_split" for boost_split
  by unfold_locales (auto simp: ClientRegister_Proceed_def split: prod.splits)

interpretation load_balance: call_data LoadBalance_Proceed
  by unfold_locales (auto simp: LoadBalance_Proceed_def split: prod.splits)

interpretation heart_beat: call_data HeartBeat_Proceed
  by unfold_locales (auto simp: HeartBeat_Proceed_def split: prod.splits)

end
