(* ===== verification/Registry.thy ===== *)
theory Registry
  imports DaemonHandlers
begin

text \<open>
  What the registration, load-balance and heart-beat handlers and the liveness pass keep and
  compute: the well-formedness of the tables, the entries of the registry, and, for a fleet in
  which every registered server is a producer with a non-negative score, that every server
  has a producer state with a live stub.
\<close>

section \<open>Frame facts\<close>

lemma ClientRegister_reply [simp]:
  "fst (ClientRegister sp req env d) = \<lparr>reg_err = SUCCESS, reg_server_id = register_id (env_random env) d\<rparr>"
  by (simp add: ClientRegister_def Let_def)

lemma LoadBalance_frame [simp]:
  "gRank2SvrId (snd (LoadBalance junk req d)) = gRank2SvrId d"
  "gSvrId2ProducerState (snd (LoadBalance junk req d)) = gSvrId2ProducerState d"
  "gSetIdleProducer (snd (LoadBalance junk req d)) = gSetIdleProducer d"
  "sendingCount (snd (LoadBalance junk req d)) = sendingCount d"
  by (simp_all add: LoadBalance_def Let_def split: option.splits)

lemma HeartBeat_frame [simp]:
  "gRank2SvrId (snd (HeartBeat now k d)) = gRank2SvrId d"
  "gSvrId2ProducerState (snd (HeartBeat now k d)) = gSvrId2ProducerState d"
  "gSetIdleProducer (snd (HeartBeat now k d)) = gSetIdleProducer d"
  "sendingCount (snd (HeartBeat now k d)) = sendingCount d"
  by (simp_all add: HeartBeat_def split: option.splits)

lemma sweep_loop_sending [simp]: "sendingCount (sweep_loop now l d) = sendingCount d"
  by (induction now l d rule: sweep_loop.induct) (simp_all add: Let_def)

lemma ClientRegister_sending [simp]: "sendingCount (snd (ClientRegister sp req env d)) = sendingCount d"
  by (simp add: ClientRegister_def Let_def)

lemma CheckProcAlive_sending [simp]: "sendingCount (CheckProcAlive_pass now d) = sendingCount d"
  by (simp add: CheckProcAlive_pass_def reset_fail_counts_def)

section \<open>Well-formedness is kept\<close>

text \<open>Writing an entry of the registry does not touch what \<open>daemon_ok\<close> says of the others.\<close>

lemma daemon_ok_set_info:
  "daemon_ok d \<Longrightarrow> om_ok m \<Longrightarrow> daemon_ok (d\<lparr>gSvrId2SvrInfo := m\<rparr>)"
  by (simp add: daemon_ok_def tables_ok_def ranks_ok_def)

lemmas daemon_ok_tables = tables_okD [OF daemon_okD(1)]

lemma daemon_ok_modify_info: "daemon_ok d \<Longrightarrow> daemon_ok (d\<lparr>gSvrId2SvrInfo := om_modify k f (gSvrId2SvrInfo d)\<rparr>)"
  by (simp add: daemon_ok_set_info om.ok_modify daemon_ok_tables)

lemma daemon_ok_erase_info: "daemon_ok d \<Longrightarrow> daemon_ok (d\<lparr>gSvrId2SvrInfo := om_erase k (gSvrId2SvrInfo d)\<rparr>)"
  by (simp add: daemon_ok_set_info om.ok_erase daemon_ok_tables)

lemma LoadBalance_ok: "daemon_ok d \<Longrightarrow> daemon_ok (snd (LoadBalance junk req d))"
  by (simp add: LoadBalance_def Let_def daemon_ok_modify_info split: option.splits)

lemma HeartBeat_ok: "daemon_ok d \<Longrightarrow> daemon_ok (snd (HeartBeat now k d))"
  by (simp add: HeartBeat_def daemon_ok_modify_info split: option.splits)

lemma ClientRegister_ok:
  assumes "daemon_ok d"
  shows "daemon_ok (snd (ClientRegister sp req env d))"
proof -
  note ok = tables_okD [OF daemon_okD(1) [OF assms]]
  show ?thesis
  proof (cases "proc_name req = ''producer''")
    case True
    show ?thesis
      unfolding ClientRegister_def Let_def using True ok
      by (simp, intro Rebalance_ok)
        (auto simp: tables_ok_def om_insert_ok om_ok_intros om_dom_simps om_insert_dom)
  next
    case False
    with assms ok show ?thesis
      by (simp add: ClientRegister_def Let_def daemon_ok_set_info om_insert_ok)
  qed
qed

lemma tables_ok_erase_producer:
  assumes "tables_ok d" and "om_ok m"
  shows "tables_ok (d\<lparr>gSvrId2SvrInfo := m, gSvrId2ProducerState := om_erase k (gSvrId2ProducerState d),
     gSetIdleProducer := om_erase k (gSetIdleProducer d)\<rparr>)"
  using tables_okD [OF assms(1)] assms(2) by (auto simp: tables_ok_def om_ok_intros om_dom_simps)

lemma sweep_loop_ok: "daemon_ok d \<Longrightarrow> daemon_ok (sweep_loop now l d)"
proof (induction now l d rule: sweep_loop.induct)
  case (1 now d)
  then show ?case by simp
next
  case (2 now svrId info rest d)
  have "daemon_ok (Rebalance (d\<lparr>gSvrId2SvrInfo := om_erase svrId (gSvrId2SvrInfo d),
      gSvrId2ProducerState := om_erase svrId (gSvrId2ProducerState d),
      gSetIdleProducer := om_erase svrId (gSetIdleProducer d)\<rparr>))" if "daemon_ok d"
    using that by (intro Rebalance_ok tables_ok_erase_producer)
      (simp_all add: om.ok_erase daemon_ok_tables daemon_okD)
  then show ?case
    using 2 by (simp add: Let_def daemon_ok_erase_info)
qed

lemma map_of_reset: "prod_of (reset_fail_counts d) k = map_option (\<lambda>p. p\<lparr>failCount := 0\<rparr>) (prod_of d k)"
  by (simp add: reset_fail_counts_def map_of_map)

lemma map_fst_reset [simp]:
  "map fst (gSvrId2ProducerState (reset_fail_counts d)) = map fst (gSvrId2ProducerState d)"
  by (simp add: reset_fail_counts_def case_prod_unfold comp_def)

lemma reset_frame [simp]:
  "gSvrId2SvrInfo (reset_fail_counts d) = gSvrId2SvrInfo d"
  "gRank2SvrId (reset_fail_counts d) = gRank2SvrId d"
  "gSetIdleProducer (reset_fail_counts d) = gSetIdleProducer d"
  by (simp_all add: reset_fail_counts_def)

lemma dom_reset [simp]: "dom (prod_of (reset_fail_counts d)) = dom (prod_of d)"
  by (auto simp: dom_def map_of_reset)

lemma reset_ok: "daemon_ok d \<Longrightarrow> daemon_ok (reset_fail_counts d)"
  by (simp add: daemon_ok_def tables_ok_def ranks_ok_def om_ok_def)

lemma CheckProcAlive_ok: "daemon_ok d \<Longrightarrow> daemon_ok (CheckProcAlive_pass now d)"
  by (simp add: CheckProcAlive_pass_def reset_ok sweep_loop_ok)

lemmas handlers_ok = LoadBalance_ok HeartBeat_ok ClientRegister_ok CheckProcAlive_ok

section \<open>The registry as a partial function\<close>

definition late :: "int \<Rightarrow> server_info \<Rightarrow> bool" where
  "late now i \<longleftrightarrow> now - timestamp i > ALIVE_DURATION"

lemma sweep_loop_info:
  "gSvrId2SvrInfo (sweep_loop now l d) =
     filter (\<lambda>p. \<forall>q \<in> set l. fst q = fst p \<longrightarrow> \<not> late now (snd q)) (gSvrId2SvrInfo d)"
proof (induction now l d rule: sweep_loop.induct)
  case (1 now d)
  then show ?case by simp
next
  case (2 now svrId info rest d)
  then show ?case
    by (auto simp: Let_def om_erase_def late_def intro!: filter_cong)
qed

lemma sweep_info:
  assumes "om_ok (gSvrId2SvrInfo d)"
  shows "gSvrId2SvrInfo (sweep_loop now (gSvrId2SvrInfo d) d) =
     filter (\<lambda>p. \<not> late now (snd p)) (gSvrId2SvrInfo d)"
  unfolding sweep_loop_info
proof (rule filter_cong [OF refl])
  fix p assume p: "p \<in> set (gSvrId2SvrInfo d)"
  have "q = p" if "q \<in> set (gSvrId2SvrInfo d)" "fst q = fst p" for q
    using om_entry_iff [OF assms, of "fst p" "snd p"] om_entry_iff [OF assms, of "fst q" "snd q"] p that
    by (cases p; cases q) simp
  with p show "(\<forall>q \<in> set (gSvrId2SvrInfo d). fst q = fst p \<longrightarrow> \<not> late now (snd q)) = (\<not> late now (snd p))"
    by blast
qed

lemma map_of_filter_snd:
  "om_ok m \<Longrightarrow> map_of (filter (\<lambda>p. P (snd p)) m) k =
    (case map_of m k of None \<Rightarrow> None | Some v \<Rightarrow> if P v then Some v else None)"
proof (induction m)
  case Nil
  then show ?case by simp
next
  case (Cons p m)
  then have IH: "map_of (filter (\<lambda>p. P (snd p)) m) k =
      (case map_of m k of None \<Rightarrow> None | Some v \<Rightarrow> if P v then Some v else None)"
    and fresh: "map_of m (fst p) = None"
    by (auto simp: om_ok_Cons map_of_eq_None_iff)
  show ?case using fresh by (cases p) (auto simp: IH)
qed

lemma LoadBalance_info:
  "info_of (snd (LoadBalance junk req d)) = (info_of d)(lb_server_id req :=
     map_option (\<lambda>i. i\<lparr>score := (case extract_double (lb_score req) of None \<Rightarrow> junk | Some v \<Rightarrow> v)\<rparr>)
       (info_of d (lb_server_id req)))"
  by (auto simp: LoadBalance_def Let_def om.find_modify split: option.splits)

lemma HeartBeat_info:
  "info_of (snd (HeartBeat now k d)) =
     (info_of d)(k := map_option (\<lambda>i. i\<lparr>timestamp := now\<rparr>) (info_of d k))"
  by (auto simp: HeartBeat_def om.find_modify split: option.splits)

lemma CheckProcAlive_info:
  assumes "daemon_ok d"
  shows "info_of (CheckProcAlive_pass now d) k =
    (case info_of d k of None \<Rightarrow> None | Some i \<Rightarrow> if late now i then None else Some i)"
  using map_of_filter_snd [of "gSvrId2SvrInfo d" "\<lambda>i. \<not> late now i" k]
    tables_okD(1) [OF daemon_okD(1) [OF assms]]
  by (auto simp: CheckProcAlive_pass_def sweep_info split: option.splits)

section \<open>Registration\<close>

definition registered_info ::
  "(string \<Rightarrow> string list) \<Rightarrow> register_request \<Rightarrow> register_env \<Rightarrow> server_info" where
  "registered_info sp req env =
     \<lparr>address = parseAndGetIp sp (env_peer env) @ '':'' @ listening_port req,
      procName = proc_name req, groupId = group_id req, timestamp = env_now env,
      score = (if proc_name req = ''producer'' then 10 else 0)\<rparr>"

lemma ClientRegister_info:
  assumes "om_ok (gSvrId2SvrInfo d)" and "register_id (env_random env) d \<notin> dom (info_of d)"
  shows "info_of (snd (ClientRegister sp req env d)) =
    (info_of d)(register_id (env_random env) d \<mapsto> registered_info sp req env)"
  using assms
  by (auto simp: ClientRegister_def Let_def om.find_modify om_insert_find ServerInfo_def
      registered_info_def score_zero fun_eq_iff domIff)

lemma ClientRegister_prod:
  assumes "daemon_ok d" and "proc_name req = ''producer''"
  shows "prod_of (snd (ClientRegister sp req env d)) (register_id (env_random env) d) =
      Some (ProducerState (Some (parseAndGetIp sp (env_peer env) @ '':'' @ listening_port req)) 0)"
    and "idle (snd (ClientRegister sp req env d)) = insert (register_id (env_random env) d) (idle d)"
  using assms daemon_ok_tables [OF assms(1)]
  by (simp_all add: ClientRegister_def Let_def Rebalance_prod om.ok_assign om.find_assign om_insert_dom)

lemma register_id_greatest:
  assumes "om_ok (gSvrId2SvrInfo d)" and "- 1 \<notin> dom (info_of d)" and "k \<in> dom (info_of d)"
  shows "k < register_id rnd d"
proof -
  from assms(3) have "gSvrId2SvrInfo d \<noteq> []" by auto
  then obtain m v where r: "om_rbegin (gSvrId2SvrInfo d) = Some (m, v)"
    by (metis om_rbegin_None option.exhaust surj_pair)
  from om_rbegin_greatest [OF assms(1) r]
  have in_m: "(m, v) \<in> set (gSvrId2SvrInfo d)" and top: "\<forall>q \<in> set (gSvrId2SvrInfo d). fst q \<le> m"
    by auto
  have "k \<le> m" using assms(3) top by (auto simp: om_dom)
  moreover have "m \<in> dom (info_of d)" using in_m om_entry_iff [OF assms(1), of m v] by auto
  then have "m \<noteq> - 1" using assms(2) by auto
  ultimately show ?thesis
    using u64_less_succ [of m] r by (auto simp: register_id_def intro: le_less_trans)
qed

lemma register_id_fresh:
  assumes "om_ok (gSvrId2SvrInfo d)" and "- 1 \<notin> dom (info_of d)"
  shows "register_id rnd d \<notin> dom (info_of d)"
  using register_id_greatest [OF assms] by blast

section \<open>A fleet of producers\<close>

text \<open>
  Every registered server is a producer with a non-negative score, has a producer state, and
  nobody else has one; every stub is live. With ranks built from such a registry, the ranks
  are non-negative and there are some as soon as there is a server.
\<close>

definition fleet_ok :: "daemon \<Rightarrow> bool" where
  "fleet_ok d \<longleftrightarrow> tables_ok d \<and> dom (prod_of d) = dom (info_of d) \<and>
     (\<forall>k i. info_of d k = Some i \<longrightarrow> procName i = ''producer'' \<and> 0 \<le> score i) \<and>
     (\<forall>k p. prod_of d k = Some p \<longrightarrow> producerCaller p \<noteq> None)"

definition fleet_ranked :: "daemon \<Rightarrow> bool" where
  "fleet_ranked d \<longleftrightarrow> fleet_ok d \<and> ranks_ok d \<and> (\<forall>p \<in> set (gRank2SvrId d). 0 \<le> fst p) \<and>
     (gRank2SvrId d = [] \<longleftrightarrow> gSvrId2SvrInfo d = [])"

lemma fleet_rankedD:
  "fleet_ranked d \<Longrightarrow> fleet_ok d" "fleet_ranked d \<Longrightarrow> ranks_ok d" "fleet_ranked d \<Longrightarrow> daemon_ok d"
  by (simp_all add: fleet_ranked_def fleet_ok_def daemon_ok_def)

lemma fleet_okD:
  assumes "fleet_ok d"
  shows "tables_ok d" "dom (prod_of d) = dom (info_of d)"
    "info_of d k = Some i \<Longrightarrow> procName i = ''producer'' \<and> 0 \<le> score i"
    "prod_of d k = Some p \<Longrightarrow> producerCaller p \<noteq> None"
  using assms unfolding fleet_ok_def by blast+

lemma fleet_ranked_init: "fleet_ranked daemon_init"
  by (simp add: fleet_ranked_def fleet_ok_def tables_ok_def ranks_ok_def daemon_init_def)

lemma prefix_ranks_nonneg:
  "0 \<le> r \<Longrightarrow> \<forall>p \<in> set l. 0 \<le> score (snd p) \<Longrightarrow> \<forall>p \<in> set (prefix_ranks r l). 0 \<le> fst p"
proof (induction r l rule: prefix_ranks.induct)
  case (1 r)
  then show ?case by simp
next
  case (2 r i info rest)
  then have "0 \<le> dadd r (score info)" by (simp add: dadd_def b64.fl_nonneg)
  with 2 show ?case by (simp add: Let_def)
qed

lemma assign_all_simps:
  "assign_all [] m = m" "assign_all ((k, v) # ps) m = assign_all ps (om_assign k v m)"
  by (simp_all add: assign_all_def)

lemma om_assign_nonempty [simp]: "om_assign k v m \<noteq> []"
  by (simp add: om_assign_def)

lemma assign_all_Nil: "assign_all ps m = [] \<longleftrightarrow> ps = [] \<and> m = []"
proof (induction ps arbitrary: m)
  case Nil
  then show ?case by (simp add: assign_all_simps)
next
  case (Cons p ps)
  then show ?case by (cases p) (simp add: assign_all_simps)
qed

lemma prefix_ranks_Nil [simp]: "prefix_ranks r l = [] \<longleftrightarrow> l = []"
  by (cases l) (auto simp: Let_def)

lemma Rebalance_fleet:
  assumes "fleet_ok d"
  shows "fleet_ranked (Rebalance d)"
proof -
  note f = fleet_okD [OF assms]
  note ok = tables_okD [OF f(1)]
  have sc: "\<forall>p \<in> set (gSvrId2SvrInfo d). 0 \<le> score (snd p)"
    using f(3) om_entry_iff [OF ok(1)] by force
  have "\<forall>p \<in> set (gRank2SvrId (Rebalance d)). 0 \<le> fst p"
    using assign_all_subset [of "[]" "prefix_ranks 0 (gSvrId2SvrInfo d)"]
      prefix_ranks_nonneg [OF order_refl sc] by (auto simp: Rebalance_eq)
  moreover have "gRank2SvrId (Rebalance d) = [] \<longleftrightarrow> gSvrId2SvrInfo d = []"
    by (simp add: Rebalance_eq assign_all_Nil)
  moreover have "prod_of (Rebalance d) = prod_of d"
  proof
    fix k
    show "prod_of (Rebalance d) k = prod_of d k"
      by (cases "prod_of d k") (simp_all add: Rebalance_prod [OF ok(2)] f(2) [symmetric] domIff)
  qed
  then have "fleet_ok (Rebalance d)"
    using assms Rebalance_ok [OF f(1)] by (simp add: fleet_ok_def daemon_ok_def)
  ultimately show ?thesis
    using Rebalance_ok [OF f(1)] by (simp add: fleet_ranked_def daemon_ok_def)
qed

lemma fleet_ranked_modify_info:
  assumes "fleet_ranked d"
    and "\<And>i. info_of d k = Some i \<Longrightarrow> procName (f i) = procName i \<and> 0 \<le> score (f i)"
  shows "fleet_ranked (d\<lparr>gSvrId2SvrInfo := om_modify k f (gSvrId2SvrInfo d)\<rparr>)"
proof -
  have "om_modify k f (gSvrId2SvrInfo d) = [] \<longleftrightarrow> gSvrId2SvrInfo d = []"
    by (simp add: om_modify_def)
  then show ?thesis
    using assms fleet_okD [OF fleet_rankedD(1) [OF assms(1)]]
    by (auto simp: fleet_ranked_def fleet_ok_def tables_ok_def ranks_ok_def om.ok_modify
        om.dom_modify om.find_modify split: if_splits)
qed

lemma HeartBeat_fleet: "fleet_ranked d \<Longrightarrow> fleet_ranked (snd (HeartBeat now k d))"
  by (auto simp: HeartBeat_def intro!: fleet_ranked_modify_info
      dest: fleet_okD(3) [OF fleet_rankedD(1)] split: option.splits)

lemma LoadBalance_fleet:
  assumes "fleet_ranked d" and "0 \<le> (case extract_double (lb_score req) of None \<Rightarrow> junk | Some v \<Rightarrow> v)"
  shows "fleet_ranked (snd (LoadBalance junk req d))"
  using assms
  by (auto simp: LoadBalance_def Let_def intro!: fleet_ranked_modify_info
      dest: fleet_okD(3) [OF fleet_rankedD(1)] split: option.splits)

text \<open>A producer leaves: its entries go from the registry, the producer states and the idle set.\<close>

definition drop_producer :: "u64 \<Rightarrow> daemon \<Rightarrow> daemon" where
  "drop_producer k d = d\<lparr>gSvrId2SvrInfo := om_erase k (gSvrId2SvrInfo d),
     gSvrId2ProducerState := om_erase k (gSvrId2ProducerState d),
     gSetIdleProducer := om_erase k (gSetIdleProducer d)\<rparr>"

lemma drop_producer_tables: "tables_ok d \<Longrightarrow> tables_ok (drop_producer k d)"
  unfolding drop_producer_def by (simp add: tables_ok_erase_producer om.ok_erase tables_okD)

lemma drop_producer_fleet: "fleet_ok d \<Longrightarrow> fleet_ok (drop_producer k d)"
  using drop_producer_tables [of d k]
  by (auto simp: fleet_ok_def drop_producer_def om.dom_erase om.find_erase)

lemma sweep_loop_Cons:
  "sweep_loop now ((k, i) # rest) d =
     (if late now i then
        (if procName i = ''producer'' then sweep_loop now rest (Rebalance (drop_producer k d))
         else sweep_loop now rest (d\<lparr>gSvrId2SvrInfo := om_erase k (gSvrId2SvrInfo d)\<rparr>))
      else sweep_loop now rest d)"
  by (simp add: late_def drop_producer_def Let_def)

lemma sweep_loop_fleet:
  "fleet_ranked d \<Longrightarrow> \<forall>p \<in> set l. procName (snd p) = ''producer'' \<Longrightarrow> fleet_ranked (sweep_loop now l d)"
proof (induction l arbitrary: d)
  case Nil
  then show ?case by simp
next
  case (Cons p l)
  have "fleet_ranked (Rebalance (drop_producer (fst p) d))"
    using Cons.prems by (intro Rebalance_fleet drop_producer_fleet fleet_rankedD)
  then show ?case
    using Cons by (cases p) (simp add: sweep_loop_Cons del: sweep_loop.simps)
qed

lemma reset_fleet: "fleet_ranked d \<Longrightarrow> fleet_ranked (reset_fail_counts d)"
  using reset_ok [of d]
  by (auto simp: fleet_ranked_def fleet_ok_def daemon_ok_def map_of_reset)

lemma fleet_all_producers: "fleet_ok d \<Longrightarrow> p \<in> set (gSvrId2SvrInfo d) \<Longrightarrow> procName (snd p) = ''producer''"
  using fleet_okD(3) om_entry_iff [OF tables_okD(1) [OF fleet_okD(1)]] by (metis prod.collapse)

lemma CheckProcAlive_fleet: "fleet_ranked d \<Longrightarrow> fleet_ranked (CheckProcAlive_pass now d)"
  unfolding CheckProcAlive_pass_def
  by (intro reset_fleet sweep_loop_fleet) (auto dest: fleet_all_producers [OF fleet_rankedD(1)])

lemma ClientRegister_fleet:
  assumes "fleet_ranked d" and p: "proc_name req = ''producer''"
  shows "fleet_ranked (snd (ClientRegister sp req env d))"
proof -
  note f = fleet_rankedD(1) [OF assms(1)]
  note fo = fleet_okD [OF f] and ok = tables_okD [OF fleet_okD(1) [OF f]]
  show ?thesis
    unfolding ClientRegister_def Let_def using p
    by (simp, intro Rebalance_fleet)
      (use fo ok in \<open>auto simp: fleet_ok_def tables_ok_def om_insert_ok om_ok_intros om_dom_simps
        om_insert_dom om_insert_find om.find_modify om.find_assign ServerInfo_def ProducerState_def
        score_zero split: option.splits if_splits\<close>)
qed

lemmas handlers_fleet = HeartBeat_fleet LoadBalance_fleet CheckProcAlive_fleet ClientRegister_fleet

section \<open>The weighted choice\<close>

text \<open>
  Where the running sums increase strictly, \<^verbatim>\<open>Rebalance\<close> stores exactly the running sums, one
  entry for each server, in registry order.
\<close>

lemma om_assign_append: "\<forall>p \<in> set m. fst p < k \<Longrightarrow> om_assign k v m = m @ [(k, v)]"
  by (simp add: om_assign_def takeWhile_eq_all_conv [THEN iffD2] dropWhile_eq_Nil_conv [THEN iffD2]
      less_imp_le)

lemma assign_all_increasing:
  "sorted_wrt (<) (map fst (m @ ps)) \<Longrightarrow> assign_all ps m = m @ ps"
proof (induction ps arbitrary: m)
  case Nil
  then show ?case by (simp add: assign_all_simps)
next
  case (Cons p ps)
  have "om_assign (fst p) (snd p) m = m @ [p]"
    using Cons.prems by (subst om_assign_append) (auto simp: sorted_wrt_append)
  moreover have "assign_all ps (m @ [p]) = (m @ [p]) @ ps"
    using Cons.prems by (intro Cons.IH) simp
  ultimately show ?case by (cases p) (simp add: assign_all_simps)
qed

lemma Rebalance_increasing:
  "sorted_wrt (<) (map fst (prefix_ranks 0 (gSvrId2SvrInfo d))) \<Longrightarrow>
    gRank2SvrId (Rebalance d) = prefix_ranks 0 (gSvrId2SvrInfo d)"
  by (simp add: Rebalance_eq assign_all_increasing)

end
