(* ===== verification/Messages.thy ===== *)
theory Messages
  imports Prelude
begin

text \<open>
  The messages that more than one process handles: the request of the daemon to a producer
  (\<^verbatim>\<open>producer/grpc/producer.proto\<close>). What the code does with their wire format is a parameter
  where it is used.
\<close>

record produce_request =
  msg_id :: u32
  start_uid :: u64
  end_uid :: u64

end
