(* ===== verification/Dispatch.thy ===== *)
theory Dispatch
  imports Registry Messages
begin

text \<open>
  How the daemon hands out work: one iteration of the loop of
  \<^verbatim>\<open>ServerImpl::SelectProducerAndSend\<close>, the caller object that sends a request to a producer,
  and the critical sections of the callbacks that handle a producer's answer or its failure.
\<close>

section \<open>Requests and calls\<close>

text \<open>A \<^verbatim>\<open>ProduceMsgAsyncCall\<close>: the producer it went to and a copy of the request.\<close>

record async_call =
  call_svrId :: u64
  call_request :: produce_request

text \<open>\<^verbatim>\<open>ProducerCaller::ProduceMsg\<close>: calls through \<^verbatim>\<open>stub_\<close>, which must not be null.\<close>

definition ProduceMsg_call :: "string option \<Rightarrow> u64 \<Rightarrow> produce_request \<Rightarrow> async_call ub_or" where
  "ProduceMsg_call stub svrId req =
     (case stub of None \<Rightarrow> Inl NullDeref | Some _ \<Rightarrow> Inr \<lparr>call_svrId = svrId, call_request = req\<rparr>)"

section \<open>One iteration of SelectProducerAndSend\<close>

definition chunk_end :: "u64 \<Rightarrow> u64 \<Rightarrow> u64" where
  "chunk_end curUid endUid =
     (if curUid + UID_COUNT_PER_TIME - 1 > endUid then endUid else curUid + UID_COUNT_PER_TIME - 1)"

definition chunk :: "produce_request \<Rightarrow> u64 \<Rightarrow> produce_request" where
  "chunk request curUid = \<lparr>msg_id = msg_id request, start_uid = curUid,
     end_uid = chunk_end curUid (end_uid request)\<rparr>"

definition producerSize :: "daemon \<Rightarrow> u32" where
  "producerSize d = word_of_nat (length (gSvrId2ProducerState d))"

text \<open>\<^verbatim>\<open>dist(rng) / (double)factor * gRank2SvrId.rbegin()->first\<close>, the draw is between 0 and 10000.\<close>

definition random_rank :: "u32 \<Rightarrow> double \<Rightarrow> double" where
  "random_rank draw maxRank = dmul (ddiv (of_nat (unat draw)) 10000) maxRank"

text \<open>The common end of both branches: \<^verbatim>\<open>gSvrId2ProducerState[svrId]\<close>, count, send.\<close>

definition send_to :: "u64 \<Rightarrow> produce_request \<Rightarrow> daemon \<Rightarrow> (async_call \<times> daemon) ub_or" where
  "send_to svrId req d =
     (let m = om_modify svrId (\<lambda>p. p\<lparr>curTaskCount := curTaskCount p + 1\<rparr>)
                (om_index svrId default_producer_state (gSvrId2ProducerState d))
      in case map_of m svrId of
           None \<Rightarrow> Inl EndDeref
         | Some p \<Rightarrow> (case ProduceMsg_call (producerCaller p) svrId req of
             Inl e \<Rightarrow> Inl e
           | Inr call \<Rightarrow> Inr (call, d\<lparr>gSvrId2ProducerState := m\<rparr>)))"

text \<open>
  The body of the loop for a \<open>curUid\<close> that passed the loop condition: a chunk goes to the
  first idle producer, else to one drawn by rank while not too many requests are unanswered,
  else (\<open>None\<close>) the thread sleeps and tries again.
\<close>

definition select_step ::
  "u32 \<Rightarrow> produce_request \<Rightarrow> u64 \<Rightarrow> daemon \<Rightarrow> (async_call option \<times> daemon) ub_or" where
  "select_step draw request curUid d =
     (let req = chunk request curUid in
      case om_begin (gSetIdleProducer d) of
        Some (svrId, _) \<Rightarrow>
          (case send_to svrId req (d\<lparr>gSetIdleProducer := om_erase svrId (gSetIdleProducer d),
                  sendingCount := sendingCount d + 1\<rparr>) of
             Inl e \<Rightarrow> Inl e
           | Inr (call, d') \<Rightarrow> Inr (Some call, d'))
      | None \<Rightarrow>
          if sendingCount d \<le> 3 * producerSize d \<and> producerSize d \<noteq> 0 then
            (case om_rbegin (gRank2SvrId d) of
               None \<Rightarrow> Inl EmptyDeref
             | Some (maxRank, _) \<Rightarrow>
                 (case om_lower_bound (random_rank draw maxRank) (gRank2SvrId d) of
                    None \<Rightarrow> Inl EndDeref
                  | Some (_, svrId) \<Rightarrow>
                      (case send_to svrId req (d\<lparr>sendingCount := sendingCount d + 1\<rparr>) of
                         Inl e \<Rightarrow> Inl e
                       | Inr (call, d') \<Rightarrow> Inr (Some call, d'))))
          else Inr (None, d))"

section \<open>The callbacks\<close>

text \<open>\<^verbatim>\<open>DecreaseProducerTask\<close>; \<^verbatim>\<open>0 >= curTask\<close> on an unsigned number is equality with 0.\<close>

definition DecreaseProducerTask :: "u64 \<Rightarrow> daemon \<Rightarrow> daemon" where
  "DecreaseProducerTask svrId d =
     (let d1 = d\<lparr>sendingCount := sendingCount d - 1\<rparr> in
      case prod_of d1 svrId of
        None \<Rightarrow> d1
      | Some p \<Rightarrow>
          let curTask = curTaskCount p - 1;
              d2 = d1\<lparr>gSvrId2ProducerState := om_modify svrId (\<lambda>p. p\<lparr>curTaskCount := curTask\<rparr>)
                       (gSvrId2ProducerState d1)\<rparr>
          in if 0 \<ge> curTask
             then d2\<lparr>gSetIdleProducer := fst (om_insert svrId () (gSetIdleProducer d2))\<rparr> else d2)"

text \<open>The first critical section of \<^verbatim>\<open>ProduceMsgAsyncCall::OnResponseFail\<close>, the circuit breaker.\<close>

definition circuit_breaker :: "u64 \<Rightarrow> daemon \<Rightarrow> daemon" where
  "circuit_breaker svrId d =
     (case prod_of d svrId of
        None \<Rightarrow> d
      | Some p \<Rightarrow>
          let d1 = d\<lparr>gSvrId2ProducerState := om_modify svrId (\<lambda>p. p\<lparr>failCount := failCount p + 1\<rparr>)
                       (gSvrId2ProducerState d)\<rparr>
          in if failCount p + 1 > FAIL_COUNT_LIMIT then
               (let d2 = d1\<lparr>gSetIdleProducer := om_erase svrId (gSetIdleProducer d1)\<rparr>;
                    d3 = d2\<lparr>gSvrId2ProducerState := om_erase svrId (gSvrId2ProducerState d2)\<rparr>;
                    d4 = d3\<lparr>gSvrId2SvrInfo := om_erase svrId (gSvrId2SvrInfo d3)\<rparr>
                in Rebalance d4)
             else d1)"

section \<open>Sending\<close>

lemma send_to_defined:
  assumes "om_ok (gSvrId2ProducerState d)" and "prod_of d k = Some p" and "producerCaller p \<noteq> None"
  shows "send_to k req d = Inr (\<lparr>call_svrId = k, call_request = req\<rparr>,
     d\<lparr>gSvrId2ProducerState := om_modify k (\<lambda>p. p\<lparr>curTaskCount := curTaskCount p + 1\<rparr>) (gSvrId2ProducerState d)\<rparr>)"
  using assms by (auto simp: send_to_def om_index_def om.find_modify ProduceMsg_call_def)

lemma send_to_null:
  assumes "om_ok (gSvrId2ProducerState d)" and "prod_of d k = Some p" and "producerCaller p = None"
  shows "send_to k req d = Inl NullDeref"
  using assms by (auto simp: send_to_def om_index_def om.find_modify ProduceMsg_call_def)

text \<open>A call that was made went to the chosen server, with the request, through a live stub.\<close>

lemma send_toD:
  assumes "om_ok (gSvrId2ProducerState d)" and "k \<in> dom (prod_of d)" and "send_to k req d = Inr (call, d')"
  shows "\<exists>p. prod_of d k = Some p \<and> producerCaller p \<noteq> None \<and> call = \<lparr>call_svrId = k, call_request = req\<rparr> \<and>
     d' = d\<lparr>gSvrId2ProducerState := om_modify k (\<lambda>p. p\<lparr>curTaskCount := curTaskCount p + 1\<rparr>) (gSvrId2ProducerState d)\<rparr>"
proof -
  from assms(2) obtain p where p: "prod_of d k = Some p" by auto
  then show ?thesis
    using assms send_to_null [OF assms(1) p] send_to_defined [OF assms(1) p] by (cases "producerCaller p") auto
qed

section \<open>The three outcomes of an iteration\<close>

text \<open>
  Inversion of \<open>select_step\<close> on well-formed tables: who got the chunk, and what changed.
\<close>

lemma select_step_cases:
  assumes ok: "daemon_ok d" and step: "select_step draw req cur d = Inr (res, d')"
  obtains (idle) k p where "om_begin (gSetIdleProducer d) = Some (k, ())" "prod_of d k = Some p"
      "producerCaller p \<noteq> None" "res = Some \<lparr>call_svrId = k, call_request = chunk req cur\<rparr>"
      "d' = d\<lparr>gSetIdleProducer := om_erase k (gSetIdleProducer d), sendingCount := sendingCount d + 1,
         gSvrId2ProducerState := om_modify k (\<lambda>p. p\<lparr>curTaskCount := curTaskCount p + 1\<rparr>) (gSvrId2ProducerState d)\<rparr>"
    | (ranked) k p maxRank i r where "gSetIdleProducer d = []" "sendingCount d \<le> 3 * producerSize d"
      "om_rbegin (gRank2SvrId d) = Some (maxRank, i)"
      "om_lower_bound (random_rank draw maxRank) (gRank2SvrId d) = Some (r, k)" "prod_of d k = Some p"
      "producerCaller p \<noteq> None" "res = Some \<lparr>call_svrId = k, call_request = chunk req cur\<rparr>"
      "d' = d\<lparr>sendingCount := sendingCount d + 1,
         gSvrId2ProducerState := om_modify k (\<lambda>p. p\<lparr>curTaskCount := curTaskCount p + 1\<rparr>) (gSvrId2ProducerState d)\<rparr>"
    | (wait) "gSetIdleProducer d = []" "res = None" "d' = d"
proof (cases "om_begin (gSetIdleProducer d)")
  case None
  then have e: "gSetIdleProducer d = []" by simp
  note tok = daemon_ok_tables [OF ok]
  show ?thesis
  proof (cases "sendingCount d \<le> 3 * producerSize d \<and> producerSize d \<noteq> 0")
    case False
    with None step e show ?thesis by (intro wait) (auto simp: select_step_def Let_def)
  next
    case True
    with None step obtain maxRank i r k call where
      r: "om_rbegin (gRank2SvrId d) = Some (maxRank, i)"
        "om_lower_bound (random_rank draw maxRank) (gRank2SvrId d) = Some (r, k)" and
      s: "send_to k (chunk req cur) (d\<lparr>sendingCount := sendingCount d + 1\<rparr>) = Inr (call, d')" "res = Some call"
      by (auto simp: select_step_def Let_def split: option.splits sum.splits prod.splits)
    have "(r, k) \<in> set (gRank2SvrId d)"
      using om_lower_bound_Some [OF _ r(2)] daemon_okD(2) [OF ok] by (simp add: ranks_ok_def)
    then have "k \<in> dom (prod_of d)"
      using daemon_okD(2) [OF ok] by (force simp: ranks_ok_def)
    then show ?thesis
      using send_toD [OF _ _ s(1)] tok(2) True e r s(2) by (auto intro: ranked)
  qed
next
  case (Some q)
  obtain k where q: "q = (k, ())" by (cases q) auto
  from Some step q obtain call where
    s: "send_to k (chunk req cur) (d\<lparr>gSetIdleProducer := om_erase k (gSetIdleProducer d),
        sendingCount := sendingCount d + 1\<rparr>) = Inr (call, d')" "res = Some call"
    by (auto simp: select_step_def Let_def split: sum.splits prod.splits)
  note tok = daemon_ok_tables [OF ok]
  have "k \<in> idle d"
    using om_begin_least [OF tok(3) Some] q om_entry_iff [OF tok(3), of k "()"] by auto
  then have "k \<in> dom (prod_of d)" using tok(4) by blast
  then show ?thesis
    using send_toD [OF _ _ s(1)] tok(2) Some q s(2) by (auto intro: idle)
qed

section \<open>Writing a producer state in place\<close>

lemma daemon_ok_modify_prod:
  "daemon_ok d \<Longrightarrow> daemon_ok (d\<lparr>gSvrId2ProducerState := om_modify k f (gSvrId2ProducerState d)\<rparr>)"
  by (simp add: daemon_ok_def tables_ok_def ranks_ok_def om.ok_modify om.dom_modify)

lemma fleet_ranked_modify_prod:
  assumes "fleet_ranked d" and "\<And>p. producerCaller (f p) = producerCaller p"
  shows "fleet_ranked (d\<lparr>gSvrId2ProducerState := om_modify k f (gSvrId2ProducerState d)\<rparr>)"
proof -
  let ?m = "om_modify k f (gSvrId2ProducerState d)"
  have old: "producerCaller p \<noteq> None" if "prod_of d k' = Some p" for k' p
    using fleet_okD(4) [OF fleet_rankedD(1) [OF assms(1)] that] .
  have "producerCaller q \<noteq> None" if "map_of ?m k' = Some q" for k' q
    using that old assms(2) by (auto simp: om.find_modify split: if_splits)
  then have "\<forall>k' q. map_of ?m k' = Some q \<longrightarrow> producerCaller q \<noteq> None" by blast
  then show ?thesis
    using assms(1) unfolding fleet_ranked_def fleet_ok_def tables_ok_def ranks_ok_def
    by (elim conjE, intro conjI; simp add: om.ok_modify om.dom_modify)
qed

text \<open>Changes of the idle set that stay inside the producers keep everything; so do counts.\<close>

lemma daemon_ok_set_idle:
  "daemon_ok d \<Longrightarrow> om_ok s \<Longrightarrow> dom (map_of s) \<subseteq> dom (prod_of d) \<Longrightarrow> daemon_ok (d\<lparr>gSetIdleProducer := s\<rparr>)"
  by (simp add: daemon_ok_def tables_ok_def ranks_ok_def)

lemma fleet_ranked_set_idle:
  "fleet_ranked d \<Longrightarrow> om_ok s \<Longrightarrow> dom (map_of s) \<subseteq> dom (prod_of d) \<Longrightarrow> fleet_ranked (d\<lparr>gSetIdleProducer := s\<rparr>)"
  unfolding fleet_ranked_def fleet_ok_def tables_ok_def ranks_ok_def
  by (elim conjE, intro conjI; simp)

lemma daemon_ok_sending [simp]: "daemon_ok (d\<lparr>sendingCount := n\<rparr>) = daemon_ok d"
  by (simp add: daemon_ok_def tables_ok_def ranks_ok_def)

lemma fleet_ranked_sending [simp]: "fleet_ranked (d\<lparr>sendingCount := n\<rparr>) = fleet_ranked d"
  by (simp add: fleet_ranked_def fleet_ok_def tables_ok_def ranks_ok_def)

lemma idle_erase_subset: "tables_ok d \<Longrightarrow> dom (map_of (om_erase k (gSetIdleProducer d))) \<subseteq> dom (prod_of d)"
  using tables_okD(4) by (auto simp: om.dom_erase)

section \<open>The callbacks, equationally\<close>

lemma om_erase_modify [simp]: "om_erase k (om_modify k f m) = om_erase k m"
  by (induction m) (auto simp: om_erase_def om_modify_def)

lemma circuit_breaker_eq:
  "circuit_breaker k d =
     (case prod_of d k of
        None \<Rightarrow> d
      | Some p \<Rightarrow> if failCount p + 1 > FAIL_COUNT_LIMIT then Rebalance (drop_producer k d)
                  else d\<lparr>gSvrId2ProducerState := om_modify k (\<lambda>p. p\<lparr>failCount := failCount p + 1\<rparr>)
                         (gSvrId2ProducerState d)\<rparr>)"
proof -
  have "drop_producer k d = d\<lparr>gSetIdleProducer := om_erase k (gSetIdleProducer d),
      gSvrId2ProducerState := om_erase k (gSvrId2ProducerState d),
      gSvrId2SvrInfo := om_erase k (gSvrId2SvrInfo d)\<rparr>"
    by (rule daemon.equality) (simp_all add: drop_producer_def)
  then show ?thesis by (simp add: circuit_breaker_def Let_def split: option.splits)
qed

lemma DecreaseProducerTask_eq:
  "DecreaseProducerTask k d =
     (case prod_of d k of
        None \<Rightarrow> d\<lparr>sendingCount := sendingCount d - 1\<rparr>
      | Some p \<Rightarrow> d\<lparr>sendingCount := sendingCount d - 1,
          gSvrId2ProducerState := om_modify k (\<lambda>q. q\<lparr>curTaskCount := curTaskCount p - 1\<rparr>) (gSvrId2ProducerState d),
          gSetIdleProducer := (if curTaskCount p = 1 then fst (om_insert k () (gSetIdleProducer d))
                               else gSetIdleProducer d)\<rparr>)"
  by (auto simp: DecreaseProducerTask_def Let_def word_le_nat_alt unat_eq_zero split: option.splits)

section \<open>The sections of the dispatch keep the tables well-formed\<close>

lemma select_step_ok:
  assumes "daemon_ok d" and "select_step draw req cur d = Inr (res, d')"
  shows "daemon_ok d'"
  using assms
proof (cases rule: select_step_cases)
  case (idle k p)
  have "daemon_ok (d\<lparr>gSetIdleProducer := om_erase k (gSetIdleProducer d)\<rparr>)"
    using assms(1) by (intro daemon_ok_set_idle idle_erase_subset om.ok_erase daemon_okD daemon_ok_tables)
  then have "daemon_ok (d\<lparr>gSetIdleProducer := om_erase k (gSetIdleProducer d), sendingCount := sendingCount d + 1\<rparr>)"
    by simp
  from daemon_ok_modify_prod [OF this] show ?thesis using idle(5) by simp
next
  case (ranked k p maxRank i r)
  from assms(1) have "daemon_ok (d\<lparr>sendingCount := sendingCount d + 1\<rparr>)" by simp
  from daemon_ok_modify_prod [OF this] show ?thesis using ranked(8) by simp
next
  case wait
  with assms show ?thesis by simp
qed

lemma DecreaseProducerTask_ok: "daemon_ok d \<Longrightarrow> daemon_ok (DecreaseProducerTask k d)"
  by (auto simp: DecreaseProducerTask_eq daemon_ok_def tables_ok_def ranks_ok_def om.ok_modify
      om.dom_modify om_insert_ok om_insert_dom split: option.splits)

lemma circuit_breaker_ok: "daemon_ok d \<Longrightarrow> daemon_ok (circuit_breaker k d)"
  by (auto simp: circuit_breaker_eq daemon_okD intro!: Rebalance_ok drop_producer_tables
      daemon_ok_modify_prod split: option.splits)

lemma DecreaseProducerTask_fleet:
  assumes "fleet_ranked d"
  shows "fleet_ranked (DecreaseProducerTask k d)"
proof (cases "prod_of d k")
  case None
  with assms show ?thesis by (simp add: DecreaseProducerTask_eq)
next
  case (Some p)
  let ?d1 = "d\<lparr>sendingCount := sendingCount d - 1\<rparr>"
  let ?s = "if curTaskCount p = 1 then fst (om_insert k () (gSetIdleProducer d)) else gSetIdleProducer d"
  have f: "fleet_ranked (?d1\<lparr>gSvrId2ProducerState :=
      om_modify k (\<lambda>q. q\<lparr>curTaskCount := curTaskCount p - 1\<rparr>) (gSvrId2ProducerState ?d1)\<rparr>)"
    using assms by (intro fleet_ranked_modify_prod) simp_all
  note tok = daemon_ok_tables [OF fleet_rankedD(3) [OF assms]]
  have "om_ok ?s" "dom (map_of ?s) \<subseteq> dom (prod_of d)"
    using tok Some by (auto simp: om_insert_ok om_insert_dom)
  then show ?thesis
    using fleet_ranked_set_idle [OF f, of ?s] Some
    by (simp add: DecreaseProducerTask_eq om.dom_modify)
qed

lemma circuit_breaker_fleet: "fleet_ranked d \<Longrightarrow> fleet_ranked (circuit_breaker k d)"
  by (auto simp: circuit_breaker_eq fleet_rankedD intro!: Rebalance_fleet drop_producer_fleet
      fleet_ranked_modify_prod split: option.splits)

lemma select_step_fleet:
  assumes f: "fleet_ranked d" and s: "select_step draw req cur d = Inr (res, d')"
  shows "fleet_ranked d'"
  using fleet_rankedD(3) [OF f] s
proof (cases rule: select_step_cases)
  case (idle k p)
  note ok = fleet_rankedD(3) [OF f]
  have "fleet_ranked (d\<lparr>gSetIdleProducer := om_erase k (gSetIdleProducer d)\<rparr>)"
    using f ok by (intro fleet_ranked_set_idle idle_erase_subset om.ok_erase daemon_okD daemon_ok_tables)
  then have "fleet_ranked (d\<lparr>gSetIdleProducer := om_erase k (gSetIdleProducer d), sendingCount := sendingCount d + 1\<rparr>)"
    by simp
  from fleet_ranked_modify_prod [OF this] show ?thesis using idle(5) by simp
next
  case (ranked k p maxRank i r)
  from f have "fleet_ranked (d\<lparr>sendingCount := sendingCount d + 1\<rparr>)" by simp
  from fleet_ranked_modify_prod [OF this] show ?thesis using ranked(8) by simp
next
  case wait
  with f show ?thesis by simp
qed

section \<open>A draw always finds a server\<close>

lemma random_rank_le:
  assumes "fl64 m = m" and "0 \<le> m" and "unat draw \<le> 10000"
  shows "random_rank draw m \<le> m"
proof -
  define q :: rat where "q = of_nat (unat draw) / 10000"
  have "(of_nat (unat draw) :: rat) \<le> of_nat 10000" using assms(3) by (rule of_nat_mono)
  then have "q \<le> 1" by (simp add: q_def del: of_nat_unat)
  moreover have "0 \<le> q"
    unfolding q_def by (rule divide_nonneg_nonneg) (rule of_nat_0_le_iff, simp)
  ultimately have "fl64 (fl64 q * m) \<le> m" by (intro b64.fl_scaled_le assms(1,2))
  then show ?thesis by (simp only: random_rank_def dmul_def ddiv_def q_def)
qed

lemma fleet_send_defined:
  assumes "fleet_ranked d" and "k \<in> dom (prod_of d)" and "gSvrId2ProducerState d' = gSvrId2ProducerState d"
  shows "defined (send_to k req d')"
proof -
  from assms(2) obtain p where p: "prod_of d k = Some p" by auto
  have "producerCaller p \<noteq> None" using fleet_okD(4) [OF fleet_rankedD(1) [OF assms(1)] p] .
  then show ?thesis
    using send_to_defined [of d' k p req] p assms(3) daemon_ok_tables(2) [OF fleet_rankedD(3) [OF assms(1)]]
    by simp
qed

lemma fleet_lower_bound:
  assumes f: "fleet_ranked d" and size: "producerSize d \<noteq> 0" and draw: "unat draw \<le> 10000"
  obtains m i r k where "om_rbegin (gRank2SvrId d) = Some (m, i)"
    "om_lower_bound (random_rank draw m) (gRank2SvrId d) = Some (r, k)" "k \<in> dom (prod_of d)"
proof -
  note rk = fleet_rankedD(2) [OF f] and fo = fleet_okD(2) [OF fleet_rankedD(1) [OF f]]
  have "gSvrId2ProducerState d \<noteq> []" using size by (auto simp: producerSize_def)
  then have "gSvrId2SvrInfo d \<noteq> []" using fo by (auto simp: om_dom)
  then have ne: "gRank2SvrId d \<noteq> []" using f by (simp add: fleet_ranked_def)
  then obtain m i where mi: "om_rbegin (gRank2SvrId d) = Some (m, i)"
    by (metis om_rbegin_None option.exhaust surj_pair)
  have rok: "om_ok (gRank2SvrId d)" using rk by (simp add: ranks_ok_def)
  have "(m, i) \<in> set (gRank2SvrId d)" using om_rbegin_greatest [OF rok mi] by simp
  then have "fl64 m = m" "0 \<le> m" using rk f by (force simp: ranks_ok_def fleet_ranked_def)+
  then have "random_rank draw m \<le> m" using draw by (rule random_rank_le)
  then obtain r k where lb: "om_lower_bound (random_rank draw m) (gRank2SvrId d) = Some (r, k)"
    using om_lower_bound_exists [OF mi] by fastforce
  have "k \<in> dom (prod_of d)"
    using om_lower_bound_Some [OF rok lb] rk by (force simp: ranks_ok_def)
  with mi lb show thesis by (rule that)
qed

lemma select_step_defined:
  assumes f: "fleet_ranked d" and draw: "unat draw \<le> 10000"
  shows "defined (select_step draw req cur d)"
proof (cases "om_begin (gSetIdleProducer d)")
  case (Some q)
  obtain k where q: "q = (k, ())" by (cases q) auto
  note tok = daemon_ok_tables [OF fleet_rankedD(3) [OF f]]
  have "k \<in> dom (prod_of d)"
    using om_begin_least [OF tok(3) Some] q om_entry_iff [OF tok(3), of k "()"] tok(4) by auto
  then have "defined (send_to k (chunk req cur)
      (d\<lparr>gSetIdleProducer := om_erase k (gSetIdleProducer d), sendingCount := sendingCount d + 1\<rparr>))"
    by (rule fleet_send_defined [OF f]) simp
  then show ?thesis using Some q by (auto simp: select_step_def Let_def defined_iff)
next
  case None
  show ?thesis
  proof (cases "sendingCount d \<le> 3 * producerSize d \<and> producerSize d \<noteq> 0")
    case True
    then obtain m i r k where l: "om_rbegin (gRank2SvrId d) = Some (m, i)"
      "om_lower_bound (random_rank draw m) (gRank2SvrId d) = Some (r, k)" "k \<in> dom (prod_of d)"
      using fleet_lower_bound [OF f _ draw] by blast
    have "defined (send_to k (chunk req cur) (d\<lparr>sendingCount := sendingCount d + 1\<rparr>))"
      using l(3) by (rule fleet_send_defined [OF f]) simp
    then show ?thesis using None True l by (auto simp: select_step_def Let_def defined_iff)
  next
    case False
    with None show ?thesis by (auto simp: select_step_def Let_def)
  qed
qed

section \<open>Chunks\<close>

lemma chunk_end_small:
  assumes "unat endUid + 4096 < 2 ^ 64" and "cur \<le> endUid"
  shows "unat (chunk_end cur endUid) = min (unat endUid) (unat cur + 4095)"
    and "unat (cur + UID_COUNT_PER_TIME) = unat cur + 4096"
proof -
  have le: "unat cur \<le> unat endUid" using assms(2) by (simp add: word_le_nat_alt)
  have "unat (cur + 4095) = unat cur + unat (4095 :: u64)"
    using assms(1) le by (intro unat_add_no_wrap64) simp
  then have a: "unat (cur + 4095) = unat cur + 4095" by simp
  have e: "cur + UID_COUNT_PER_TIME - 1 = cur + 4095" by (simp add: UID_COUNT_PER_TIME_def)
  show "unat (chunk_end cur endUid) = min (unat endUid) (unat cur + 4095)"
    unfolding chunk_end_def e using a by (auto simp: word_less_nat_alt min_def)
  have "unat (cur + 4096) = unat cur + unat (4096 :: u64)"
    using assms(1) le by (intro unat_add_no_wrap64) simp
  then show "unat (cur + UID_COUNT_PER_TIME) = unat cur + 4096"
    by (simp add: UID_COUNT_PER_TIME_def)
qed

end
