(* ===== verification/Runs.thy ===== *)
theory Runs
  imports Main
begin

text \<open>
  Runs of a labelled step relation, shared by the daemon, the producer and the daemon client: a
  run is the list of events that happened, oldest first, each possible and allowed by a guard in
  the state it happened in. Invariants of runs,
  simulation by an abstract relation, and the execution of event lists are locales.
\<close>

inductive traces ::
  "('e \<Rightarrow> 's \<Rightarrow> 's \<Rightarrow> bool) \<Rightarrow> 's \<Rightarrow> ('e \<Rightarrow> 's \<Rightarrow> bool) \<Rightarrow> 'e list \<Rightarrow> 's \<Rightarrow> bool"
  for step init G where
  run_start: "traces step init G [] init"
| run_step: "traces step init G evs s \<Longrightarrow> G ev s \<Longrightarrow> step ev s s' \<Longrightarrow> traces step init G (evs @ [ev]) s'"

definition any_event :: "'e \<Rightarrow> 's \<Rightarrow> bool" where
  "any_event ev s = True"

section \<open>Invariants\<close>

locale trace_invariant =
  fixes step :: "'e \<Rightarrow> 's \<Rightarrow> 's \<Rightarrow> bool" and init :: 's and G :: "'e \<Rightarrow> 's \<Rightarrow> bool"
    and I :: "'e list \<Rightarrow> 's \<Rightarrow> bool"
  assumes inv_init: "I [] init"
    and inv_step: "I evs s \<Longrightarrow> G ev s \<Longrightarrow> step ev s s' \<Longrightarrow> I (evs @ [ev]) s'"
begin

lemma inv_run: "traces step init G evs s \<Longrightarrow> I evs s"
  by (induction rule: traces.induct) (auto intro: inv_init inv_step)

end

section \<open>Simulation\<close>

text \<open>
  Each step, in a state with the invariant \<open>I\<close>, is explained by a step of an abstract
  relation on the abstract states; \<open>R\<close> says which abstract event explains which event.
\<close>

locale trace_simulation =
  fixes step :: "'e \<Rightarrow> 's \<Rightarrow> 's \<Rightarrow> bool" and init :: 's and G :: "'e \<Rightarrow> 's \<Rightarrow> bool" and I :: "'s \<Rightarrow> bool"
    and astep :: "'l \<Rightarrow> 'a \<Rightarrow> 'a \<Rightarrow> bool" and abs :: "'s \<Rightarrow> 'a" and R :: "'e \<Rightarrow> 'l \<Rightarrow> bool"
  assumes sim_init: "I init"
    and sim_inv: "I s \<Longrightarrow> G ev s \<Longrightarrow> step ev s s' \<Longrightarrow> I s'"
    and sim_step: "I s \<Longrightarrow> G ev s \<Longrightarrow> step ev s s' \<Longrightarrow> \<exists>l. R ev l \<and> astep l (abs s) (abs s')"
begin

sublocale trace_invariant step init G "\<lambda>_. I"
  by unfold_locales (rule sim_init, rule sim_inv)

lemma simulated:
  "traces step init G evs s \<Longrightarrow> \<exists>ls. list_all2 R evs ls \<and> traces astep (abs init) any_event ls (abs s)"
proof (induction rule: traces.induct)
  case run_start
  then show ?case using traces.run_start [of astep "abs init" any_event] by (intro exI [of _ "[]"]) simp
next
  case (run_step evs s ev s')
  then obtain ls where ls: "list_all2 R evs ls" "traces astep (abs init) any_event ls (abs s)" by blast
  obtain l where l: "R ev l" "astep l (abs s) (abs s')"
    using sim_step [OF inv_run [OF run_step(1)] run_step(2,3)] by blast
  have "traces astep (abs init) any_event (ls @ [l]) (abs s')"
    by (rule traces.run_step [of astep "abs init" any_event ls "abs s"])
      (use ls(2) l(2) in \<open>simp_all add: any_event_def\<close>)
  with ls(1) l(1) show ?case by (intro exI [of _ "ls @ [l]"]) (simp add: list_all2_appendI)
qed

end

section \<open>Execution\<close>

fun exec_trace :: "('e \<Rightarrow> 's \<Rightarrow> 's option) \<Rightarrow> ('e \<Rightarrow> 's \<Rightarrow> bool) \<Rightarrow> 'e list \<Rightarrow> 's \<Rightarrow> 's option" where
  "exec_trace exec G [] s = Some s"
| "exec_trace exec G (ev # evs) s =
     (if G ev s then (case exec ev s of None \<Rightarrow> None | Some s' \<Rightarrow> exec_trace exec G evs s') else None)"

text \<open>An interpreter that computes the step relation; \<open>None\<close>: not possible, or undefined.\<close>

locale executable_steps =
  fixes step :: "'e \<Rightarrow> 's \<Rightarrow> 's \<Rightarrow> bool" and exec :: "'e \<Rightarrow> 's \<Rightarrow> 's option"
  assumes exec_iff: "exec ev s = Some s' \<longleftrightarrow> step ev s s'"
begin

lemma exec_from:
  "traces step init G evs0 s \<Longrightarrow> exec_trace exec G evs s = Some s' \<Longrightarrow> traces step init G (evs0 @ evs) s'"
proof (induction evs arbitrary: evs0 s)
  case Nil
  then show ?case by simp
next
  case (Cons ev evs)
  then obtain t where g: "G ev s" and t: "exec ev s = Some t" "exec_trace exec G evs t = Some s'"
    by (auto split: option.splits if_splits)
  have "traces step init G (evs0 @ [ev]) t"
    using Cons.prems(1) g t(1) unfolding exec_iff by (rule run_step)
  then show ?case using Cons.IH [OF _ t(2), of "evs0 @ [ev]"] by simp
qed

lemma exec_run: "exec_trace exec G evs init = Some s \<Longrightarrow> traces step init G evs s"
  using exec_from [OF run_start] by fastforce

end

end
