(* ===== verification/DaemonSystem.thy ===== *)
theory DaemonSystem
  imports Dispatch Runs
begin

text \<open>
  The daemon as a whole: its tables and its threads. Every critical section of
  \<^verbatim>\<open>gSvrInfoMutex\<close> is one step; a thread between two of them is a task. Events label the
  steps with what comes from outside: requests, replies, failures, the clock and the draws of
  the random generator. A run is a list of events that are possible one after the other; its
  order is the interleaving of the threads.
\<close>

section \<open>Threads, state, events\<close>

text \<open>
  A thread is inside \<^verbatim>\<open>SelectProducerAndSend(request)\<close>, about to test the loop condition with
  its \<open>curUid\<close>, called by \<^verbatim>\<open>BeginPushCallData::Proceed\<close> or by a callback; or it is an
  unanswered RPC; or it is inside \<^verbatim>\<open>OnResponseFail\<close>, between its two critical sections.
\<close>

datatype origin = ByBeginPush | ByCallback

datatype task =
    Selecting origin produce_request u64
  | InFlight async_call
  | FailedCall async_call

record system =
  tables :: daemon
  tasks :: "task multiset"

definition system_init :: system where
  "system_init = \<lparr>tables = daemon_init, tasks = {#}\<rparr>"

record push_request =
  push_msg_id :: u32
  push_start_uid :: u64
  push_end_uid :: u64

datatype event =
    Register register_request register_env
  | Load double load_balance_request
  | Beat int u64
  | Sweep int
  | Timer
  | Begin push_request
  | Select u32 origin produce_request u64
  | Complete async_call bool bool err_code
  | Resume async_call

section \<open>The handlers on the whole state\<close>

text \<open>The start of \<^verbatim>\<open>BeginPushCallData::Proceed\<close>: the request is copied, the loop begins.\<close>

definition copy_request :: "push_request \<Rightarrow> produce_request" where
  "copy_request r = \<lparr>msg_id = push_msg_id r, start_uid = push_start_uid r, end_uid = push_end_uid r\<rparr>"

definition SelectProducerAndSend :: "origin \<Rightarrow> produce_request \<Rightarrow> system \<Rightarrow> system" where
  "SelectProducerAndSend who request s =
     s\<lparr>tasks := add_mset (Selecting who request (start_uid request)) (tasks s)\<rparr>"

text \<open>
  \<^verbatim>\<open>BeginPushCallData::Proceed\<close> itself. It calls \<^verbatim>\<open>SelectProducerAndSend\<close> and answers when the call
  returns; \<open>select\<close> is that completed call, whose turns the steps below interleave.
\<close>

definition BeginPush_Proceed ::
  "(produce_request \<Rightarrow> system \<Rightarrow> system) \<Rightarrow> call_status \<Rightarrow> push_request \<Rightarrow> system \<Rightarrow>
   call_status \<times> err_code action list \<times> system" where
  "BeginPush_Proceed select status request s =
     (if status = CREATE then (PROCESS, [RequestRpc], s)
      else if status = PROCESS then
        (FINISH, [NewCallData, FinishRpc SUCCESS], select (copy_request request) s)
      else (status, [DeleteThis], s))"

interpretation begin_push: call_data "BeginPush_Proceed select" for select
  by unfold_locales (auto simp: BeginPush_Proceed_def)

text \<open>One turn of the loop of a thread that is inside it (the task itself is already removed).\<close>

definition select_turn :: "u32 \<Rightarrow> origin \<Rightarrow> produce_request \<Rightarrow> u64 \<Rightarrow> system \<Rightarrow> system ub_or" where
  "select_turn draw who request curUid s =
     (if curUid \<le> end_uid request then
        (case select_step draw request curUid (tables s) of
           Inl e \<Rightarrow> Inl e
         | Inr (None, d) \<Rightarrow> Inr (s\<lparr>tables := d, tasks := add_mset (Selecting who request curUid) (tasks s)\<rparr>)
         | Inr (Some call, d) \<Rightarrow> Inr (s\<lparr>tables := d, tasks :=
             add_mset (InFlight call)
               (add_mset (Selecting who request (curUid + UID_COUNT_PER_TIME)) (tasks s))\<rparr>))
      else Inr s)"

text \<open>\<^verbatim>\<open>ProduceMsgAsyncCall::OnGetResponse\<close> and \<^verbatim>\<open>OnResponseFail\<close>, the latter in two parts.\<close>

definition OnGetResponse :: "err_code \<Rightarrow> async_call \<Rightarrow> system \<Rightarrow> system" where
  "OnGetResponse err call s =
     (let s1 = s\<lparr>tables := DecreaseProducerTask (call_svrId call) (tables s)\<rparr>
      in if err = SUCCESS then s1 else SelectProducerAndSend ByCallback (call_request call) s1)"

definition OnResponseFail :: "async_call \<Rightarrow> system \<Rightarrow> system" where
  "OnResponseFail call s =
     s\<lparr>tables := circuit_breaker (call_svrId call) (tables s), tasks := add_mset (FailedCall call) (tasks s)\<rparr>"

definition OnResponseFail_resume :: "async_call \<Rightarrow> system \<Rightarrow> system" where
  "OnResponseFail_resume call s =
     SelectProducerAndSend ByCallback (call_request call)
       (s\<lparr>tables := DecreaseProducerTask (call_svrId call) (tables s)\<rparr>)"

definition drop_task :: "task \<Rightarrow> system \<Rightarrow> system" where
  "drop_task t s = s\<lparr>tasks := tasks s - {#t#}\<rparr>"

section \<open>Steps\<close>

inductive sys_step :: "(string \<Rightarrow> string list) \<Rightarrow> event \<Rightarrow> system \<Rightarrow> system \<Rightarrow> bool" for sp where
  register: "sys_step sp (Register req env) s (s\<lparr>tables := snd (ClientRegister sp req env (tables s))\<rparr>)"
| load: "sys_step sp (Load junk lreq) s (s\<lparr>tables := snd (LoadBalance junk lreq (tables s))\<rparr>)"
| beat: "sys_step sp (Beat now k) s (s\<lparr>tables := snd (HeartBeat now k (tables s))\<rparr>)"
| sweep: "sys_step sp (Sweep now) s (s\<lparr>tables := CheckProcAlive_pass now (tables s)\<rparr>)"
| timer: "sys_step sp Timer s (s\<lparr>tables := Rebalance (tables s)\<rparr>)"
| begin_push: "sys_step sp (Begin r) s (SelectProducerAndSend ByBeginPush (copy_request r) s)"
| select: "Selecting who r cur \<in># tasks s \<Longrightarrow> unat draw \<le> 10000 \<Longrightarrow>
    select_turn draw who r cur (drop_task (Selecting who r cur) s) = Inr s' \<Longrightarrow>
    sys_step sp (Select draw who r cur) s s'"
| complete: "InFlight c \<in># tasks s \<Longrightarrow>
    HandleAsyncCall ok status_ok (OnGetResponse err c) (OnResponseFail c) (drop_task (InFlight c) s) = Some s' \<Longrightarrow>
    sys_step sp (Complete c ok status_ok err) s s'"
| resume: "FailedCall c \<in># tasks s \<Longrightarrow>
    sys_step sp (Resume c) s (OnResponseFail_resume c (drop_task (FailedCall c) s))"

inductive_cases sys_step_elims:
  "sys_step sp (Register req env) s s'" "sys_step sp (Load junk lreq) s s'" "sys_step sp (Beat now k) s s'"
  "sys_step sp (Sweep now) s s'" "sys_step sp Timer s s'" "sys_step sp (Begin r) s s'"
  "sys_step sp (Select draw who r cur) s s'" "sys_step sp (Complete c ok st err) s s'" "sys_step sp (Resume c) s s'"

text \<open>A run: the events that happened, oldest first, each allowed by the guard \<open>G\<close> in its state.\<close>

abbreviation run :: "(string \<Rightarrow> string list) \<Rightarrow> (event \<Rightarrow> system \<Rightarrow> bool) \<Rightarrow> event list \<Rightarrow> system \<Rightarrow> bool" where
  "run sp G \<equiv> traces (sys_step sp) system_init G"

section \<open>The executable interpreter\<close>

text \<open>\<open>None\<close>: the event is not possible, or it is undefined behaviour.\<close>

definition exec_event :: "(string \<Rightarrow> string list) \<Rightarrow> event \<Rightarrow> system \<Rightarrow> system option" where
  "exec_event sp ev s =
     (case ev of
        Register req env \<Rightarrow> Some (s\<lparr>tables := snd (ClientRegister sp req env (tables s))\<rparr>)
      | Load junk lreq \<Rightarrow> Some (s\<lparr>tables := snd (LoadBalance junk lreq (tables s))\<rparr>)
      | Beat now k \<Rightarrow> Some (s\<lparr>tables := snd (HeartBeat now k (tables s))\<rparr>)
      | Sweep now \<Rightarrow> Some (s\<lparr>tables := CheckProcAlive_pass now (tables s)\<rparr>)
      | Timer \<Rightarrow> Some (s\<lparr>tables := Rebalance (tables s)\<rparr>)
      | Begin r \<Rightarrow> Some (SelectProducerAndSend ByBeginPush (copy_request r) s)
      | Select draw who r cur \<Rightarrow>
          if Selecting who r cur \<in># tasks s \<and> unat draw \<le> 10000 then
            (case select_turn draw who r cur (drop_task (Selecting who r cur) s) of
               Inl _ \<Rightarrow> None | Inr s' \<Rightarrow> Some s')
          else None
      | Complete c ok status_ok err \<Rightarrow>
          if InFlight c \<in># tasks s then
            HandleAsyncCall ok status_ok (OnGetResponse err c) (OnResponseFail c) (drop_task (InFlight c) s)
          else None
      | Resume c \<Rightarrow>
          if FailedCall c \<in># tasks s then Some (OnResponseFail_resume c (drop_task (FailedCall c) s)) else None)"

abbreviation exec_events ::
  "(string \<Rightarrow> string list) \<Rightarrow> (event \<Rightarrow> system \<Rightarrow> bool) \<Rightarrow> event list \<Rightarrow> system \<Rightarrow> system option" where
  "exec_events sp \<equiv> exec_trace (exec_event sp)"

lemma exec_event_iff: "exec_event sp ev s = Some s' \<longleftrightarrow> sys_step sp ev s s'"
  by (cases ev) (auto simp: exec_event_def intro: sys_step.intros elim!: sys_step_elims
      split: if_splits sum.splits)

interpretation daemon_exec: executable_steps "sys_step sp" "exec_event sp" for sp
  by unfold_locales (rule exec_event_iff)

lemmas exec_events_run = daemon_exec.exec_from
lemmas exec_run = daemon_exec.exec_run

end
