(* ===== verification/DaemonInvariants.thy ===== *)
theory DaemonInvariants
  imports DaemonSystem
begin

text \<open>
  What holds in every run of the daemon: the tables stay well-formed, the counter of unanswered
  requests is exact modulo its width, no user id of a push is lost or pushed twice, in a
  fleet of producers no step is undefined behaviour, and the task count of a producer is
  exact while no server id is given out twice. Each is an interpretation of the locale
  \<open>trace_invariant\<close>.
\<close>

section \<open>Frame facts\<close>

lemma DecreaseProducerTask_sending [simp]:
  "sendingCount (DecreaseProducerTask k d) = sendingCount d - 1"
  by (simp add: DecreaseProducerTask_eq split: option.splits)

lemma circuit_breaker_sending [simp]: "sendingCount (circuit_breaker k d) = sendingCount d"
  by (simp add: circuit_breaker_eq drop_producer_def split: option.splits)

lemma Rebalance_daemon_ok: "daemon_ok d \<Longrightarrow> daemon_ok (Rebalance d)"
  by (simp add: Rebalance_ok daemon_okD)

lemma drop_task_simps [simp]:
  "tables (drop_task t s) = tables s" "tasks (drop_task t s) = tasks s - {#t#}"
  by (simp_all add: drop_task_def)

lemma SelectProducerAndSend_simps [simp]:
  "tables (SelectProducerAndSend who r s) = tables s"
  "tasks (SelectProducerAndSend who r s) = add_mset (Selecting who r (start_uid r)) (tasks s)"
  by (simp_all add: SelectProducerAndSend_def)

lemma copy_request_simps [simp]:
  "msg_id (copy_request r) = push_msg_id r" "start_uid (copy_request r) = push_start_uid r"
  "end_uid (copy_request r) = push_end_uid r"
  by (simp_all add: copy_request_def)

text \<open>The three ways a turn of the loop ends.\<close>

lemma select_turn_cases:
  assumes "select_turn draw who r cur s = Inr s'"
  obtains (leave) "end_uid r < cur" "s' = s"
    | (wait) d where "cur \<le> end_uid r" "select_step draw r cur (tables s) = Inr (None, d)"
      "s' = s\<lparr>tables := d, tasks := add_mset (Selecting who r cur) (tasks s)\<rparr>"
    | (send) call d where "cur \<le> end_uid r" "select_step draw r cur (tables s) = Inr (Some call, d)"
      "s' = s\<lparr>tables := d, tasks := add_mset (InFlight call)
         (add_mset (Selecting who r (cur + UID_COUNT_PER_TIME)) (tasks s))\<rparr>"
  using assms by (auto simp: select_turn_def not_le split: if_splits sum.splits option.splits prod.splits)

lemma HandleAsyncCall_cases:
  assumes "HandleAsyncCall ok st f g s = Some s'"
  obtains (response) "ok" "st" "s' = f s" | (fail) "ok" "\<not> st" "s' = g s"
  using assms by (auto simp: HandleAsyncCall_def split: if_splits)

lemma select_step_call:
  assumes "daemon_ok d" and "select_step draw r cur d = Inr (Some call, d')"
  shows "call_request call = chunk r cur" and "sendingCount d' = sendingCount d + 1"
    and "\<exists>p. prod_of d (call_svrId call) = Some p \<and> producerCaller p \<noteq> None"
    and "gSvrId2ProducerState d' = om_modify (call_svrId call) (\<lambda>p. p\<lparr>curTaskCount := curTaskCount p + 1\<rparr>)
           (gSvrId2ProducerState d)"
    and "gSvrId2SvrInfo d' = gSvrId2SvrInfo d"
  using assms by (auto elim!: select_step_cases)

lemma select_step_None:
  assumes "daemon_ok d" and "select_step draw r cur d = Inr (None, d')"
  shows "d' = d"
  using assms by (auto elim!: select_step_cases)

section \<open>Well-formed tables\<close>

lemma OnGetResponse_tables [simp]:
  "tables (OnGetResponse err c s) = DecreaseProducerTask (call_svrId c) (tables s)"
  by (simp add: OnGetResponse_def Let_def)

lemma OnGetResponse_tasks [simp]:
  "tasks (OnGetResponse err c s) = (if err = SUCCESS then tasks s
     else add_mset (Selecting ByCallback (call_request c) (start_uid (call_request c))) (tasks s))"
  by (simp add: OnGetResponse_def Let_def)

lemma OnResponseFail_simps [simp]:
  "tables (OnResponseFail c s) = circuit_breaker (call_svrId c) (tables s)"
  "tasks (OnResponseFail c s) = add_mset (FailedCall c) (tasks s)"
  by (simp_all add: OnResponseFail_def)

lemma OnResponseFail_resume_simps [simp]:
  "tables (OnResponseFail_resume c s) = DecreaseProducerTask (call_svrId c) (tables s)"
  "tasks (OnResponseFail_resume c s) =
     add_mset (Selecting ByCallback (call_request c) (start_uid (call_request c))) (tasks s)"
  by (simp_all add: OnResponseFail_resume_def)

text \<open>What a step does to the tables, for any property of tables kept by every section.\<close>

lemma step_tables:
  assumes "sys_step sp ev s s'"
  obtains (register) req env where "ev = Register req env" "tables s' = snd (ClientRegister sp req env (tables s))"
    | (load) junk lreq where "ev = Load junk lreq" "tables s' = snd (LoadBalance junk lreq (tables s))"
    | (beat) now k where "tables s' = snd (HeartBeat now k (tables s))"
    | (sweep) now where "tables s' = CheckProcAlive_pass now (tables s)"
    | (timer) "tables s' = Rebalance (tables s)"
    | (same) "tables s' = tables s"
    | (select) draw r cur res where "unat draw \<le> 10000" "select_step draw r cur (tables s) = Inr (res, tables s')"
    | (decrease) k where "tables s' = DecreaseProducerTask k (tables s)"
    | (breaker) k where "tables s' = circuit_breaker k (tables s)"
  using assms
proof (cases rule: sys_step.cases)
  case (select who r cur draw)
  then show ?thesis
    by (elim select_turn_cases) (auto intro: that)
next
  case (complete c ok st err)
  then show ?thesis
    by (elim HandleAsyncCall_cases) (auto intro: that)
qed (auto intro: that)

lemma step_daemon_ok: "sys_step sp ev s s' \<Longrightarrow> daemon_ok (tables s) \<Longrightarrow> daemon_ok (tables s')"
  by (erule step_tables) (auto intro: handlers_ok Rebalance_daemon_ok select_step_ok
      DecreaseProducerTask_ok circuit_breaker_ok)

interpretation ok_inv: trace_invariant "sys_step sp" system_init G "\<lambda>_ s. daemon_ok (tables s)" for sp G
  by unfold_locales (auto simp: system_init_def daemon_ok_init dest: step_daemon_ok)

section \<open>The counter of unanswered requests\<close>

definition outstanding :: "task \<Rightarrow> bool" where
  "outstanding t = (case t of Selecting _ _ _ \<Rightarrow> False | InFlight _ \<Rightarrow> True | FailedCall _ \<Rightarrow> True)"

lemma outstanding_simps [simp]:
  "\<not> outstanding (Selecting who r cur)" "outstanding (InFlight c)" "outstanding (FailedCall c)"
  by (simp_all add: outstanding_def)

definition unanswered :: "system \<Rightarrow> nat" where
  "unanswered s = size (filter_mset outstanding (tasks s))"

definition count_exact :: "system \<Rightarrow> bool" where
  "count_exact s \<longleftrightarrow> daemon_ok (tables s) \<and> sendingCount (tables s) = word_of_nat (unanswered s)"

lemma unanswered_drop:
  assumes "t \<in># tasks s" and "outstanding t"
  shows "unanswered s = Suc (size (filter_mset outstanding (tasks s - {#t#})))"
proof -
  obtain M where "tasks s = add_mset t M" using assms(1) by (metis insert_DiffM)
  then show ?thesis by (simp add: unanswered_def assms(2))
qed

lemma filter_drop_selecting [simp]:
  "filter_mset outstanding (M - {#Selecting who r cur#}) = filter_mset outstanding M"
  by simp

lemma step_count_exact:
  assumes "sys_step sp ev s s'" and "count_exact s"
  shows "count_exact s'"
proof -
  have ok: "daemon_ok (tables s)" "daemon_ok (tables s')"
    using assms step_daemon_ok by (auto simp: count_exact_def)
  have n: "sendingCount (tables s) = word_of_nat (unanswered s)"
    using assms(2) by (simp add: count_exact_def)
  have "sendingCount (tables s') = word_of_nat (unanswered s')"
    using assms(1)
  proof (cases rule: sys_step.cases)
    case (select who r cur draw)
    from select(4) show ?thesis
    proof (cases rule: select_turn_cases)
      case leave
      with n show ?thesis by (simp add: unanswered_def)
    next
      case (wait d)
      with select_step_None [OF ok(1) wait(2) [unfolded drop_task_simps]] n show ?thesis by (simp add: unanswered_def)
    next
      case (send call d)
      with select_step_call(2) [OF ok(1) send(2) [unfolded drop_task_simps]] n show ?thesis by (simp add: unanswered_def)
    qed
  next
    case (complete c ok st err)
    from unanswered_drop [OF complete(2)] have u: "unanswered s = Suc (size (filter_mset outstanding (tasks s - {#InFlight c#})))"
      by simp
    from complete(3) show ?thesis
      by (cases rule: HandleAsyncCall_cases) (use n u in \<open>simp_all add: unanswered_def\<close>)
  next
    case (resume c)
    from unanswered_drop [OF resume(3)] show ?thesis
      using resume n by (simp add: unanswered_def)
  qed (use n in \<open>simp_all add: unanswered_def\<close>)
  with ok show ?thesis by (simp add: count_exact_def)
qed

interpretation count_inv: trace_invariant "sys_step sp" system_init G "\<lambda>_ s. count_exact s" for sp G
proof unfold_locales
  show "count_exact system_init"
    using daemon_ok_init by (simp add: system_init_def count_exact_def unanswered_def, simp add: daemon_init_def)
qed (rule step_count_exact)

section \<open>No user id is lost or pushed twice\<close>

text \<open>
  The user ids of a request, each with the message it is for; of a task: what its thread has
  still to send, or what was sent and is not answered; and what the pushes asked for and the
  producers confirmed along a run.
\<close>

definition uid_range :: "u32 \<Rightarrow> u64 \<Rightarrow> u64 \<Rightarrow> (u32 \<times> nat) multiset" where
  "uid_range m a b = image_mset (Pair m) (mset [unat a..<Suc (unat b)])"

definition request_uids :: "produce_request \<Rightarrow> (u32 \<times> nat) multiset" where
  "request_uids r = uid_range (msg_id r) (start_uid r) (end_uid r)"

definition task_uids :: "task \<Rightarrow> (u32 \<times> nat) multiset" where
  "task_uids t = (case t of Selecting _ r cur \<Rightarrow> uid_range (msg_id r) cur (end_uid r)
     | InFlight c \<Rightarrow> request_uids (call_request c) | FailedCall c \<Rightarrow> request_uids (call_request c))"

definition pending_uids :: "system \<Rightarrow> (u32 \<times> nat) multiset" where
  "pending_uids s = (\<Sum>t\<in>#tasks s. task_uids t)"

definition asked_by :: "event \<Rightarrow> (u32 \<times> nat) multiset" where
  "asked_by ev = (case ev of Begin r \<Rightarrow> request_uids (copy_request r) | _ \<Rightarrow> {#})"

definition confirmed_by :: "event \<Rightarrow> (u32 \<times> nat) multiset" where
  "confirmed_by ev = (case ev of Complete c ok st err \<Rightarrow>
     if st \<and> err = SUCCESS then request_uids (call_request c) else {#} | _ \<Rightarrow> {#})"

definition asked_uids :: "event list \<Rightarrow> (u32 \<times> nat) multiset" where
  "asked_uids evs = sum_list (map asked_by evs)"

definition confirmed_uids :: "event list \<Rightarrow> (u32 \<times> nat) multiset" where
  "confirmed_uids evs = sum_list (map confirmed_by evs)"

text \<open>A range whose end leaves room for one more chunk below \<open>2 ^ 64\<close>.\<close>

definition fits :: "u64 \<Rightarrow> bool" where
  "fits e \<longleftrightarrow> unat e + 4096 < 2 ^ 64"

definition event_fits :: "event \<Rightarrow> bool" where
  "event_fits ev = (case ev of Begin r \<Rightarrow> fits (push_end_uid r) | _ \<Rightarrow> True)"

definition task_end :: "task \<Rightarrow> u64" where
  "task_end t = (case t of Selecting _ r _ \<Rightarrow> end_uid r
     | InFlight c \<Rightarrow> end_uid (call_request c) | FailedCall c \<Rightarrow> end_uid (call_request c))"

lemma uid_task_simps [simp]:
  "task_uids (Selecting who r cur) = uid_range (msg_id r) cur (end_uid r)"
  "task_uids (InFlight c) = request_uids (call_request c)"
  "task_uids (FailedCall c) = request_uids (call_request c)"
  "task_end (Selecting who r cur) = end_uid r"
  "task_end (InFlight c) = end_uid (call_request c)"
  "task_end (FailedCall c) = end_uid (call_request c)"
  by (simp_all add: task_uids_def task_end_def)

lemma uid_range_empty: "b < a \<Longrightarrow> uid_range m a b = {#}"
  by (simp add: uid_range_def word_less_nat_alt)

text \<open>Sending a chunk splits the range of the thread.\<close>

lemma uid_range_chunk:
  assumes "fits (end_uid r)" and "cur \<le> end_uid r"
  shows "uid_range (msg_id r) cur (end_uid r) =
    request_uids (chunk r cur) + uid_range (msg_id r) (cur + UID_COUNT_PER_TIME) (end_uid r)"
proof -
  let ?a = "unat cur" and ?b = "unat (end_uid r)"
  note c = chunk_end_small [OF assms(1) [unfolded fits_def] assms(2)]
  have le: "?a \<le> ?b" using assms(2) by (simp add: word_le_nat_alt)
  have "[?a..<Suc ?b] = [?a..<Suc (min ?b (?a + 4095))] @ [?a + 4096..<Suc ?b]"
  proof (cases "?a + 4095 \<le> ?b")
    case True
    then show ?thesis
      using upt_add_eq_append [of ?a "?a + 4096" "Suc ?b - (?a + 4096)"] by (simp add: min_absorb2 add.commute)
  next
    case False
    then show ?thesis using le by (simp add: min_absorb1)
  qed
  then show ?thesis
    unfolding request_uids_def uid_range_def chunk_def using c by simp
qed

lemma chunk_fits: "fits (end_uid r) \<Longrightarrow> cur \<le> end_uid r \<Longrightarrow> fits (end_uid (chunk r cur))"
  using chunk_end_small(1) [of "end_uid r" cur] by (simp add: fits_def chunk_def)

definition uids_kept :: "event list \<Rightarrow> system \<Rightarrow> bool" where
  "uids_kept evs s \<longleftrightarrow> daemon_ok (tables s) \<and>
     (list_all event_fits evs \<longrightarrow> (\<forall>t \<in># tasks s. fits (task_end t)) \<and>
        pending_uids s + confirmed_uids evs = asked_uids evs)"

text \<open>
  A step that exchanges one task for others with the same user ids, or for confirmed ones.
\<close>

lemma uids_kept_exchange:
  assumes "uids_kept evs s" and "daemon_ok (tables s')"
    and "tasks s = add_mset t M" and "tasks s' = N + M"
    and "asked_by ev = {#}" and "event_fits ev"
    and "fits (task_end t) \<Longrightarrow> (\<forall>u \<in># N. fits (task_end u)) \<and> (\<Sum>u\<in>#N. task_uids u) + confirmed_by ev = task_uids t"
  shows "uids_kept (evs @ [ev]) s'"
proof -
  have "(\<forall>u \<in># tasks s'. fits (task_end u)) \<and> pending_uids s' + confirmed_uids (evs @ [ev]) = asked_uids (evs @ [ev])"
    if f: "list_all event_fits evs"
  proof -
    from assms(1) f have k: "\<forall>u \<in># tasks s. fits (task_end u)" "pending_uids s + confirmed_uids evs = asked_uids evs"
      by (auto simp: uids_kept_def)
    then have t: "fits (task_end t)" using assms(3) by simp
    from assms(7) [OF t] have n: "\<forall>u \<in># N. fits (task_end u)"
      and e: "(\<Sum>u\<in>#N. task_uids u) + confirmed_by ev = task_uids t" by auto
    have "pending_uids s' + confirmed_by ev = pending_uids s"
      using e assms(3,4) by (simp add: pending_uids_def ac_simps flip: e)
    have "pending_uids s' + confirmed_uids (evs @ [ev]) = (pending_uids s' + confirmed_by ev) + confirmed_uids evs"
      by (simp add: confirmed_uids_def ac_simps)
    also have "\<dots> = asked_uids (evs @ [ev])"
      unfolding \<open>pending_uids s' + confirmed_by ev = pending_uids s\<close> k(2)
      by (simp add: asked_uids_def assms(5))
    finally show ?thesis using k(1) n assms(3,4) by auto
  qed
  then show ?thesis using assms(2,6) by (auto simp: uids_kept_def)
qed

text \<open>A step that leaves the tasks alone, and the start of a push.\<close>

lemma uids_kept_frame:
  assumes "uids_kept evs s" and "daemon_ok (tables s')" and "tasks s' = tasks s"
    and "asked_by ev = {#}" and "confirmed_by ev = {#}"
  shows "uids_kept (evs @ [ev]) s'"
  using assms by (auto simp: uids_kept_def pending_uids_def confirmed_uids_def asked_uids_def)

lemma uids_kept_begin:
  assumes "uids_kept evs s"
  shows "uids_kept (evs @ [Begin r]) (SelectProducerAndSend ByBeginPush (copy_request r) s)"
proof -
  have "asked_by (Begin r) = uid_range (push_msg_id r) (push_start_uid r) (push_end_uid r)"
    by (simp add: asked_by_def request_uids_def)
  then show ?thesis
    using assms by (auto simp: uids_kept_def event_fits_def pending_uids_def asked_uids_def
        confirmed_uids_def confirmed_by_def ac_simps)
qed

lemma step_uids_kept:
  assumes "sys_step sp ev s s'" and k: "uids_kept evs s"
  shows "uids_kept (evs @ [ev]) s'"
proof -
  have ok: "daemon_ok (tables s)" "daemon_ok (tables s')"
    using assms step_daemon_ok by (auto simp: uids_kept_def)
  show ?thesis using assms(1)
  proof (cases rule: sys_step.cases)
    case (begin_push r)
    with k show ?thesis by (simp add: uids_kept_begin)
  next
    case (select who r cur draw)
    obtain M where M: "tasks s = add_mset (Selecting who r cur) M"
      using select(2) by (metis insert_DiffM)
    have ev: "asked_by ev = {#}" "event_fits ev" "confirmed_by ev = {#}"
      using select(1) by (simp_all add: asked_by_def event_fits_def confirmed_by_def)
    from select(4) show ?thesis
    proof (cases rule: select_turn_cases)
      case leave
      then show ?thesis using leave(1) M
        by (intro uids_kept_exchange [OF k ok(2) M _ ev(1,2), of "{#}"]) (simp_all add: ev(3) uid_range_empty)
    next
      case (wait d)
      then show ?thesis using M
        by (intro uids_kept_exchange [OF k ok(2) M _ ev(1,2), of "{#Selecting who r cur#}"]) (simp_all add: ev(3))
    next
      case (send call d)
      have c: "call_request call = chunk r cur"
        using select_step_call(1) [OF ok(1) send(2) [unfolded drop_task_simps]] .
      show ?thesis using send(1,3) c M
        by (intro uids_kept_exchange [OF k ok(2) M _ ev(1,2),
              of "{#InFlight call, Selecting who r (cur + UID_COUNT_PER_TIME)#}"])
          (simp_all add: ev(3) uid_range_chunk chunk_fits ac_simps)
    qed
  next
    case (complete c ok st err)
    obtain M where M: "tasks s = add_mset (InFlight c) M"
      using complete(2) by (metis insert_DiffM)
    have ev: "asked_by ev = {#}" "event_fits ev"
      using complete(1) by (simp_all add: asked_by_def event_fits_def)
    from complete(3) show ?thesis
    proof (cases rule: HandleAsyncCall_cases)
      case response
      then show ?thesis
        by (intro uids_kept_exchange [OF k \<open>daemon_ok (tables s')\<close> M _ ev,
              of "if err = SUCCESS then {#} else {#Selecting ByCallback (call_request c) (start_uid (call_request c))#}"])
          (simp_all add: M complete(1) confirmed_by_def request_uids_def)
    next
      case fail
      then show ?thesis
        by (intro uids_kept_exchange [OF k \<open>daemon_ok (tables s')\<close> M _ ev, of "{#FailedCall c#}"])
          (simp_all add: M complete(1) confirmed_by_def)
    qed
  next
    case (resume c)
    obtain M where M: "tasks s = add_mset (FailedCall c) M"
      using resume(3) by (metis insert_DiffM)
    show ?thesis using resume M
      by (intro uids_kept_exchange [OF k ok(2) M, of "{#Selecting ByCallback (call_request c) (start_uid (call_request c))#}"])
        (simp_all add: asked_by_def event_fits_def confirmed_by_def request_uids_def)
  qed (use k ok in \<open>auto intro!: uids_kept_frame simp: asked_by_def confirmed_by_def\<close>)
qed

interpretation uids_inv: trace_invariant "sys_step sp" system_init G uids_kept for sp G
proof unfold_locales
  show "uids_kept [] system_init"
    by (simp add: uids_kept_def system_init_def daemon_ok_init pending_uids_def confirmed_uids_def asked_uids_def)
qed (rule step_uids_kept)

section \<open>A fleet of producers is served without undefined behaviour\<close>

text \<open>Only producers register, and no load report carries a negative score.\<close>

definition fleet_event :: "event \<Rightarrow> system \<Rightarrow> bool" where
  "fleet_event ev s = (case ev of
      Register req env \<Rightarrow> proc_name req = ''producer''
    | Load junk lreq \<Rightarrow> 0 \<le> (case extract_double (lb_score lreq) of None \<Rightarrow> junk | Some v \<Rightarrow> v)
    | _ \<Rightarrow> True)"

lemma step_fleet:
  assumes "sys_step sp ev s s'" and "fleet_event ev s" and f: "fleet_ranked (tables s)"
  shows "fleet_ranked (tables s')"
  using assms(1)
proof (cases rule: step_tables)
  case (register req env)
  with assms show ?thesis by (simp add: fleet_event_def ClientRegister_fleet)
next
  case (load junk lreq)
  with assms show ?thesis by (simp add: fleet_event_def LoadBalance_fleet)
next
  case timer
  with f show ?thesis by (simp add: Rebalance_fleet fleet_rankedD)
qed (use f in \<open>auto intro: handlers_fleet select_step_fleet DecreaseProducerTask_fleet circuit_breaker_fleet\<close>)

interpretation fleet_inv: trace_invariant "sys_step sp" system_init fleet_event "\<lambda>_ s. fleet_ranked (tables s)" for sp
  by unfold_locales (auto simp: system_init_def fleet_ranked_init dest: step_fleet)

lemma fleet_select_enabled:
  assumes "fleet_ranked (tables s)" and "Selecting who r cur \<in># tasks s" and "unat draw \<le> 10000"
  shows "\<exists>s'. sys_step sp (Select draw who r cur) s s'"
proof -
  have "defined (select_turn draw who r cur (drop_task (Selecting who r cur) s))"
    using select_step_defined [OF assms(1,3), of r cur]
    by (auto simp: select_turn_def defined_iff split: option.splits prod.splits sum.splits)
  then show ?thesis using assms(2,3) by (auto simp: defined_iff intro: sys_step.select)
qed

section \<open>The task count of a producer\<close>

definition sent_to :: "u64 \<Rightarrow> task \<Rightarrow> bool" where
  "sent_to k t = (case t of Selecting _ _ _ \<Rightarrow> False | InFlight c \<Rightarrow> call_svrId c = k
     | FailedCall c \<Rightarrow> call_svrId c = k)"

definition in_hand :: "system \<Rightarrow> u64 \<Rightarrow> nat" where
  "in_hand s k = size (filter_mset (sent_to k) (tasks s))"

lemma in_hand_tables [simp]: "in_hand (s\<lparr>tables := d\<rparr>) = in_hand s"
  by (simp add: in_hand_def fun_eq_iff)

lemma in_hand_eqI: "(\<And>k. size (filter_mset (sent_to k) (tasks s')) = n k) \<Longrightarrow> in_hand s' = n"
  by (simp add: in_hand_def fun_eq_iff)

text \<open>
  \<open>tally d n\<close>: the count of every producer is \<open>n\<close> of its id, modulo the width, and a registered
  server without a producer state has nothing in hand.
\<close>

definition tally :: "daemon \<Rightarrow> (u64 \<Rightarrow> nat) \<Rightarrow> bool" where
  "tally d n \<longleftrightarrow> (\<forall>k. case prod_of d k of
      Some p \<Rightarrow> curTaskCount p = word_of_nat (n k)
    | None \<Rightarrow> k \<in> dom (info_of d) \<longrightarrow> n k = 0)"

lemma tallyI:
  assumes "\<And>k p. prod_of d k = Some p \<Longrightarrow> curTaskCount p = word_of_nat (n k)"
    and "\<And>k. prod_of d k = None \<Longrightarrow> k \<in> dom (info_of d) \<Longrightarrow> n k = 0"
  shows "tally d n"
  using assms by (auto simp: tally_def split: option.splits)

lemma tallyD:
  "tally d n \<Longrightarrow> prod_of d k = Some p \<Longrightarrow> curTaskCount p = word_of_nat (n k)"
  "tally d n \<Longrightarrow> prod_of d k = None \<Longrightarrow> k \<in> dom (info_of d) \<Longrightarrow> n k = 0"
  by (auto simp: tally_def split: option.splits dest: spec [where x = k])

lemma tally_frame:
  assumes "tally d n" and "prod_of d' = prod_of d" and "dom (info_of d') \<subseteq> dom (info_of d)"
  shows "tally d' n"
proof (rule tallyI)
  show "curTaskCount p = word_of_nat (n k)" if "prod_of d' k = Some p" for k p
    using that assms(2) tallyD(1) [OF assms(1)] by simp
  show "n k = 0" if "prod_of d' k = None" "k \<in> dom (info_of d')" for k
    using that assms(2,3) tallyD(2) [OF assms(1), of k] by (simp add: subsetD)
qed

lemma tally_Rebalance: "tally d n \<Longrightarrow> daemon_ok d \<or> tables_ok d \<Longrightarrow> tally (Rebalance d) n"
proof (rule tallyI)
  assume t: "tally d n" and "daemon_ok d \<or> tables_ok d"
  then have ok: "om_ok (gSvrId2ProducerState d)" by (auto dest: daemon_okD tables_okD)
  show "curTaskCount p = word_of_nat (n k)" if "prod_of (Rebalance d) k = Some p" for k p
    using that tallyD [OF t, of k]
    by (auto simp: Rebalance_prod [OF ok] default_producer_state_def split: option.splits if_splits)
  show "n k = 0" if "prod_of (Rebalance d) k = None" "k \<in> dom (info_of (Rebalance d))" for k
    using that by (auto simp: Rebalance_prod [OF ok] split: option.splits if_splits)
qed

lemma tally_drop: "tally d n \<Longrightarrow> tally (drop_producer k d) n"
  by (rule tallyI) (auto simp: drop_producer_def om.find_erase om.dom_erase dest: tallyD split: if_splits)

lemma tally_modify_prod:
  assumes "tally d n" and "\<And>p. prod_of d k = Some p \<Longrightarrow> curTaskCount (f p) = word_of_nat (n' k)"
    and "\<And>i. i \<noteq> k \<Longrightarrow> n' i = n i" and "prod_of d k = None \<Longrightarrow> k \<in> dom (info_of d) \<Longrightarrow> n' k = 0"
    and "gSvrId2ProducerState d' = om_modify k f (gSvrId2ProducerState d)"
    and "gSvrId2SvrInfo d' = gSvrId2SvrInfo d"
  shows "tally d' n'"
proof (rule tallyI)
  show "curTaskCount p = word_of_nat (n' i)" if "prod_of d' i = Some p" for i p
    using that assms tallyD(1) [OF assms(1), of i] by (cases "i = k") (auto simp: om.find_modify)
  show "n' i = 0" if "prod_of d' i = None" "i \<in> dom (info_of d')" for i
    using that assms tallyD(2) [OF assms(1), of i] by (cases "i = k") (auto simp: om.find_modify)
qed

lemma tally_sweep:
  "tally d n \<Longrightarrow> daemon_ok d \<Longrightarrow> tally (sweep_loop now l d) n"
proof (induction l arbitrary: d)
  case Nil
  then show ?case by simp
next
  case (Cons p l)
  have "tally (Rebalance (drop_producer (fst p) d)) n" "daemon_ok (Rebalance (drop_producer (fst p) d))"
    using Cons.prems by (simp_all add: tally_Rebalance tally_drop drop_producer_tables daemon_okD Rebalance_ok)
  moreover have "tally (d\<lparr>gSvrId2SvrInfo := om_erase (fst p) (gSvrId2SvrInfo d)\<rparr>) n"
    by (rule tally_frame [OF Cons.prems(1)]) (auto simp: om.dom_erase)
  ultimately show ?case
    using Cons by (cases p) (simp add: sweep_loop_Cons daemon_ok_erase_info del: sweep_loop.simps)
qed

lemma tally_reset: "tally d n \<Longrightarrow> tally (reset_fail_counts d) n"
  by (rule tallyI) (auto simp: map_of_reset dest: tallyD)

lemma tally_register:
  assumes t: "tally d n" and ok: "daemon_ok d" and z: "n (register_id (env_random env) d) = 0"
  shows "tally (snd (ClientRegister sp req env d)) n"
proof -
  note tok = daemon_ok_tables [OF ok]
  let ?k = "register_id (env_random env) d"
  show ?thesis
  proof (cases "proc_name req = ''producer''")
    case False
    then have d: "dom (info_of (snd (ClientRegister sp req env d))) = insert ?k (dom (info_of d))"
      "prod_of (snd (ClientRegister sp req env d)) = prod_of d"
      using tok by (simp_all add: ClientRegister_def Let_def om_insert_dom)
    show ?thesis
    proof (rule tallyI)
      show "curTaskCount p = word_of_nat (n k)" if "prod_of (snd (ClientRegister sp req env d)) k = Some p" for k p
        using that tallyD(1) [OF t] by (simp add: d(2))
      show "n k = 0" if "prod_of (snd (ClientRegister sp req env d)) k = None"
        "k \<in> dom (info_of (snd (ClientRegister sp req env d)))" for k
        using that(2) tallyD(2) [OF t that(1) [unfolded d(2)]] z unfolding d(1) by blast
    qed
  next
    case True
    let ?d = "d\<lparr>gSvrId2SvrInfo := om_modify ?k (\<lambda>i. i\<lparr>score := calLoadBalanceScore 0\<rparr>) (fst (om_insert ?k
          (ServerInfo (parseAndGetIp sp (env_peer env) @ '':'' @ listening_port req)
            ''producer'' (group_id req) (env_now env)) (gSvrId2SvrInfo d))),
        gSvrId2ProducerState := om_assign ?k (ProducerState (Some (parseAndGetIp sp (env_peer env) @ '':'' @ listening_port req)) 0)
          (gSvrId2ProducerState d),
        gSetIdleProducer := fst (om_insert ?k () (gSetIdleProducer d))\<rparr>"
    have d: "dom (info_of ?d) = insert ?k (dom (info_of d))"
      "prod_of ?d = (prod_of d)(?k \<mapsto> ProducerState (Some (parseAndGetIp sp (env_peer env) @ '':'' @ listening_port req)) 0)"
      using tok by (simp_all add: om_insert_dom om.find_assign om.dom_modify)
    have "tally ?d n"
    proof (rule tallyI)
      show "curTaskCount p = word_of_nat (n k)" if "prod_of ?d k = Some p" for k p
        using that tallyD(1) [OF t] z unfolding d(2) by (auto simp: ProducerState_def split: if_splits)
      show "n k = 0" if "prod_of ?d k = None" "k \<in> dom (info_of ?d)" for k
      proof (cases "k = ?k")
        case True
        with z show ?thesis by simp
      next
        case False
        with that(1) have "prod_of d k = None" unfolding d(2) by simp
        with False that(2) show ?thesis using tallyD(2) [OF t] unfolding d(1) by blast
      qed
    qed
    moreover have "tables_ok ?d"
      using tok by (auto simp: tables_ok_def om_insert_ok om_ok_intros om_dom_simps om_insert_dom)
    ultimately have "tally (Rebalance ?d) n" by (simp add: tally_Rebalance)
    then show ?thesis using True by (simp add: ClientRegister_def Let_def)
  qed
qed

lemma in_hand_simps:
  "\<not> sent_to k (Selecting who r cur)" "sent_to k (InFlight c) \<longleftrightarrow> call_svrId c = k"
  "sent_to k (FailedCall c) \<longleftrightarrow> call_svrId c = k"
  by (simp_all add: sent_to_def)

text \<open>The end of a call takes one task from the hands of its producer.\<close>

lemma tally_decrease:
  assumes t: "tally d n" and n: "n k = Suc (n' k)" and o: "\<And>i. i \<noteq> k \<Longrightarrow> n' i = n i"
  shows "tally (DecreaseProducerTask k d) n'"
proof (cases "prod_of d k")
  case None
  then have "k \<notin> dom (info_of d)" using tallyD(2) [OF t None] n by auto
  show ?thesis
  proof (rule tallyI)
    show "curTaskCount p = word_of_nat (n' i)" if "prod_of (DecreaseProducerTask k d) i = Some p" for i p
      using that None tallyD(1) [OF t, of i] o [of i] by (cases "i = k") (auto simp: DecreaseProducerTask_eq)
    show "n' i = 0" if "prod_of (DecreaseProducerTask k d) i = None" "i \<in> dom (info_of (DecreaseProducerTask k d))" for i
      using that None \<open>k \<notin> dom (info_of d)\<close> tallyD(2) [OF t, of i] o [of i]
      by (cases "i = k") (auto simp: DecreaseProducerTask_eq)
  qed
next
  case (Some p)
  show ?thesis
    by (rule tally_modify_prod [OF t, where k = k and f = "\<lambda>q. q\<lparr>curTaskCount := curTaskCount p - 1\<rparr>"])
      (use Some n o tallyD(1) [OF t Some] in \<open>auto simp: DecreaseProducerTask_eq\<close>)
qed

definition fresh_event :: "event \<Rightarrow> system \<Rightarrow> bool" where
  "fresh_event ev s = (case ev of
      Register req env \<Rightarrow> in_hand s (register_id (env_random env) (tables s)) = 0 | _ \<Rightarrow> True)"

definition tasks_counted :: "system \<Rightarrow> bool" where
  "tasks_counted s \<longleftrightarrow> daemon_ok (tables s) \<and> tally (tables s) (in_hand s)"

lemma tally_breaker:
  assumes "tally d n" and "daemon_ok d"
  shows "tally (circuit_breaker k d) n"
proof (cases "prod_of d k")
  case None
  with assms(1) show ?thesis by (simp add: circuit_breaker_eq)
next
  case (Some p)
  have "tally (d\<lparr>gSvrId2ProducerState := om_modify k (\<lambda>p. p\<lparr>failCount := failCount p + 1\<rparr>) (gSvrId2ProducerState d)\<rparr>) n"
    by (rule tally_modify_prod [OF assms(1), where k = k]) (use Some tallyD [OF assms(1)] in auto)
  moreover have "tally (Rebalance (drop_producer k d)) n"
    using assms by (simp add: tally_Rebalance tally_drop drop_producer_tables daemon_okD)
  ultimately show ?thesis using Some by (simp add: circuit_breaker_eq)
qed

lemma step_tasks_counted:
  assumes "sys_step sp ev s s'" and g: "fresh_event ev s" and c: "tasks_counted s"
  shows "tasks_counted s'"
proof -
  have ok: "daemon_ok (tables s)" "daemon_ok (tables s')"
    using assms step_daemon_ok by (auto simp: tasks_counted_def)
  have t: "tally (tables s) (in_hand s)" using c by (simp add: tasks_counted_def)
  have "tally (tables s') (in_hand s')"
    using assms(1)
  proof (cases rule: sys_step.cases)
    case (register req env)
    then have "in_hand s' = in_hand s" by (simp add: in_hand_def fun_eq_iff)
    moreover have "in_hand s (register_id (env_random env) (tables s)) = 0"
      using g register by (simp add: fresh_event_def)
    ultimately show ?thesis
      using tally_register [OF t ok(1), of env sp req] register by simp
  next
    case (load junk lreq)
    then have "in_hand s' = in_hand s" by (simp add: in_hand_def fun_eq_iff)
    moreover have "tally (tables s') (in_hand s)"
      by (rule tally_frame [OF t]) (use load in \<open>auto simp: LoadBalance_info split: if_splits\<close>)
    ultimately show ?thesis by simp
  next
    case (beat now k)
    then have "in_hand s' = in_hand s" by (simp add: in_hand_def fun_eq_iff)
    moreover have "tally (tables s') (in_hand s)"
      by (rule tally_frame [OF t]) (use beat in \<open>auto simp: HeartBeat_info split: if_splits\<close>)
    ultimately show ?thesis by simp
  next
    case (sweep now)
    then show ?thesis using tally_reset [OF tally_sweep [OF t ok(1)]]
      by (simp add: CheckProcAlive_pass_def)
  next
    case timer
    then show ?thesis using tally_Rebalance [OF t] ok by simp
  next
    case (begin_push r)
    then have "in_hand s' = in_hand s"
      by (intro in_hand_eqI) (simp add: in_hand_def in_hand_simps)
    with t begin_push show ?thesis by simp
  next
    case (select who r cur draw)
    obtain M where M: "tasks s = add_mset (Selecting who r cur) M"
      using select(2) by (metis insert_DiffM)
    from select(4) show ?thesis
    proof (cases rule: select_turn_cases)
      case leave
      then have "in_hand s' = in_hand s"
        using M by (intro in_hand_eqI) (simp add: in_hand_def in_hand_simps)
      with t leave show ?thesis by simp
    next
      case (wait d)
      then have "in_hand s' = in_hand s"
        using M by (intro in_hand_eqI) (simp add: in_hand_def in_hand_simps)
      with t wait show ?thesis
        using select_step_None [OF ok(1) wait(2) [unfolded drop_task_simps]] by simp
    next
      case (send call d)
      note sc = select_step_call [OF ok(1) send(2) [unfolded drop_task_simps]]
      show ?thesis
        by (rule tally_modify_prod [OF t, where k = "call_svrId call" and
              f = "\<lambda>p. p\<lparr>curTaskCount := curTaskCount p + 1\<rparr>"])
          (use sc send M tallyD(1) [OF t] in \<open>auto simp: in_hand_def in_hand_simps\<close>)
    qed
  next
    case (complete c ok st err)
    obtain M where M: "tasks s = add_mset (InFlight c) M"
      using complete(2) by (metis insert_DiffM)
    from complete(3) show ?thesis
    proof (cases rule: HandleAsyncCall_cases)
      case response
      then show ?thesis using M
        by (simp, intro tally_decrease [OF t]) (simp_all add: in_hand_def in_hand_simps)
    next
      case fail
      then have "in_hand s' = in_hand s"
        using M by (intro in_hand_eqI) (simp add: in_hand_def in_hand_simps)
      with fail show ?thesis using tally_breaker [OF t \<open>daemon_ok (tables s)\<close>] by simp
    qed
  next
    case (resume c)
    obtain M where M: "tasks s = add_mset (FailedCall c) M"
      using resume(3) by (metis insert_DiffM)
    then show ?thesis using resume
      by (simp, intro tally_decrease [OF t]) (simp_all add: in_hand_def in_hand_simps)
  qed
  with ok show ?thesis by (simp add: tasks_counted_def)
qed

interpretation tally_inv: trace_invariant "sys_step sp" system_init fresh_event "\<lambda>_ s. tasks_counted s" for sp
proof unfold_locales
  have "tally daemon_init n" for n by (simp add: tally_def daemon_init_def)
  then show "tasks_counted system_init"
    by (simp add: tasks_counted_def system_init_def daemon_ok_init)
qed (rule step_tasks_counted)

end
