(* ===== verification/Scenarios.thy ===== *)
theory Scenarios
  imports DaemonInvariants
begin

text \<open>
  Concrete runs of the daemon, evaluated by the kernel: the inputs at which the properties of
  the following theories are applied. \<open>split_colon\<close> is a splitting function that meets what is
  assumed of \<^verbatim>\<open>boost::split\<close>.
\<close>

section \<open>A splitting function\<close>

fun split_colon :: "string \<Rightarrow> string list" where
  "split_colon [] = [[]]"
| "split_colon (c # s) =
     (if c = CHR '':'' then [] # split_colon s
      else (case split_colon s of [] \<Rightarrow> [[c]] | t # ts \<Rightarrow> (c # t) # ts))"

lemma split_colon_nonempty: "split_colon s \<noteq> []"
  by (induction s) (auto split: list.splits)

lemma split_colon_tokens: "t \<in> set (split_colon s) \<Longrightarrow> CHR '':'' \<notin> set t"
  by (induction s arbitrary: t) (fastforce split: list.splits if_splits)+

lemma join_colon_Cons: "ts \<noteq> [] \<Longrightarrow> join_colon ([] # ts) = CHR '':'' # join_colon ts"
  by (cases ts) simp_all

lemma join_colon_push: "join_colon ((c # t) # ts) = c # join_colon (t # ts)"
  by (cases ts) simp_all

lemma join_split_colon: "join_colon (split_colon s) = s"
proof (induction s)
  case Nil
  then show ?case by simp
next
  case (Cons c s)
  then show ?case
    using split_colon_nonempty [of s]
    by (cases "split_colon s") (simp_all add: join_colon_Cons join_colon_push del: join_colon.simps(3))
qed

lemma split_colon_splits: "splits_at_colons split_colon"
  by (auto simp: splits_at_colons_def split_colon_nonempty split_colon_tokens join_split_colon)

section \<open>Inputs\<close>

definition producer_request :: register_request where
  "producer_request = \<lparr>listening_port = ''50053'', proc_name = ''producer'', group_id = 601\<rparr>"

definition consumer_request :: register_request where
  "consumer_request = \<lparr>listening_port = ''50000'', proc_name = ''consumer'', group_id = 601\<rparr>"

definition at_time :: "int \<Rightarrow> register_env" where
  "at_time now = \<lparr>env_peer = ''ipv4:10.0.0.1:4000'', env_random = 5, env_now = now\<rparr>"

definition demo_push :: push_request where
  "demo_push = \<lparr>push_msg_id = 1, push_start_uid = 0, push_end_uid = 8191\<rparr>"

definition demo_request :: produce_request where
  "demo_request = \<lparr>msg_id = 1, start_uid = 0, end_uid = 8191\<rparr>"

definition demo_call :: "u64 \<Rightarrow> u64 \<Rightarrow> async_call" where
  "demo_call k cur = \<lparr>call_svrId = k, call_request = \<lparr>msg_id = 1, start_uid = cur, end_uid = cur + 4095\<rparr>\<rparr>"

section \<open>Two producers, one push of two chunks, one answer\<close>

definition demo_events :: "event list" where
  "demo_events = [Register producer_request (at_time 0), Register producer_request (at_time 0),
     Begin demo_push, Select 0 ByBeginPush demo_request 0, Select 0 ByBeginPush demo_request 4096,
     Complete (demo_call 5 0) True True SUCCESS]"

definition demo_info :: server_info where
  "demo_info = \<lparr>address = ''10.0.0.1:50053'', procName = ''producer'', groupId = 601,
     timestamp = 0, score = 10\<rparr>"

definition demo_state :: system where
  "demo_state = \<lparr>tables = \<lparr>gSvrId2SvrInfo = [(5, demo_info), (6, demo_info)],
       gRank2SvrId = [(10, 5), (20, 6)],
       gSvrId2ProducerState =
         [(5, \<lparr>producerCaller = Some ''10.0.0.1:50053'', curTaskCount = 0, failCount = 0\<rparr>),
          (6, \<lparr>producerCaller = Some ''10.0.0.1:50053'', curTaskCount = 1, failCount = 0\<rparr>)],
       gSetIdleProducer = [(5, ())], sendingCount = 1\<rparr>,
     tasks = {#InFlight (demo_call 6 4096), Selecting ByBeginPush demo_request 8192#}\<rparr>"

lemma demo_exec: "exec_events split_colon any_event demo_events system_init = Some demo_state"
  by code_simp

lemma demo_exec_fleet: "exec_events split_colon fleet_event demo_events system_init = Some demo_state"
  by code_simp

lemma demo_exec_fresh: "exec_events split_colon fresh_event demo_events system_init = Some demo_state"
  by code_simp

lemmas demo_run = exec_run [OF demo_exec]
lemmas demo_run_fleet = exec_run [OF demo_exec_fleet]
lemmas demo_run_fresh = exec_run [OF demo_exec_fresh]

end
