(* ===== verification/Progress.thy ===== *)
theory Progress
  imports DaemonInvariants
begin

text \<open>
  Progress of the daemon: from every state of a fleet of producers, the turns of the sending
  loops and good answers of the producers finish all that was begun. The measure \<open>work\<close>
  goes down with each of these events, and some of them is possible while there is a task.
\<close>

section \<open>The work left\<close>

definition sends_left :: "u64 \<Rightarrow> u64 \<Rightarrow> nat" where
  "sends_left cur e = (if cur \<le> e then (unat e - unat cur) div 4096 + 1 else 0)"

definition task_work :: "task \<Rightarrow> nat" where
  "task_work t = (case t of Selecting _ r cur \<Rightarrow> 1 + 3 * sends_left cur (end_uid r)
     | InFlight c \<Rightarrow> 1
     | FailedCall c \<Rightarrow> 2 + 3 * sends_left (start_uid (call_request c)) (end_uid (call_request c)))"

definition work :: "system \<Rightarrow> nat" where
  "work s = (\<Sum>t\<in>#tasks s. task_work t)"

lemma task_work_simps [simp]:
  "task_work (Selecting who r cur) = 1 + 3 * sends_left cur (end_uid r)"
  "task_work (InFlight c) = 1"
  "task_work (FailedCall c) = 2 + 3 * sends_left (start_uid (call_request c)) (end_uid (call_request c))"
  by (simp_all add: task_work_def)

lemma sends_left_chunk:
  assumes "fits e" and "cur \<le> e"
  shows "sends_left cur e = Suc (sends_left (cur + UID_COUNT_PER_TIME) e)"
proof -
  note c = chunk_end_small(2) [OF assms(1) [unfolded fits_def] assms(2)]
  have le: "unat cur \<le> unat e" using assms(2) by (simp add: word_le_nat_alt)
  show ?thesis
  proof (cases "cur + UID_COUNT_PER_TIME \<le> e")
    case True
    then have "unat cur + 4096 \<le> unat e" using c by (simp add: word_le_nat_alt)
    then have "(unat e - unat cur) div 4096 = Suc ((unat e - (unat cur + 4096)) div 4096)"
      by (subst le_div_geq) (simp_all add: diff_diff_eq)
    with True assms(2) c show ?thesis by (simp add: sends_left_def)
  next
    case False
    then have "unat e - unat cur < 4096" using c by (simp add: word_le_nat_alt)
    with False assms(2) show ?thesis by (simp add: sends_left_def)
  qed
qed

section \<open>One event of progress\<close>

text \<open>The events of the sending loops, of good answers and of resumed failures.\<close>

definition push_event :: "event \<Rightarrow> bool" where
  "push_event ev = (case ev of Select _ _ _ _ \<Rightarrow> True
     | Complete _ ok st err \<Rightarrow> ok \<and> st \<and> err = SUCCESS | Resume _ \<Rightarrow> True | _ \<Rightarrow> False)"

lemma select_step_sends:
  assumes "fleet_ranked d" and "sendingCount d = 0" and "producerSize d \<noteq> 0"
  shows "\<exists>call d'. select_step 0 r cur d = Inr (Some call, d')"
proof -
  obtain res d' where s: "select_step 0 r cur d = Inr (res, d')"
    using select_step_defined [OF assms(1), of 0 r cur] by (auto simp: defined_iff)
  have "res \<noteq> None"
    using s assms(2,3)
    by (auto simp: select_step_def Let_def split: option.splits sum.splits prod.splits)
  with s show ?thesis by auto
qed

lemma select_keys:
  "daemon_ok d \<Longrightarrow> select_step draw r cur d = Inr (res, d') \<Longrightarrow>
    length (gSvrId2ProducerState d') = length (gSvrId2ProducerState d)"
  by (erule (1) select_step_cases) (simp_all add: om_modify_def)

lemma decrease_keys:
  "length (gSvrId2ProducerState (DecreaseProducerTask k d)) = length (gSvrId2ProducerState d)"
  by (simp add: DecreaseProducerTask_eq om_modify_def split: option.splits)

text \<open>What the argument needs of a state: all of it is kept by the events it chooses.\<close>

definition can_progress :: "system \<Rightarrow> bool" where
  "can_progress s \<longleftrightarrow> fleet_ranked (tables s) \<and> count_exact s \<and> (\<forall>t \<in># tasks s. fits (task_end t)) \<and>
     gSvrId2ProducerState (tables s) \<noteq> [] \<and> length (gSvrId2ProducerState (tables s)) < 2 ^ 32"

lemma can_progress_step:
  assumes "can_progress s" and "sys_step sp ev s s'" and "push_event ev"
    and "length (gSvrId2ProducerState (tables s')) = length (gSvrId2ProducerState (tables s))"
    and "\<forall>t \<in># tasks s'. fits (task_end t)"
  shows "can_progress s'"
proof -
  have "fleet_event ev s" using assms(3) by (cases ev) (simp_all add: fleet_event_def push_event_def)
  then have "fleet_ranked (tables s')"
    using step_fleet [OF assms(2)] assms(1) by (simp add: can_progress_def)
  moreover have "count_exact s'"
    using step_count_exact [OF assms(2)] assms(1) by (simp add: can_progress_def)
  ultimately show ?thesis
    using assms(1,4,5) by (auto simp: can_progress_def simp flip: length_greater_0_conv)
qed

lemma progress_complete:
  assumes "can_progress s" and "InFlight c \<in># tasks s"
  shows "\<exists>s'. sys_step sp (Complete c True True SUCCESS) s s' \<and> can_progress s' \<and> work s' < work s"
proof -
  obtain M where M: "tasks s = add_mset (InFlight c) M" using assms(2) by (metis insert_DiffM)
  let ?s' = "OnGetResponse SUCCESS c (drop_task (InFlight c) s)"
  have st: "sys_step sp (Complete c True True SUCCESS) s ?s'"
    using assms(2) by (intro sys_step.complete) (simp_all add: HandleAsyncCall_def)
  have "can_progress ?s'"
    by (rule can_progress_step [OF assms(1) st])
      (use assms(1) M in \<open>auto simp: push_event_def decrease_keys can_progress_def\<close>)
  moreover have "work ?s' < work s" using M by (simp add: work_def)
  ultimately show ?thesis using st by blast
qed

lemma progress_resume:
  assumes "can_progress s" and "FailedCall c \<in># tasks s"
  shows "\<exists>s'. sys_step sp (Resume c) s s' \<and> can_progress s' \<and> work s' < work s"
proof -
  obtain M where M: "tasks s = add_mset (FailedCall c) M" using assms(2) by (metis insert_DiffM)
  let ?s' = "OnResponseFail_resume c (drop_task (FailedCall c) s)"
  have st: "sys_step sp (Resume c) s ?s'" using assms(2) by (rule sys_step.resume)
  have "can_progress ?s'"
    by (rule can_progress_step [OF assms(1) st])
      (use assms(1) M in \<open>auto simp: push_event_def decrease_keys can_progress_def\<close>)
  moreover have "work ?s' < work s" using M by (simp add: work_def)
  ultimately show ?thesis using st by blast
qed

text \<open>When only loops are left nothing is unanswered, so a loop may send, or it leaves.\<close>

lemma progress_select:
  assumes p: "can_progress s" and sel: "Selecting who r cur \<in># tasks s"
    and idle: "\<forall>t \<in># tasks s. \<not> outstanding t"
  shows "\<exists>s'. sys_step sp (Select 0 who r cur) s s' \<and> can_progress s' \<and> work s' < work s"
proof -
  obtain M where M: "tasks s = add_mset (Selecting who r cur) M" using sel by (metis insert_DiffM)
  have f: "fleet_ranked (tables s)" and e: "fits (end_uid r)" and M_fits: "\<forall>t \<in># M. fits (task_end t)"
    using p M by (auto simp: can_progress_def)
  have "filter_mset outstanding (tasks s) = {#}" using idle by (simp add: filter_mset_eq_mempty_iff)
  then have "unanswered s = 0" by (simp only: unanswered_def size_empty)
  then have z: "sendingCount (tables s) = 0"
    using p by (simp add: can_progress_def count_exact_def)
  have size: "producerSize (tables s) \<noteq> 0"
    using p by (auto simp: can_progress_def producerSize_def word_of_nat_eq_0_iff nat_dvd_not_less)
  show ?thesis
  proof (cases "cur \<le> end_uid r")
    case False
    let ?s' = "drop_task (Selecting who r cur) s"
    have st: "sys_step sp (Select 0 who r cur) s ?s'"
      using sel False by (intro sys_step.select) (simp_all add: select_turn_def)
    have "can_progress ?s'"
      by (rule can_progress_step [OF p st]) (use M M_fits in \<open>auto simp: push_event_def\<close>)
    moreover have "work ?s' < work s" using M by (simp add: work_def)
    ultimately show ?thesis using st by blast
  next
    case True
    obtain call d where c: "select_step 0 r cur (tables s) = Inr (Some call, d)"
      using select_step_sends [OF f z size] by blast
    note sc = select_step_call(1) [OF fleet_rankedD(3) [OF f] c]
    let ?s' = "s\<lparr>tables := d, tasks :=
      add_mset (InFlight call) (add_mset (Selecting who r (cur + UID_COUNT_PER_TIME)) M)\<rparr>"
    have "select_turn 0 who r cur (drop_task (Selecting who r cur) s) = Inr ?s'"
      using True c M by (simp add: select_turn_def drop_task_def)
    with sel have st: "sys_step sp (Select 0 who r cur) s ?s'" by (intro sys_step.select) simp_all
    have "can_progress ?s'"
      by (rule can_progress_step [OF p st])
        (use M_fits e True sc c select_keys [OF fleet_rankedD(3) [OF f] c] in
          \<open>auto simp: push_event_def chunk_fits\<close>)
    moreover have "work ?s' < work s" using M sends_left_chunk [OF e True] by (simp add: work_def)
    ultimately show ?thesis using st by blast
  qed
qed

lemma progress_step:
  assumes "can_progress s" and "tasks s \<noteq> {#}"
  shows "\<exists>ev s'. push_event ev \<and> sys_step sp ev s s' \<and> can_progress s' \<and> work s' < work s"
proof (cases "\<exists>t \<in># tasks s. outstanding t")
  case True
  then obtain t where t: "t \<in># tasks s" "outstanding t" by blast
  show ?thesis
  proof (cases t)
    case (Selecting who r cur)
    with t show ?thesis by simp
  next
    case (InFlight c)
    then have "push_event (Complete c True True SUCCESS)" by (simp add: push_event_def)
    with t InFlight progress_complete [OF assms(1), of c sp] show ?thesis by blast
  next
    case (FailedCall c)
    then have "push_event (Resume c)" by (simp add: push_event_def)
    with t FailedCall progress_resume [OF assms(1), of c sp] show ?thesis by blast
  qed
next
  case False
  obtain t where t: "t \<in># tasks s" using assms(2) by (meson multiset_nonemptyE)
  with False obtain who r cur where "t = Selecting who r cur" by (cases t) auto
  moreover have "push_event (Select 0 who r cur)" by (simp add: push_event_def)
  ultimately show ?thesis using t False progress_select [OF assms(1), of who r cur sp] by blast
qed

section \<open>All work can be finished\<close>

lemma run_fleet_event: "push_event ev \<Longrightarrow> fleet_event ev s"
  by (cases ev) (simp_all add: fleet_event_def push_event_def)

lemma progress_run:
  assumes "can_progress s" and "run sp fleet_event evs s"
  shows "\<exists>evs' s'. list_all push_event evs' \<and> run sp fleet_event (evs @ evs') s' \<and> tasks s' = {#}"
  using assms
proof (induction "work s" arbitrary: s evs rule: less_induct)
  case less
  show ?case
  proof (cases "tasks s = {#}")
    case True
    have "list_all push_event [] \<and> run sp fleet_event (evs @ []) s \<and> tasks s = {#}"
      using True less.prems(2) by simp
    then show ?thesis by blast
  next
    case False
    then obtain ev t where t: "push_event ev" "sys_step sp ev s t" "can_progress t" "work t < work s"
      using progress_step [OF less.prems(1)] by blast
    have "run sp fleet_event (evs @ [ev]) t"
      using less.prems(2) run_fleet_event [OF t(1)] t(2) by (rule run_step)
    then obtain evs' s' where "list_all push_event evs'" "run sp fleet_event ((evs @ [ev]) @ evs') s'" "tasks s' = {#}"
      using less.hyps [OF t(4,3)] by blast
    with t(1) have "list_all push_event (ev # evs') \<and> run sp fleet_event (evs @ ev # evs') s' \<and> tasks s' = {#}"
      by simp
    then show ?thesis by blast
  qed
qed

lemma push_event_facts: "push_event ev \<Longrightarrow> event_fits ev \<and> asked_by ev = {#}"
  by (cases ev) (simp_all add: push_event_def event_fits_def asked_by_def)

lemma asked_push_events: "list_all push_event evs' \<Longrightarrow> asked_uids (evs @ evs') = asked_uids evs"
  by (induction evs') (simp_all add: asked_uids_def push_event_facts)

lemma fits_push_events: "list_all push_event evs \<Longrightarrow> list_all event_fits evs"
  by (auto simp: list_all_iff push_event_facts)

end
