(* ===== verification/DispatchFacts.thy ===== *)
theory DispatchFacts
  imports DaemonInvariants
begin

text \<open>
  Facts on single operations of the daemon that its properties rest on: what the liveness
  pass and the circuit breaker remove, where a drawn rank falls, when an iteration of the
  sending loop waits, and what \<^verbatim>\<open>parseAndGetIp\<close> reads from a peer string.
\<close>

section \<open>Removal of servers\<close>

lemma Rebalance_gone:
  assumes "om_ok (gSvrId2ProducerState d)" and "k \<notin> dom (prod_of d)" and "k \<notin> dom (info_of d)"
  shows "k \<notin> dom (prod_of (Rebalance d))" and "k \<notin> ranked (Rebalance d)"
  using assms Rebalance_ranked [of d] Rebalance_prod_dom [OF assms(1)] by auto

text \<open>\<open>gone k d\<close>: no table knows the server \<open>k\<close>.\<close>

definition gone :: "u64 \<Rightarrow> daemon \<Rightarrow> bool" where
  "gone k d \<longleftrightarrow> k \<notin> dom (info_of d) \<and> k \<notin> dom (prod_of d) \<and> k \<notin> idle d \<and> k \<notin> ranked d"

lemma gone_drop: "tables_ok d \<Longrightarrow> gone k (Rebalance (drop_producer k d))"
  using Rebalance_gone [of "drop_producer k d" k] tables_okD [of d]
  by (simp add: gone_def drop_producer_def om.dom_erase om.ok_erase)

lemma gone_drop_other: "tables_ok d \<Longrightarrow> gone k d \<Longrightarrow> gone k (Rebalance (drop_producer j d))"
  using Rebalance_gone [of "drop_producer j d" k] tables_okD [of d]
  by (simp add: gone_def drop_producer_def om.dom_erase om.ok_erase)

lemma gone_erase_info: "gone k d \<Longrightarrow> gone k (d\<lparr>gSvrId2SvrInfo := om_erase j (gSvrId2SvrInfo d)\<rparr>)"
  by (simp add: gone_def om.dom_erase)

lemma gone_sweep_loop: "daemon_ok d \<Longrightarrow> gone k d \<Longrightarrow> gone k (sweep_loop now l d)"
proof (induction l arbitrary: d)
  case Nil
  then show ?case by simp
next
  case (Cons p l)
  have "daemon_ok (Rebalance (drop_producer (fst p) d))"
    using Cons.prems(1) by (simp add: Rebalance_ok drop_producer_tables daemon_okD)
  then show ?case
    using Cons gone_drop_other [OF daemon_okD(1) [OF Cons.prems(1)] Cons.prems(2)]
    by (cases p) (simp add: sweep_loop_Cons gone_erase_info daemon_ok_erase_info del: sweep_loop.simps)
qed

lemma sweep_loop_gone:
  "daemon_ok d \<Longrightarrow> (k, i) \<in> set l \<Longrightarrow> late now i \<Longrightarrow> procName i = ''producer'' \<Longrightarrow>
    gone k (sweep_loop now l d)"
proof (induction l arbitrary: d)
  case Nil
  then show ?case by simp
next
  case (Cons p l)
  have ok: "daemon_ok (Rebalance (drop_producer (fst p) d))"
    using Cons.prems(1) by (simp add: Rebalance_ok drop_producer_tables daemon_okD)
  show ?case
  proof (cases "p = (k, i)")
    case True
    have "gone k (Rebalance (drop_producer k d))"
      using Cons.prems(1) by (intro gone_drop daemon_okD)
    with ok True Cons.prems(3,4) show ?thesis
      by (simp add: sweep_loop_Cons gone_sweep_loop del: sweep_loop.simps)
  next
    case False
    with Cons ok show ?thesis
      by (cases p) (auto simp: sweep_loop_Cons daemon_ok_erase_info simp del: sweep_loop.simps)
  qed
qed

lemma gone_reset: "gone k (reset_fail_counts d) = gone k d"
  by (simp add: gone_def)

section \<open>The circuit breaker, many times\<close>

lemma breaker_counts:
  assumes "prod_of d k = Some p" and "failCount p + 1 \<le> FAIL_COUNT_LIMIT"
  shows "circuit_breaker k d =
    d\<lparr>gSvrId2ProducerState := om_modify k (\<lambda>p. p\<lparr>failCount := failCount p + 1\<rparr>) (gSvrId2ProducerState d)\<rparr>"
  using assms by (auto simp: circuit_breaker_eq)

lemma breaker_trips:
  assumes "tables_ok d" and "prod_of d k = Some p" and "failCount p = FAIL_COUNT_LIMIT"
  shows "gone k (circuit_breaker k d)"
  using assms gone_drop [OF assms(1)] by (simp add: circuit_breaker_eq FAIL_COUNT_LIMIT_def)

lemma om_modify_twice: "om_modify k f (om_modify k g m) = om_modify k (f \<circ> g) m"
  by (simp add: om_modify_def comp_def case_prod_unfold)

text \<open>\<open>n\<close> failures in a row, none above the limit, only count up.\<close>

lemma breaker_power:
  assumes "prod_of d k = Some p" and "failCount p = 0" and "n \<le> 50"
  shows "(circuit_breaker k ^^ n) d = d\<lparr>gSvrId2ProducerState :=
      om_modify k (\<lambda>p. p\<lparr>failCount := failCount p + word_of_nat n\<rparr>) (gSvrId2ProducerState d)\<rparr>"
  using assms(3)
proof (induction n)
  case 0
  then show ?case by (simp add: om_modify_def)
next
  case (Suc n)
  let ?d = "d\<lparr>gSvrId2ProducerState :=
      om_modify k (\<lambda>p. p\<lparr>failCount := failCount p + word_of_nat n\<rparr>) (gSvrId2ProducerState d)\<rparr>"
  have p: "prod_of ?d k = Some (p\<lparr>failCount := word_of_nat n\<rparr>)"
    using assms(1,2) by (simp add: om.find_modify)
  have "unat (word_of_nat n + 1 :: u32) = Suc n"
    using Suc.prems by (simp add: unat_word_ariths unat_of_nat take_bit_nat_eq_self)
  then have "word_of_nat n + 1 \<le> FAIL_COUNT_LIMIT"
    using Suc.prems by (simp add: word_le_nat_alt FAIL_COUNT_LIMIT_def)
  then have "circuit_breaker k ?d = ?d\<lparr>gSvrId2ProducerState :=
      om_modify k (\<lambda>p. p\<lparr>failCount := failCount p + 1\<rparr>) (gSvrId2ProducerState ?d)\<rparr>"
    by (intro breaker_counts [OF p]) simp
  with Suc show ?case by (simp add: om_modify_twice comp_def ac_simps)
qed

section \<open>Where a draw falls\<close>

lemma lower_bound_bracket:
  assumes "sorted_wrt (<) (map fst m)" and "om_lower_bound x m = Some (r, k)"
  shows "\<exists>n < length m. m ! n = (r, k) \<and> x \<le> r \<and> (\<forall>j < n. fst (m ! j) < x)"
  using assms
proof (induction m)
  case Nil
  then show ?case by (simp add: om_lower_bound_def)
next
  case (Cons a m)
  show ?case
  proof (cases "x \<le> fst a")
    case True
    with Cons.prems(2) have "a = (r, k)" by (simp add: om_lower_bound_def)
    with True show ?thesis by (intro exI [of _ 0]) auto
  next
    case False
    with Cons obtain n where "n < length m" "m ! n = (r, k)" "x \<le> r" "\<forall>j < n. fst (m ! j) < x"
      by (auto simp: om_lower_bound_def)
    with False show ?thesis
      by (intro exI [of _ "Suc n"]) (auto simp: nth_Cons not_le split: nat.splits)
  qed
qed

lemma length_prefix_ranks [simp]: "length (prefix_ranks r l) = length l"
  by (induction r l rule: prefix_ranks.induct) (simp_all add: Let_def)

lemma prefix_ranks_nth:
  "n < length l \<Longrightarrow> prefix_ranks r l ! n = (foldl dadd r (map (score \<circ> snd) (take (Suc n) l)), fst (l ! n))"
  by (induction r l arbitrary: n rule: prefix_ranks.induct)
    (auto simp: Let_def nth_Cons split: nat.splits)

section \<open>When the loop waits\<close>

lemma select_step_wait_iff:
  assumes "fleet_ranked d" and "unat draw \<le> 10000"
  shows "select_step draw r cur d = Inr (None, d) \<longleftrightarrow>
    gSetIdleProducer d = [] \<and> (3 * producerSize d < sendingCount d \<or> producerSize d = 0)"
proof -
  have "(\<exists>call d'. select_step draw r cur d = Inr (Some call, d')) \<longleftrightarrow>
      \<not> (gSetIdleProducer d = [] \<and> (3 * producerSize d < sendingCount d \<or> producerSize d = 0))"
    using select_step_defined [OF assms, of r cur]
    by (auto simp: select_step_def Let_def defined_iff not_le
        split: option.splits sum.splits prod.splits)
  moreover obtain res d' where "select_step draw r cur d = Inr (res, d')"
    using select_step_defined [OF assms, of r cur] by (auto simp: defined_iff)
  ultimately show ?thesis
    using select_step_None [OF fleet_rankedD(3) [OF assms(1)], of draw r cur d'] by (cases res) auto
qed

section \<open>Peers\<close>

lemma colon_free_split:
  "CHR '':'' \<notin> set s \<Longrightarrow> CHR '':'' \<notin> set t \<Longrightarrow> s @ CHR '':'' # x = t @ CHR '':'' # y \<Longrightarrow> s = t \<and> x = y"
  by (induction s arbitrary: t) (auto simp: Cons_eq_append_conv append_eq_Cons_conv)

lemma join_colon_colon_free: "CHR '':'' \<notin> set (join_colon ts) \<Longrightarrow> ts \<noteq> [] \<Longrightarrow> ts = [join_colon ts]"
  by (cases ts rule: join_colon.cases) auto

text \<open>Colon-free tokens are determined by the string they join to.\<close>

lemma join_colon_inj:
  assumes "\<forall>t \<in> set ts. CHR '':'' \<notin> set t" and "\<forall>t \<in> set us. CHR '':'' \<notin> set t"
    and "ts \<noteq> []" and "us \<noteq> []" and "join_colon ts = join_colon us"
  shows "ts = us"
  using assms
proof (induction ts arbitrary: us rule: join_colon.induct)
  case 1
  then show ?case by simp
next
  case (2 s)
  then show ?case using join_colon_colon_free [of us] by simp
next
  case (3 s t rest)
  obtain u us' where us: "us = u # us'" using 3(5) by (cases us) auto
  show ?case
  proof (cases us')
    case Nil
    then have "CHR '':'' \<in> set u" using 3(6) us by (metis in_set_conv_decomp join_colon.simps(2,3))
    then show ?thesis using 3(3) us by simp
  next
    case (Cons v vs)
    have "s = u \<and> join_colon (t # rest) = join_colon us'"
      using 3(2,3,6) us Cons by (intro colon_free_split) simp_all
    with 3(1) [of us'] 3(2,3) us Cons show ?thesis by simp
  qed
qed

lemma split_unique:
  "splits_at_colons sp \<Longrightarrow> ts \<noteq> [] \<Longrightarrow> \<forall>t \<in> set ts. CHR '':'' \<notin> set t \<Longrightarrow> sp (join_colon ts) = ts"
  by (rule join_colon_inj) (auto simp: splits_at_colons_def)

end
