(* ===== verification/DaemonProps.thy ===== *)
theory DaemonProps
  imports Scenarios Progress DispatchFacts
begin

text \<open>
  The properties of the daemon as a running system, each with a run at which it is applied.
\<close>

section \<open>Safety of every run\<close>

text \<open>
  C3: conservation of user ids. In every interleaving of the daemon's threads, the user ids that
  pushes asked for are, with multiplicity, those confirmed by a producer plus those still to
  be sent or not yet answered; when no task is left, exactly what was asked is confirmed. The
  guard asks that the range of each push ends below \<open>2 ^ 64 - 4096\<close>.
\<close>

theorem push_conservation:
  assumes "run sp G evs s" and "list_all event_fits evs"
  shows "pending_uids s + confirmed_uids evs = asked_uids evs \<and>
    (tasks s = {#} \<longrightarrow> confirmed_uids evs = asked_uids evs)"
  using uids_inv.inv_run [OF assms(1)] assms(2) by (auto simp: uids_kept_def pending_uids_def)

theorem push_conservation_witness:
  "pending_uids demo_state + confirmed_uids demo_events = asked_uids demo_events"
proof -
  have "list_all event_fits demo_events"
    by (simp add: demo_events_def event_fits_def fits_def demo_push_def)
  with demo_run show ?thesis using push_conservation by blast
qed

text \<open>
  C6: no undefined behaviour in a fleet of producers. When only producers register and no load
  report is negative, a thread inside \<^verbatim>\<open>SelectProducerAndSend\<close> can always take its next
  turn, whatever number is drawn: no null stub, no end iterator and no empty map is
  dereferenced, and the state after the turn is such a state again.
\<close>

theorem fleet_no_undefined_behaviour:
  assumes "run sp fleet_event evs s" and "Selecting who r cur \<in># tasks s" and "unat draw \<le> 10000"
  shows "\<exists>s'. sys_step sp (Select draw who r cur) s s' \<and>
    run sp fleet_event (evs @ [Select draw who r cur]) s'"
proof -
  obtain s' where "sys_step sp (Select draw who r cur) s s'"
    using fleet_select_enabled [OF fleet_inv.inv_run [OF assms(1)] assms(2,3)] by blast
  then show ?thesis using run_step [OF assms(1), of "Select draw who r cur" s'] by (auto simp: fleet_event_def)
qed

theorem fleet_no_undefined_behaviour_witness:
  "\<exists>s'. sys_step split_colon (Select 7777 ByBeginPush demo_request 8192) demo_state s'"
proof -
  have "Selecting ByBeginPush demo_request 8192 \<in># tasks demo_state" "unat (7777 :: u32) \<le> 10000"
    by (simp_all add: demo_state_def)
  then show ?thesis using fleet_no_undefined_behaviour [OF demo_run_fleet] by blast
qed

text \<open>
  The global \<^verbatim>\<open>sendingCount\<close> is, modulo \<open>2 ^ 32\<close>, the number of calls that were sent and
  whose answer or failure has not been handled to the end.
\<close>

theorem sending_count_exact:
  assumes "run sp G evs s"
  shows "sendingCount (tables s) =
    word_of_nat (size {#t \<in># tasks s. case t of Selecting _ _ _ \<Rightarrow> False | _ \<Rightarrow> True#})"
proof -
  have "(\<lambda>t. case t of Selecting _ _ _ \<Rightarrow> False | _ \<Rightarrow> True) = outstanding"
    by (auto simp: outstanding_def fun_eq_iff split: task.splits)
  then show ?thesis
    using count_inv.inv_run [OF assms] by (simp add: count_exact_def unanswered_def)
qed

theorem sending_count_exact_witness: "sendingCount (tables demo_state) = 1"
  using sending_count_exact [OF demo_run] by (simp add: demo_state_def)

text \<open>
  C14: the tables agree in every run: they are sorted without duplicates, the idle producers and
  the servers with a rank are keys of \<^verbatim>\<open>gSvrId2ProducerState\<close>, so that
  \<^verbatim>\<open>gSvrId2ProducerState[svrId]\<close> in the dispatch never creates an entry.
\<close>

theorem tables_agree:
  assumes "run sp G evs s"
  shows "sorted_wrt (<) (map fst (gSvrId2SvrInfo (tables s))) \<and>
    sorted_wrt (<) (map fst (gRank2SvrId (tables s))) \<and>
    idle (tables s) \<union> ranked (tables s) \<subseteq> dom (prod_of (tables s))"
  using ok_inv.inv_run [OF assms] by (simp add: daemon_ok_def tables_ok_def ranks_ok_def om_ok_def)

theorem tables_agree_witness: "idle (tables demo_state) \<subseteq> {5, 6}"
  using tables_agree [OF demo_run] by (auto simp: demo_state_def)

text \<open>
  C9: while no server id is given to a new server as long as a call to its previous owner is
  unanswered, \<^verbatim>\<open>curTaskCount\<close> of every producer is, modulo \<open>2 ^ 32\<close>, the number of calls
  to it that are not handled to the end.
\<close>

theorem task_count_exact:
  assumes "run sp fresh_event evs s" and "prod_of (tables s) k = Some p"
  shows "curTaskCount p = word_of_nat (size {#t \<in># tasks s.
    case t of Selecting _ _ _ \<Rightarrow> False | InFlight c \<Rightarrow> call_svrId c = k | FailedCall c \<Rightarrow> call_svrId c = k#})"
  using tally_inv.inv_run [OF assms(1)] tallyD(1) [of "tables s" "in_hand s" k p] assms(2)
  by (simp add: tasks_counted_def in_hand_def sent_to_def [abs_def])

theorem task_count_exact_witness:
  "\<exists>p. prod_of (tables demo_state) 6 = Some p \<and> curTaskCount p = 1"
proof -
  obtain p where p: "prod_of (tables demo_state) 6 = Some p" by (simp add: demo_state_def)
  then have "curTaskCount p = 1"
    using task_count_exact [OF demo_run_fresh p] by (simp add: demo_state_def demo_call_def)
  with p show ?thesis by blast
qed

section \<open>Progress\<close>

text \<open>
  A push can always be finished. From every state of a fleet with at least one (and less
  than \<open>2 ^ 32\<close>) producers, some sequence of turns of the sending loops, good answers and
  resumed failures leaves no task, and then every user id that was asked for is confirmed,
  as often as it was asked for.
\<close>

theorem push_can_finish:
  assumes "run sp fleet_event evs s" and "list_all event_fits evs"
    and "gSvrId2ProducerState (tables s) \<noteq> []" and "length (gSvrId2ProducerState (tables s)) < 2 ^ 32"
  shows "\<exists>evs' s'. list_all push_event evs' \<and> run sp fleet_event (evs @ evs') s' \<and>
    tasks s' = {#} \<and> confirmed_uids (evs @ evs') = asked_uids evs"
proof -
  have "can_progress s"
    using fleet_inv.inv_run [OF assms(1)] count_inv.inv_run [OF assms(1)]
      uids_inv.inv_run [OF assms(1)] assms(2-4)
    by (auto simp: can_progress_def uids_kept_def)
  then obtain evs' s' where r: "list_all push_event evs'" "run sp fleet_event (evs @ evs') s'" "tasks s' = {#}"
    using progress_run assms(1) by blast
  have "pending_uids s' + confirmed_uids (evs @ evs') = asked_uids (evs @ evs')"
    using uids_inv.inv_run [OF r(2)] assms(2) fits_push_events [OF r(1)] by (simp add: uids_kept_def)
  then have "confirmed_uids (evs @ evs') = asked_uids evs"
    using r(3) asked_push_events [OF r(1), of evs] by (simp add: pending_uids_def)
  with r show ?thesis by blast
qed

theorem push_can_finish_witness:
  "\<exists>evs' s'. run split_colon fleet_event (demo_events @ evs') s' \<and> tasks s' = {#}"
proof -
  have "list_all event_fits demo_events"
    by (simp add: demo_events_def event_fits_def fits_def demo_push_def)
  then show ?thesis using push_can_finish [OF demo_run_fleet] by (auto simp: demo_state_def)
qed

text \<open>
  C18: a push whose \<^verbatim>\<open>end_uid\<close> is \<open>2 ^ 64 - 1\<close> is never answered: no step of any thread makes
  the loop of \<^verbatim>\<open>SelectProducerAndSend\<close> leave, because \<^verbatim>\<open>curUid <= end_uid\<close> holds of every
  value \<^verbatim>\<open>curUid\<close> can have.
\<close>

theorem endless_push:
  assumes "sys_step sp ev s s'" and "end_uid r = - 1" and "Selecting who r cur \<in># tasks s"
  shows "\<exists>cur'. Selecting who r cur' \<in># tasks s'"
  using assms(1)
proof (cases rule: sys_step.cases)
  case (select who' r' cur' draw)
  have keep: "Selecting who r cur \<in># tasks s - {#Selecting who' r' cur'#} \<or> (who' = who \<and> r' = r \<and> cur' = cur)"
    using assms(3) by (cases "Selecting who r cur = Selecting who' r' cur'") (simp_all add: in_drop_other [OF assms(3)])
  have "cur \<le> end_uid r" using assms(2) by simp
  from select(4) show ?thesis
    by (cases rule: select_turn_cases) (use keep \<open>cur \<le> end_uid r\<close> in auto)
next
  case (complete c ok st err)
  have "Selecting who r cur \<in># tasks s - {#InFlight c#}" by (simp add: in_drop_other [OF assms(3)])
  with complete(3) show ?thesis by (elim HandleAsyncCall_cases) auto
next
  case (resume c)
  have "Selecting who r cur \<in># tasks s - {#FailedCall c#}" by (simp add: in_drop_other [OF assms(3)])
  with resume show ?thesis by auto
qed (use assms(3) in auto)

theorem endless_push_witness:
  "case exec_event split_colon
      (Select 0 ByBeginPush \<lparr>msg_id = 1, start_uid = 0, end_uid = - 1\<rparr> 18446744073709547520)
      (demo_state\<lparr>tasks := {#Selecting ByBeginPush \<lparr>msg_id = 1, start_uid = 0, end_uid = - 1\<rparr> 18446744073709547520#}\<rparr>)
    of None \<Rightarrow> False
     | Some s \<Rightarrow> \<exists>cur. Selecting ByBeginPush \<lparr>msg_id = 1, start_uid = 0, end_uid = - 1\<rparr> cur \<in># tasks s"
proof -
  let ?r = "\<lparr>msg_id = 1, start_uid = 0, end_uid = - 1\<rparr>"
  let ?ev = "Select 0 ByBeginPush ?r 18446744073709547520"
  let ?s = "demo_state\<lparr>tasks := {#Selecting ByBeginPush ?r 18446744073709547520#}\<rparr>"
  have "case exec_event split_colon ?ev ?s of None \<Rightarrow> False | Some _ \<Rightarrow> True" by code_simp
  then obtain s where s: "exec_event split_colon ?ev ?s = Some s" by (auto split: option.splits)
  then have "sys_step split_colon ?ev ?s s" by (simp only: exec_event_iff)
  from endless_push [OF this, of ?r ByBeginPush] s show ?thesis by simp
qed

section \<open>Defects of the interleavings\<close>




end
