(* ===== verification/HandlerProps.thy ===== *)
theory HandlerProps
  imports Scenarios DispatchFacts
begin

text \<open>
  The choice of the daemon: which producer gets the next chunk of a push, and when the loop of
  \<^verbatim>\<open>SelectProducerAndSend\<close> waits.
\<close>

section \<open>The choice of a producer\<close>

text \<open>
  C11: the weighted choice. When no producer is idle and the ranks are those \<^verbatim>\<open>Rebalance\<close> makes of a
  registry whose running score sums increase strictly, the chunk goes to the registered server
  at the position where the running sum first reaches the drawn number: the sum over the
  servers before it is below the number, its own sum is not.
\<close>

theorem weighted_choice:
  assumes "daemon_ok d" and "gSetIdleProducer d = []"
    and "gRank2SvrId d = gRank2SvrId (Rebalance d)"
    and "sorted_wrt (<) (map fst (prefix_ranks 0 (gSvrId2SvrInfo d)))"
    and "select_step draw r cur d = Inr (Some call, d')"
  shows "\<exists>n < length (gSvrId2SvrInfo d). call_svrId call = fst (gSvrId2SvrInfo d ! n) \<and>
    (let total = (\<lambda>m. foldl dadd 0 (map (score \<circ> snd) (take m (gSvrId2SvrInfo d))));
         x = random_rank draw (total (length (gSvrId2SvrInfo d)))
     in x \<le> total (Suc n) \<and> (\<forall>j < n. total (Suc j) < x))"
  using assms(1,5)
proof (cases rule: select_step_cases)
  case (idle k p)
  with assms(2) show ?thesis by simp
next
  case (ranked k p maxRank i rk)
  let ?l = "gSvrId2SvrInfo d"
  have m: "gRank2SvrId d = prefix_ranks 0 ?l"
    using assms(3) Rebalance_increasing [OF assms(4)] by simp
  have ne: "?l \<noteq> []" using ranked(3) m by auto
  have "last (prefix_ranks 0 ?l) = (maxRank, i)"
    using ranked(3) unfolding m by (simp add: om_rbegin_def split: if_splits)
  then have mx: "maxRank = foldl dadd 0 (map (score \<circ> snd) ?l)"
    using ne by (simp add: last_conv_nth prefix_ranks_nth)
  obtain n where n: "n < length ?l" "prefix_ranks 0 ?l ! n = (rk, k)" "random_rank draw maxRank \<le> rk"
    "\<forall>j < n. fst (prefix_ranks 0 ?l ! j) < random_rank draw maxRank"
    using lower_bound_bracket [OF assms(4) ranked(4) [unfolded m]] by auto
  show ?thesis
    using n ranked(7) by (intro exI [of _ n]) (simp add: mx [symmetric] Let_def prefix_ranks_nth)
qed (use assms in simp)

definition busy_daemon :: daemon where
  "busy_daemon = (tables demo_state)\<lparr>gSetIdleProducer := []\<rparr>"

lemma busy_daemon_ok: "daemon_ok busy_daemon"
  unfolding busy_daemon_def
  by (intro daemon_ok_set_idle ok_inv.inv_run [OF demo_run]) simp_all

lemma busy_draw: "random_rank 7500 20 = 15"
proof -
  have "dmul (ddiv 7500 10000) 20 = 15" by code_simp
  then show ?thesis by (simp add: random_rank_def)
qed

theorem weighted_choice_witness:
  "\<exists>call d'. select_step 7500 demo_request 0 busy_daemon = Inr (Some call, d') \<and> call_svrId call = 6"
proof -
  have "\<exists>call d'. select_step 7500 demo_request 0 busy_daemon = Inr (Some call, d')"
    by (simp add: select_step_def Let_def busy_daemon_def demo_state_def busy_draw om_rbegin_def
        om_begin_def om_lower_bound_def producerSize_def send_to_def om_index_def om_modify_def ProduceMsg_call_def)
  then obtain call d' where s: "select_step 7500 demo_request 0 busy_daemon = Inr (Some call, d')" by blast
  have i: "gSetIdleProducer busy_daemon = []" by (simp add: busy_daemon_def)
  have r: "gRank2SvrId busy_daemon = gRank2SvrId (Rebalance busy_daemon)" by code_simp
  have o1: "sorted_wrt (<) (map fst (prefix_ranks 0 (gSvrId2SvrInfo busy_daemon)))" by code_simp
  have l: "gSvrId2SvrInfo busy_daemon = [(5, demo_info), (6, demo_info)]" "score demo_info = 10"
    by (simp_all add: busy_daemon_def demo_state_def demo_info_def)
  have "dadd 0 10 = 10" "dadd 10 10 = 20" by code_simp+
  then have "call_svrId call = 6"
    using weighted_choice [OF busy_daemon_ok i r o1 s]
    by (auto simp: l Let_def busy_draw less_2_cases_iff numeral_2_eq_2 less_Suc_eq)
  with s show ?thesis by blast
qed

text \<open>
  C10: one iteration of the sending loop in a fleet. It waits exactly when nobody is idle and
  either more than three calls per producer are unanswered or there is no producer. Otherwise
  it makes one call, for the chunk from \<^verbatim>\<open>curUid\<close> of at most 4096 ids that does not pass
  \<^verbatim>\<open>end_uid\<close>, to the least idle producer if there is one, which is idle no longer; the called
  producer and the daemon each count one task more.
\<close>

theorem dispatch_iteration:
  assumes "fleet_ranked d" and "unat draw \<le> 10000" and "fits (end_uid r)" and "cur \<le> end_uid r"
  shows "\<exists>res d'. select_step draw r cur d = Inr (res, d') \<and> (case res of
      None \<Rightarrow> d' = d \<and> gSetIdleProducer d = [] \<and> (3 * producerSize d < sendingCount d \<or> producerSize d = 0)
    | Some call \<Rightarrow>
        \<not> (gSetIdleProducer d = [] \<and> (3 * producerSize d < sendingCount d \<or> producerSize d = 0)) \<and>
        start_uid (call_request call) = cur \<and> msg_id (call_request call) = msg_id r \<and>
        unat (end_uid (call_request call)) = min (unat (end_uid r)) (unat cur + 4095) \<and>
        (idle d \<noteq> {} \<longrightarrow> call_svrId call \<in> idle d \<and> (\<forall>k \<in> idle d. call_svrId call \<le> k) \<and>
           idle d' = idle d - {call_svrId call}) \<and>
        sendingCount d' = sendingCount d + 1 \<and>
        prod_of d' = (prod_of d)(call_svrId call :=
          map_option (\<lambda>p. p\<lparr>curTaskCount := curTaskCount p + 1\<rparr>) (prod_of d (call_svrId call))))"
proof -
  note ok = fleet_rankedD(3) [OF assms(1)] and tok = daemon_ok_tables [OF fleet_rankedD(3) [OF assms(1)]]
  obtain res d' where s: "select_step draw r cur d = Inr (res, d')"
    using select_step_defined [OF assms(1,2), of r cur] by (auto simp: defined_iff)
  note w = select_step_wait_iff [OF assms(1,2), of r cur]
  have c: "unat (end_uid (chunk r cur)) = min (unat (end_uid r)) (unat cur + 4095)"
    using chunk_end_small(1) [OF assms(3) [unfolded fits_def] assms(4)] by (simp add: chunk_def)
  have e: "idle d = {} \<longleftrightarrow> gSetIdleProducer d = []" by (simp add: om_dom)
  from ok s show ?thesis
  proof (cases rule: select_step_cases)
    case (idle k p)
    have "(k, ()) \<in> set (gSetIdleProducer d)" "\<forall>q \<in> set (gSetIdleProducer d). k \<le> fst q"
      using om_begin_least [OF tok(3) idle(1)] by auto
    then have "k \<in> idle d" and "\<forall>j \<in> idle d. k \<le> j" unfolding om_dom by force+
    moreover from this have "gSetIdleProducer d \<noteq> []" by auto
    ultimately show ?thesis
      using s c idle(4,5) by (auto simp: chunk_def om.dom_erase om.find_modify fun_eq_iff)
  next
    case (ranked k p maxRank i rk)
    with s w c e show ?thesis by (auto simp: chunk_def om.find_modify fun_eq_iff)
  next
    case wait
    with s w show ?thesis by auto
  qed
qed

theorem dispatch_iteration_witness:
  "\<exists>call d'. select_step 0 demo_request 4096 (tables demo_state) = Inr (Some call, d') \<and>
    call_svrId call = 5 \<and> unat (end_uid (call_request call)) = 8191"
proof -
  have f: "fleet_ranked (tables demo_state)" by (rule fleet_inv.inv_run [OF demo_run_fleet])
  have e: "fits (end_uid demo_request)" "4096 \<le> end_uid demo_request"
    by (simp_all add: fits_def demo_request_def)
  have i: "idle (tables demo_state) = {5}" "gSetIdleProducer (tables demo_state) \<noteq> []"
    by (simp_all add: demo_state_def)
  show ?thesis
    using dispatch_iteration [OF f _ e, of 0] i by (auto simp: demo_request_def split: option.splits)
qed

end
