(* ===== verification/RocketMq.thy ===== *)
theory RocketMq
  imports Prelude Binary64
begin

text \<open>
  \<^verbatim>\<open>common/rocketmq.h\<close> and \<^verbatim>\<open>common/rocketmq.cpp\<close>: the counter of sent or consumed messages with its
  report thread, and the command line options of the RocketMQ processes.
\<close>

section \<open>TpsReportService\<close>

definition TPS_INTERVAL :: u32 where "TPS_INTERVAL = 10"

text \<open>\<^verbatim>\<open>tps_count_\<close> is a \<^verbatim>\<open>long\<close>, which ten seconds of messages do not overflow.\<close>

record tps =
  tpsCount :: int
  totalCount :: u64
  avgSpeed :: double

definition TpsReportService :: tps where
  "TpsReportService = \<lparr>tpsCount = 0, totalCount = 0, avgSpeed = 0\<rparr>"

definition Increment :: "tps \<Rightarrow> tps" where
  "Increment t = t\<lparr>tpsCount := tpsCount t + 1\<rparr>"

text \<open>
  A turn of \<^verbatim>\<open>TpsReport\<close> reads the count, and resets it at its end; other threads count meanwhile,
  so the turn is two steps.
\<close>

definition TpsReport_sum :: "tps \<Rightarrow> tps" where
  "TpsReport_sum t =
     (let c = tpsCount t in
      t\<lparr>totalCount := totalCount t + word_of_int c,
        avgSpeed := if c = 0 then 0 else ddiv (dmul 1000 (of_nat (unat TPS_INTERVAL))) (fl64 (of_int c))\<rparr>)"

definition TpsReport_reset :: "tps \<Rightarrow> tps" where
  "TpsReport_reset t = t\<lparr>tpsCount := 0\<rparr>"

text \<open>
  The service with its thread: \<^verbatim>\<open>start\<close> makes the thread, which tests the flag, sleeps, sums and resets;
  the destructor sets the flag and joins. It dereferences the pointer to the thread, which is null where
  \<^verbatim>\<open>start\<close> was never called; \<open>Some\<close> of the service: the join is over.
\<close>

datatype tps_thread = Testing | Sleeping | Resetting | Ended

record tps_service =
  counter :: tps
  quitFlag :: bool
  tpsThread :: "tps_thread option"

definition TpsReport_start :: "tps_service \<Rightarrow> tps_service" where
  "TpsReport_start s = s\<lparr>tpsThread := Some Testing\<rparr>"

definition TpsReport_turn :: "tps_service \<Rightarrow> tps_service" where
  "TpsReport_turn s =
     (case tpsThread s of
        Some Testing \<Rightarrow> s\<lparr>tpsThread := Some (if quitFlag s then Ended else Sleeping)\<rparr>
      | Some Sleeping \<Rightarrow> s\<lparr>counter := TpsReport_sum (counter s), tpsThread := Some Resetting\<rparr>
      | Some Resetting \<Rightarrow> s\<lparr>counter := TpsReport_reset (counter s), tpsThread := Some Testing\<rparr>
      | _ \<Rightarrow> s)"

definition TpsReport_quit :: "tps_service \<Rightarrow> tps_service" where
  "TpsReport_quit s = s\<lparr>quitFlag := True\<rparr>"

definition TpsReport_join :: "tps_service \<Rightarrow> tps_service option ub_or" where
  "TpsReport_join s =
     (case tpsThread s of None \<Rightarrow> Inl NullDeref
      | Some t \<Rightarrow> Inr (if t = Ended then Some (s\<lparr>tpsThread := None\<rparr>) else None))"

text \<open>After the flag is set the thread ends within one round, so the join returns.\<close>

lemma join_returns:
  assumes "tpsThread s \<noteq> None"
  shows "\<exists>n \<le> 3. \<exists>s'. TpsReport_join ((TpsReport_turn ^^ n) (TpsReport_quit s)) = Inr (Some s')"
proof -
  have ends: "TpsReport_join ((TpsReport_turn ^^ n) (TpsReport_quit s)) =
      Inr (Some ((TpsReport_turn ^^ n) (TpsReport_quit s)\<lparr>tpsThread := None\<rparr>))"
    if "tpsThread ((TpsReport_turn ^^ n) (TpsReport_quit s)) = Some Ended" for n
    using that by (simp add: TpsReport_join_def)
  obtain t where t: "tpsThread s = Some t" using assms by blast
  have "tpsThread ((TpsReport_turn ^^ (case t of Testing \<Rightarrow> 1 | Sleeping \<Rightarrow> 3 | Resetting \<Rightarrow> 2 | Ended \<Rightarrow> 0))
      (TpsReport_quit s)) = Some Ended"
    by (cases t) (simp_all add: TpsReport_turn_def TpsReport_quit_def t numeral_3_eq_3 numeral_2_eq_2)
  from ends [OF this] show ?thesis
    by (intro exI [of _ "case t of Testing \<Rightarrow> 1 | Sleeping \<Rightarrow> 3 | Resetting \<Rightarrow> 2 | Ended \<Rightarrow> 0"]) (cases t, auto)
qed

definition GetAvgSpeed :: "tps \<Rightarrow> double" where
  "GetAvgSpeed t = avgSpeed t"

section \<open>Command line options\<close>

record rocketmq_args =
  namesrv :: string
  namesrv_domain :: string
  groupname :: string
  topic :: string
  body :: string
  thread_count :: int
  broadcasting :: bool
  syncpush :: bool
  SelectUnactiveBroker :: bool
  IsAutoDeleteSendCallback :: bool
  retrytimes :: int
  PrintMoreInfo :: bool

text \<open>The constructor; the number of cores comes from the system.\<close>

definition RocketmqSendAndConsumerArgs :: "int \<Rightarrow> rocketmq_args" where
  "RocketmqSendAndConsumerArgs cores = \<lparr>namesrv = [], namesrv_domain = [], groupname = [], topic = [],
     body = ''msgbody for test'', thread_count = cores, broadcasting = False, syncpush = False,
     SelectUnactiveBroker = False, IsAutoDeleteSendCallback = False, retrytimes = 5, PrintMoreInfo = False\<rparr>"

text \<open>\<^verbatim>\<open>atoi\<close> of the GNU C library: \<^verbatim>\<open>strtol\<close> in 64 bits, cut to an \<^verbatim>\<open>int\<close>.\<close>

definition is_blank :: "char \<Rightarrow> bool" where
  "is_blank c = ((of_char c :: nat) = 32 \<or> 9 \<le> (of_char c :: nat) \<and> (of_char c :: nat) \<le> 13)"

definition atoi :: "string \<Rightarrow> int" where
  "atoi s =
     (let s1 = dropWhile is_blank s;
          neg = (take 1 s1 = ''-'');
          s2 = (if neg \<or> take 1 s1 = ''+'' then drop 1 s1 else s1);
          n = int (nat_of_digits (takeWhile is_digit s2));
          v = (if neg then max (- (2 ^ 63)) (- n) else min (2 ^ 63 - 1) n)
      in signed_take_bit 31 v)"

text \<open>
  The loop over \<^verbatim>\<open>getopt\<close>, on the options it returns with their \<^verbatim>\<open>optarg\<close>; the second component of
  the state is \<^verbatim>\<open>g_msgCount\<close>. \<open>False\<close>: the return out of the loop.
\<close>

definition set_option :: "char \<Rightarrow> string \<Rightarrow> rocketmq_args \<times> int \<Rightarrow> (rocketmq_args \<times> int) option" where
  "set_option ch optarg s =
     (let (info, n) = s in
      if ch = CHR ''n'' then Some (info\<lparr>namesrv := optarg @ namesrv info\<rparr>, n)
      else if ch = CHR ''i'' then Some (info\<lparr>namesrv_domain := optarg @ namesrv_domain info\<rparr>, n)
      else if ch = CHR ''g'' then Some (info\<lparr>groupname := optarg @ groupname info\<rparr>, n)
      else if ch = CHR ''t'' then Some (info\<lparr>topic := optarg @ topic info\<rparr>, n)
      else if ch = CHR ''m'' then Some (info, atoi optarg)
      else if ch = CHR ''c'' then Some (info\<lparr>body := optarg @ body info\<rparr>, n)
      else if ch = CHR ''b'' then Some (info\<lparr>broadcasting := True\<rparr>, n)
      else if ch = CHR ''s'' then Some (info\<lparr>syncpush := True\<rparr>, n)
      else if ch = CHR ''r'' then Some (info\<lparr>retrytimes := atoi optarg\<rparr>, n)
      else if ch = CHR ''u'' then Some (info\<lparr>SelectUnactiveBroker := True\<rparr>, n)
      else if ch = CHR ''T'' then Some (info\<lparr>thread_count := atoi optarg\<rparr>, n)
      else if ch = CHR ''v'' then Some (info\<lparr>PrintMoreInfo := True\<rparr>, n)
      else None)"

fun parse_options :: "(char \<times> string) list \<Rightarrow> rocketmq_args \<times> int \<Rightarrow> bool \<times> rocketmq_args \<times> int" where
  "parse_options [] s = (True, s)"
| "parse_options ((ch, optarg) # rest) s =
     (case set_option ch optarg s of None \<Rightarrow> (False, s) | Some s' \<Rightarrow> parse_options rest s')"

text \<open>
  \<^verbatim>\<open>getopt\<close> is a parameter: from the arguments, the options in the order it returns them. Its
  documentation says that it returns letters of the option string, or a question mark.
\<close>

definition option_string :: string where
  "option_string = ''n:i:g:t:m:c:b:s:h:r:T:bu''"

definition getopt_documented :: "(string list \<Rightarrow> (char \<times> string) list) \<Rightarrow> bool" where
  "getopt_documented getopt \<longleftrightarrow> (\<forall>argv. \<forall>p \<in> set (getopt argv).
     fst p = CHR ''?'' \<or> fst p \<in> set option_string - {CHR '':''})"

definition ParseArgs ::
  "(string list \<Rightarrow> (char \<times> string) list) \<Rightarrow> string list \<Rightarrow> rocketmq_args \<times> int \<Rightarrow> bool \<times> rocketmq_args \<times> int" where
  "ParseArgs getopt argv s =
     (let (ok, info, n) = parse_options (getopt argv) s in
      if \<not> ok then (False, info, n)
      else if groupname info = [] \<or> topic info = [] \<or> (namesrv_domain info = [] \<and> namesrv info = []) then (False, info, n)
      else (True, info, n))"

section \<open>What is printed\<close>

definition endl :: string where "endl = [char_of (10 :: nat)]"

definition rocketmq_help :: string where
  "rocketmq_help =
     ''need option,like follow: '' @ endl @
     ''-n nameserver addr, if not set -n and -i ,no nameSrv will be got '' @ endl @
     ''-i nameserver domain name,  if not set -n and -i ,no nameSrv will be got '' @ endl @
     ''-g groupname '' @ endl @
     ''-t  msg topic '' @ endl @
     ''-m messagecout(default value: 1) '' @ endl @
     ''-c content(default value: only test ) '' @ endl @
     ''-b (BROADCASTING model, default value: CLUSTER) '' @ endl @
     ''-s sync push(default is async push)'' @ endl @
     ''-r setup retry times(default value: 5 times)'' @ endl @
     ''-u select active broker to send msg(default value: false)'' @ endl @
     ''-d use AutoDeleteSendcallback by cpp client(defalut value: false) '' @ endl @
     ''-T thread count of send msg or consume msg(defalut value: system cpu core number) '' @ endl @
     ''-v print more details information '' @ endl"

text \<open>What \<^verbatim>\<open>ParseArgs\<close> prints.\<close>

definition ParseArgs_output :: "(string list \<Rightarrow> (char \<times> string) list) \<Rightarrow> string list \<Rightarrow> rocketmq_args \<times> int \<Rightarrow> string" where
  "ParseArgs_output getopt argv s =
     (let (ok, info, n) = parse_options (getopt argv) s in
      if \<not> ok then rocketmq_help
      else if groupname info = [] \<or> topic info = [] \<or> (namesrv_domain info = [] \<and> namesrv info = []) then
        ''please use -g to setup groupname and -t setup topic '' @ endl @ rocketmq_help
      else [])"

text \<open>\<^verbatim>\<open>ParseArgs\<close> prints the help when it fails, and nothing else.\<close>

lemma ParseArgs_help: "fst (ParseArgs getopt argv s) \<longleftrightarrow> ParseArgs_output getopt argv s = []"
  by (auto simp: ParseArgs_def ParseArgs_output_def rocketmq_help_def Let_def split: prod.splits)

text \<open>The other prints; of the results of the library, what they show.\<close>

definition PrintRocketmqSendAndConsumerArgs :: "rocketmq_args \<Rightarrow> int \<Rightarrow> string" where
  "PrintRocketmqSendAndConsumerArgs info g_msgCount =
     ''nameserver: '' @ namesrv info @ endl @
     ''topic: '' @ topic info @ endl @
     ''groupname: '' @ groupname info @ endl @
     ''produce content: '' @ body info @ endl @
     ''msg  count: '' @ show_int g_msgCount @ endl @
     ''thread count: '' @ show_int (thread_count info) @ endl"

record send_result =
  sendStatus :: int
  msgId :: string
  queueOffset :: int
  messageQueue :: string

definition PrintResult :: "send_result \<Rightarrow> string" where
  "PrintResult r = ''sendresult = '' @ show_int (sendStatus r) @ '', msgid = '' @ msgId r @
     '', queueOffset = '' @ show_int (queueOffset r) @ '','' @ messageQueue r @ endl"

record pull_result =
  pullText :: string
  pullFound :: bool
  msgFoundList :: "string list"

definition PrintPullResult :: "pull_result \<Rightarrow> string" where
  "PrintPullResult r = pullText r @ endl @
     (if pullFound r then pullText r @ endl @
        concat (map (\<lambda>m. ''======================================================='' @ endl @ m @ endl) (msgFoundList r))
      else [])"

section \<open>Calls of the library\<close>

text \<open>The calls that configure a \<^verbatim>\<open>DefaultMQProducer\<close> or a \<^verbatim>\<open>DefaultMQPushConsumer\<close>.\<close>

datatype mq_call =
    SetNamesrvAddr string | SetGroupName string | SetNamesrvDomain string | SetConsumeFromWhere string
  | SetInstanceName string | Subscribe string string | SetConsumeThreadCount int
  | SetTcpTransportTryLockTimeout int | SetTcpTransportConnectTimeout int | RegisterMessageListener | Start

definition subscribes :: "string \<Rightarrow> mq_call list \<Rightarrow> bool" where
  "subscribes t calls \<longleftrightarrow> Subscribe t ''*'' \<in> set (takeWhile (\<lambda>c. c \<noteq> Start) calls)"

text \<open>\<^verbatim>\<open>producer::InitProducer\<close>: the fields of \<^verbatim>\<open>gMQInfo\<close>, then the calls.\<close>

definition InitProducer :: "rocketmq_args \<Rightarrow> rocketmq_args \<times> mq_call list" where
  "InitProducer gMQInfo =
     (let info = gMQInfo\<lparr>namesrv := ''192.168.99.100:9876'', groupname := ''producer'',
                   namesrv_domain := ''push'', topic := ''push''\<rparr>
      in (info, [SetNamesrvAddr (namesrv info), SetGroupName (groupname info),
                 SetNamesrvDomain (namesrv_domain info), Start]))"

end
