(* ===== verification/Consumer.thy ===== *)
theory Consumer
  imports CallData RocketMq
begin

text \<open>
  \<^verbatim>\<open>consumer/consumer.cpp\<close>: the set-up of the consumer, the listener that RocketMQ calls with
  messages, and the RPC object of the consumer's service.
\<close>

text \<open>
  \<^verbatim>\<open>InitConsumer\<close>: the calls up to \<^verbatim>\<open>consumer.start()\<close>, then what is logged when this throws; the
  counter is started in either case.
\<close>

definition InitConsumer :: "bool \<Rightarrow> string \<Rightarrow> mq_call list \<times> string list" where
  "InitConsumer throws what =
     ([SetNamesrvAddr ''192.168.99.100:9876'', SetGroupName ''consumer'', SetNamesrvDomain ''push'',
       SetConsumeFromWhere ''CONSUME_FROM_LAST_OFFSET'', SetInstanceName ''consumer'', Subscribe ''push'' ''*'',
       SetConsumeThreadCount 15, SetTcpTransportTryLockTimeout 1000, SetTcpTransportConnectTimeout 400,
       RegisterMessageListener, Start],
      ''Starting consumer...'' # (if throws then [''StartConsumerException:'' @ what] else []))"

datatype consume_status = CONSUME_SUCCESS | RECONSUME_LATER

text \<open>
  The listener counts each message and logs its user and its message id; \<open>parse\<close> is
  \<^verbatim>\<open>ParseFromString\<close> of a \<^verbatim>\<open>ProducerMsg\<close>.
\<close>

type_synonym consumer_log = "(u64 \<times> u32) list"

fun consume_loop :: "(string \<Rightarrow> u64 \<times> u32) \<Rightarrow> string list \<Rightarrow> tps \<times> consumer_log \<Rightarrow> tps \<times> consumer_log" where
  "consume_loop parse [] s = s"
| "consume_loop parse (msg # msgs) (gTps, logged) = consume_loop parse msgs (Increment gTps, logged @ [parse msg])"

definition consumeMessage ::
  "(string \<Rightarrow> u64 \<times> u32) \<Rightarrow> string list \<Rightarrow> tps \<times> consumer_log \<Rightarrow> consume_status \<times> tps \<times> consumer_log" where
  "consumeMessage parse msgs s = (CONSUME_SUCCESS, consume_loop parse msgs s)"

text \<open>The batches RocketMQ delivers, one after the other.\<close>

definition consume_batches ::
  "(string \<Rightarrow> u64 \<times> u32) \<Rightarrow> string list list \<Rightarrow> tps \<times> consumer_log \<Rightarrow> tps \<times> consumer_log" where
  "consume_batches parse = fold (\<lambda>msgs s. snd (consumeMessage parse msgs s))"

text \<open>The RPC \<^verbatim>\<open>ConsumeMsg\<close> does nothing: its reply is the empty message.\<close>

definition ConsumerCallData_Proceed ::
  "call_status \<Rightarrow> unit \<Rightarrow> 's \<Rightarrow> call_status \<times> unit action list \<times> 's" where
  "ConsumerCallData_Proceed status env s =
     (if status = CREATE then (PROCESS, [RequestRpc], s)
      else if status = PROCESS then (FINISH, [NewCallData, FinishRpc ()], s)
      else (status, [DeleteThis], s))"

interpretation consume: call_data ConsumerCallData_Proceed
  by unfold_locales (auto simp: ConsumerCallData_Proceed_def)

lemma consume_loop_eq:
  "consume_loop parse msgs (t, logged) = (t\<lparr>tpsCount := tpsCount t + int (length msgs)\<rparr>, logged @ map parse msgs)"
  by (induction msgs arbitrary: t logged) (simp_all add: Increment_def)

lemma consume_batches_eq:
  "consume_batches parse batches (t, logged) =
    (t\<lparr>tpsCount := tpsCount t + int (length (concat batches))\<rparr>, logged @ map parse (concat batches))"
proof (induction batches arbitrary: t logged)
  case Nil
  then show ?case by (simp add: consume_batches_def)
next
  case (Cons msgs batches)
  then show ?case by (simp add: consume_batches_def consumeMessage_def consume_loop_eq)
qed

end
