(* ===== verification/RegistryProps.thy ===== *)
theory RegistryProps
  imports Consumer Scenarios DispatchFacts
begin

text \<open>
  The properties of the registry: registration, load reports and heart beats, the two ways a
  server is removed, and the objects that serve these RPCs.
\<close>

section \<open>Registration\<close>

text \<open>
  Registration. Unless the id \<open>2 ^ 64 - 1\<close> is in use, the new server gets an id greater than
  every registered one; its entry holds the reported name, group and address, all other
  entries stay; a producer is also idle, has no task, no failure and a stub to its address.
\<close>

theorem register_new_server:
  assumes "daemon_ok d" and "- 1 \<notin> dom (info_of d)"
    and "ClientRegister sp req env d = (reply, d')"
  shows "reg_err reply = SUCCESS \<and> (\<forall>k \<in> dom (info_of d). k < reg_server_id reply) \<and>
    info_of d' = (info_of d)(reg_server_id reply \<mapsto>
      \<lparr>address = parseAndGetIp sp (env_peer env) @ '':'' @ listening_port req,
       procName = proc_name req, groupId = group_id req, timestamp = env_now env,
       score = (if proc_name req = ''producer'' then 10 else 0)\<rparr>) \<and>
    (proc_name req = ''producer'' \<longrightarrow> idle d' = insert (reg_server_id reply) (idle d) \<and>
      prod_of d' (reg_server_id reply) = Some \<lparr>producerCaller =
        Some (parseAndGetIp sp (env_peer env) @ '':'' @ listening_port req), curTaskCount = 0, failCount = 0\<rparr>)"
proof -
  note ok = daemon_ok_tables(1) [OF assms(1)]
  have r: "reply = \<lparr>reg_err = SUCCESS, reg_server_id = register_id (env_random env) d\<rparr>"
    and d': "d' = snd (ClientRegister sp req env d)"
    using arg_cong [OF assms(3), of fst] arg_cong [OF assms(3), of snd] by simp_all
  show ?thesis
    using register_id_greatest [OF ok assms(2)]
      ClientRegister_info [OF ok register_id_fresh [OF ok assms(2)]]
      ClientRegister_prod [OF assms(1), of req sp env]
    by (simp add: r d' registered_info_def ProducerState_def)
qed

theorem register_new_server_witness:
  "reg_server_id (fst (ClientRegister split_colon producer_request (at_time 1) (tables demo_state))) = 7"
proof -
  have "daemon_ok (tables demo_state)" by (rule ok_inv.inv_run [OF demo_run])
  moreover have "- 1 \<notin> dom (info_of (tables demo_state))" by (simp add: demo_state_def)
  moreover have "ClientRegister split_colon producer_request (at_time 1) (tables demo_state) =
      (\<lparr>reg_err = SUCCESS, reg_server_id = 7\<rparr>,
       snd (ClientRegister split_colon producer_request (at_time 1) (tables demo_state)))"
    by (rule prod_eqI) (simp_all add: register_id_def demo_state_def om_rbegin_def)
  ultimately show ?thesis using register_new_server by (metis fst_conv register_reply.select_convs(2))
qed

section \<open>Reports of registered servers\<close>

text \<open>
  A load report or a heart beat of an unknown server is answered with \<^verbatim>\<open>ERR\<close> and changes
  nothing; one of a registered server is answered with \<^verbatim>\<open>SUCCESS\<close> and changes only the score,
  respectively the time stamp, of that server. The score is the number the string starts
  with, and without any character to read, whatever the variable held.
\<close>

theorem reports_change_one_entry:
  "fst (LoadBalance junk req d) = (if lb_server_id req \<in> dom (info_of d) then SUCCESS else ERR) \<and>
   fst (HeartBeat now k d) = (if k \<in> dom (info_of d) then SUCCESS else ERR) \<and>
   info_of (snd (LoadBalance junk req d)) = (info_of d)(lb_server_id req := map_option
     (\<lambda>i. i\<lparr>score := (case extract_double (lb_score req) of None \<Rightarrow> junk | Some v \<Rightarrow> v)\<rparr>)
     (info_of d (lb_server_id req))) \<and>
   info_of (snd (HeartBeat now k d)) =
     (info_of d)(k := map_option (\<lambda>i. i\<lparr>timestamp := now\<rparr>) (info_of d k)) \<and>
   (\<forall>d' \<in> {snd (LoadBalance junk req d), snd (HeartBeat now k d)}.
      d'\<lparr>gSvrId2SvrInfo := gSvrId2SvrInfo d\<rparr> = d)"
  unfolding LoadBalance_info HeartBeat_info
  by (auto simp: LoadBalance_def HeartBeat_def Let_def split: option.splits)

theorem reports_change_one_entry_witness:
  "fst (HeartBeat 3 5 (tables demo_state)) = SUCCESS \<and> fst (HeartBeat 3 9 (tables demo_state)) = ERR"
proof -
  have "5 \<in> dom (info_of (tables demo_state))" "9 \<notin> dom (info_of (tables demo_state))"
    by (simp_all add: demo_state_def)
  then show ?thesis using reports_change_one_entry [where k = 5] reports_change_one_entry [where k = 9]
    by metis
qed

section \<open>Removal\<close>

text \<open>
  C13: the liveness pass removes from the registry exactly the servers whose last sign of life
  is more than \<^verbatim>\<open>ALIVE_DURATION\<close> seconds old; no table knows a removed producer any longer,
  not even the ranks, and no producer that is left has a failure counted.
\<close>

theorem liveness_pass:
  assumes "daemon_ok d"
  shows "info_of (CheckProcAlive_pass now d) k = (case info_of d k of None \<Rightarrow> None
      | Some i \<Rightarrow> if now - timestamp i > 10 then None else Some i) \<and>
    (\<forall>i. info_of d k = Some i \<and> now - timestamp i > 10 \<and> procName i = ''producer'' \<longrightarrow>
      k \<notin> dom (prod_of (CheckProcAlive_pass now d)) \<and> k \<notin> idle (CheckProcAlive_pass now d) \<and>
      k \<notin> ranked (CheckProcAlive_pass now d)) \<and>
    (\<forall>p. prod_of (CheckProcAlive_pass now d) k = Some p \<longrightarrow> failCount p = 0)"
proof (intro conjI allI impI)
  fix i assume i: "info_of d k = Some i \<and> now - timestamp i > 10 \<and> procName i = ''producer''"
  then have "(k, i) \<in> set (gSvrId2SvrInfo d)"
    using om_entry_iff [OF daemon_ok_tables(1) [OF assms]] by blast
  then have "gone k (CheckProcAlive_pass now d)"
    unfolding CheckProcAlive_pass_def gone_reset
    by (rule sweep_loop_gone [OF assms]) (use i in \<open>simp_all add: late_def ALIVE_DURATION_def\<close>)
  then show "k \<notin> dom (prod_of (CheckProcAlive_pass now d))" "k \<notin> idle (CheckProcAlive_pass now d)"
    "k \<notin> ranked (CheckProcAlive_pass now d)" by (simp_all add: gone_def)
next
  show "failCount p = 0" if "prod_of (CheckProcAlive_pass now d) k = Some p" for p
    using that by (auto simp: CheckProcAlive_pass_def map_of_reset)
qed (simp add: CheckProcAlive_info [OF assms] late_def ALIVE_DURATION_def split: option.split)

theorem liveness_pass_witness:
  "info_of (CheckProcAlive_pass 11 (tables demo_state)) 6 = None \<and>
   info_of (CheckProcAlive_pass 10 (tables demo_state)) 6 = Some demo_info"
proof -
  have ok: "daemon_ok (tables demo_state)" by (rule ok_inv.inv_run [OF demo_run])
  have "info_of (tables demo_state) 6 = Some demo_info" "timestamp demo_info = 0"
    by (simp_all add: demo_state_def demo_info_def)
  then show ?thesis using liveness_pass [OF ok, of 11 6] liveness_pass [OF ok, of 10 6] by simp
qed

text \<open>
  C15: the circuit breaker. Of a producer without failures, up to 50 failures in a row are only
  counted; the 51st removes it from every table of the daemon.
\<close>

theorem circuit_breaker_limit:
  assumes "daemon_ok d" and "prod_of d k = Some p" and "failCount p = 0"
  shows "(\<forall>n \<le> 50. prod_of ((circuit_breaker k ^^ n) d) = (prod_of d)(k \<mapsto> p\<lparr>failCount := word_of_nat n\<rparr>) \<and>
      info_of ((circuit_breaker k ^^ n) d) = info_of d \<and> idle ((circuit_breaker k ^^ n) d) = idle d) \<and>
    (let d' = (circuit_breaker k ^^ 51) d in
      k \<notin> dom (info_of d') \<and> k \<notin> dom (prod_of d') \<and> k \<notin> idle d' \<and> k \<notin> ranked d')"
proof -
  note pw = breaker_power [OF assms(2,3)]
  have few: "prod_of ((circuit_breaker k ^^ n) d) = (prod_of d)(k \<mapsto> p\<lparr>failCount := word_of_nat n\<rparr>) \<and>
      info_of ((circuit_breaker k ^^ n) d) = info_of d \<and> idle ((circuit_breaker k ^^ n) d) = idle d"
    if "n \<le> 50" for n
    using pw [OF that] assms(2,3) by (auto simp: om.find_modify fun_eq_iff)
  have ok: "daemon_ok ((circuit_breaker k ^^ 50) d)"
    unfolding pw [OF order_refl] using assms(1) by (rule daemon_ok_modify_prod)
  have "prod_of ((circuit_breaker k ^^ 50) d) k = Some (p\<lparr>failCount := 50\<rparr>)"
    using few [of 50] by simp
  then have "gone k (circuit_breaker k ((circuit_breaker k ^^ 50) d))"
    by (rule breaker_trips [OF daemon_okD(1) [OF ok]]) (simp add: FAIL_COUNT_LIMIT_def)
  moreover have "(circuit_breaker k ^^ 51) d = circuit_breaker k ((circuit_breaker k ^^ 50) d)"
    using fun_cong [OF funpow.simps(2) [of 50 "circuit_breaker k"]] by simp
  ultimately have last: "gone k ((circuit_breaker k ^^ 51) d)" by metis
  show ?thesis
    using few last by (simp only: gone_def Let_def simp_thms) blast
qed

theorem circuit_breaker_limit_witness:
  "6 \<notin> dom (prod_of ((circuit_breaker 6 ^^ 51) (tables demo_state)))"
proof -
  have ok: "daemon_ok (tables demo_state)" by (rule ok_inv.inv_run [OF demo_run])
  obtain p where "prod_of (tables demo_state) 6 = Some p" "failCount p = 0"
    by (simp add: demo_state_def)
  from circuit_breaker_limit [OF ok this] show ?thesis unfolding Let_def by blast
qed

section \<open>Addresses\<close>

text \<open>
  Of a peer \<^verbatim>\<open>a:b:c\<close> with a non-empty \<^verbatim>\<open>b\<close>, \<^verbatim>\<open>parseAndGetIp\<close> returns \<^verbatim>\<open>b\<close>; of a peer with any
  other number of colons, such as an IPv6 one, it returns the empty string. \<open>sp\<close> is any
  function that splits at colons.
\<close>

theorem parseAndGetIp_spec:
  assumes "splits_at_colons sp"
  shows "(CHR '':'' \<notin> set a \<union> set b \<union> set c \<longrightarrow>
      parseAndGetIp sp (a @ '':'' @ b @ '':'' @ c) = b) \<and>
    (length (filter ((=) CHR '':'') peer) \<noteq> 2 \<longrightarrow> parseAndGetIp sp peer = [])"
proof (intro conjI impI)
  assume "CHR '':'' \<notin> set a \<union> set b \<union> set c"
  then have "sp (join_colon [a, b, c]) = [a, b, c]"
    using assms by (intro split_unique) auto
  then show "parseAndGetIp sp (a @ '':'' @ b @ '':'' @ c) = b"
    by (simp add: parseAndGetIp_def)
next
  assume two: "length (filter ((=) CHR '':'') peer) \<noteq> 2"
  have colons: "\<forall>t \<in> set ts. CHR '':'' \<notin> set t \<Longrightarrow> ts \<noteq> [] \<Longrightarrow>
      Suc (length (filter ((=) CHR '':'') (join_colon ts))) = length ts" for ts
    by (induction ts rule: join_colon.induct) (auto simp: filter_empty_conv)
  have "Suc (length (filter ((=) CHR '':'') peer)) = length (sp peer)"
    using colons [of "sp peer"] assms by (simp add: splits_at_colons_def)
  then show "parseAndGetIp sp peer = []"
    using two by (simp add: parseAndGetIp_def)
qed

theorem parseAndGetIp_spec_witness:
  "parseAndGetIp split_colon ''ipv4:10.0.0.1:4000'' = ''10.0.0.1'' \<and>
   parseAndGetIp split_colon ''ipv6:[::1]:4000'' = []"
  using parseAndGetIp_spec [OF split_colon_splits, of "''ipv4''" "''10.0.0.1''" "''4000''" "''ipv6:[::1]:4000''"]
  by simp

section \<open>Load scores\<close>

text \<open>
  The score of a server falls, or stays, with the average time it took: for non-negative
  times it is antitone, and it is between 0 and the score 10 of an idle server.
\<close>

theorem score_bounds:
  assumes "0 \<le> s" and "s \<le> t"
  shows "0 \<le> calLoadBalanceScore t \<and> calLoadBalanceScore t \<le> calLoadBalanceScore s \<and>
    calLoadBalanceScore s \<le> calLoadBalanceScore 0 \<and> calLoadBalanceScore 0 = 10"
  using assms score_antitone_pos [of 0 s] by (simp add: score_nonneg score_antitone_pos score_zero)

theorem score_bounds_witness: "calLoadBalanceScore 7 \<le> 10"
  using score_bounds [of 7 7] by simp

definition negative_report :: load_balance_request where
  "negative_report = \<lparr>lb_server_id = 5, lb_score = ''-3''\<rparr>"

text \<open>
  A negative load report breaks the dispatch. A daemon whose only producer reported \<^verbatim>\<open>-3\<close>
  ranks it at -3 at the next \<^verbatim>\<open>Rebalance\<close>; the number 0 drawn for a push is not below any rank,
  and the end iterator is dereferenced.
\<close>

theorem negative_score_end_deref:
  "\<exists>s. run split_colon any_event [Register producer_request (at_time 0), Load 0 negative_report, Timer,
      Begin demo_push, Select 0 ByBeginPush demo_request 0] s \<and>
    Selecting ByBeginPush demo_request 4096 \<in># tasks s \<and>
    select_turn 0 ByBeginPush demo_request 4096 s = Inl EndDeref"
proof -
  let ?s0 = "system_init\<lparr>tables := snd (ClientRegister split_colon producer_request (at_time 0) daemon_init)\<rparr>"
  let ?s1 = "?s0\<lparr>tables := (tables ?s0)\<lparr>gSvrId2SvrInfo := om_modify 5 (\<lambda>i. i\<lparr>score := - 3\<rparr>) (gSvrId2SvrInfo (tables ?s0))\<rparr>\<rparr>"
  let ?evs = "[Timer, Begin demo_push, Select 0 ByBeginPush demo_request 0]"
  have "case exec_events split_colon any_event ?evs ?s1 of None \<Rightarrow> False
    | Some s \<Rightarrow> Selecting ByBeginPush demo_request 4096 \<in># tasks s \<and>
        select_turn 0 ByBeginPush demo_request 4096 s = Inl EndDeref"
    by code_simp
  then obtain s where s: "exec_events split_colon any_event ?evs ?s1 = Some s"
    "Selecting ByBeginPush demo_request 4096 \<in># tasks s"
    "select_turn 0 ByBeginPush demo_request 4096 s = Inl EndDeref"
    by (auto split: option.splits)
  have r0: "run split_colon any_event [Register producer_request (at_time 0)] ?s0"
    using run_step [OF run_start, where ev = "Register producer_request (at_time 0)" and s' = ?s0 and
        step = "sys_step split_colon" and init = system_init and G = any_event]
      sys_step.register [of split_colon producer_request "at_time 0" system_init]
    by (simp add: any_event_def system_init_def)
  have "5 \<in> dom (info_of (tables ?s0))"
  proof -
    have "5 \<in> set (map fst (gSvrId2SvrInfo (tables ?s0)))" by code_simp
    then show ?thesis by (simp add: om_dom)
  qed
  then have "snd (LoadBalance 0 negative_report (tables ?s0)) = tables ?s1"
    by (auto simp: LoadBalance_def negative_report_def extract_double_ex3)
  then have "run split_colon any_event [Register producer_request (at_time 0), Load 0 negative_report] ?s1"
    using run_step [OF r0, where ev = "Load 0 negative_report" and s' = ?s1]
      sys_step.load [of split_colon 0 negative_report ?s0]
    by (simp add: any_event_def)
  from exec_events_run [OF this s(1)] s(2,3) show ?thesis by auto
qed

section \<open>The objects that serve the RPCs\<close>

definition listening :: "call_status multiset \<Rightarrow> bool" where
  "listening objs \<longleftrightarrow> count objs PROCESS = 1 \<and> CREATE \<notin># objs"

text \<open>
  The services keep listening. Whatever object of \<^verbatim>\<open>ClientRegister\<close>, \<^verbatim>\<open>LoadBalance\<close>,
  \<^verbatim>\<open>HeartBeat\<close>, \<^verbatim>\<open>BeginPush\<close> or the consumer's \<^verbatim>\<open>ConsumeMsg\<close> the completion queue delivers, if exactly one object waits
  for the next RPC before, then exactly one does after it, and none is left half created.
\<close>

theorem services_keep_listening:
  assumes "st \<in># objs" and "CREATE \<notin># objs" and "count objs PROCESS = 1"
  shows "(\<forall>env. listening (fst (deliver (ClientRegister_Proceed sp) st env (objs, d)))) \<and>
    (\<forall>env. listening (fst (deliver LoadBalance_Proceed st env (objs, d)))) \<and>
    (\<forall>env. listening (fst (deliver HeartBeat_Proceed st env (objs, d)))) \<and>
    (\<forall>select env. listening (fst (deliver (BeginPush_Proceed select) st env (objs, s)))) \<and>
    (\<forall>env. listening (fst (deliver ConsumerCallData_Proceed st env (objs, c))))"
  by (intro conjI allI; unfold listening_def)
    (rule register.one_listener load_balance.one_listener heart_beat.one_listener begin_push.one_listener
      consume.one_listener, rule assms,
      rule assms, rule assms)+

theorem services_keep_listening_witness:
  "listening (fst (deliver HeartBeat_Proceed PROCESS (3, 5) ({#PROCESS, FINISH#}, daemon_init)))"
proof -
  have "PROCESS \<in># {#PROCESS, FINISH#}" "CREATE \<notin># {#PROCESS, FINISH#}" "count {#PROCESS, FINISH#} PROCESS = 1"
    by simp_all
  from services_keep_listening [OF this, THEN conjunct2, THEN conjunct2, THEN conjunct1] show ?thesis by blast
qed

end
