(* ===== verification/RedisHandler.thy ===== *)
theory RedisHandler
  imports Prelude
begin

text \<open>
  \<^verbatim>\<open>common/dataHandler/redisHandler.cpp\<close>: the connection to Redis with its retries. The
  client library hiredis is a parameter: what \<^verbatim>\<open>redisConnect\<close> returns and what
  \<^verbatim>\<open>redisCommand\<close> replies, each with its effect on the rest of the world, a state of any
  type. Locked by \<^verbatim>\<open>redisMtx\<close>, a command is one step of its caller.
\<close>

section \<open>The client library\<close>

type_synonym bytes = "u8 list"

datatype reply_type = REPLY_STRING | REPLY_ARRAY | REPLY_INTEGER | REPLY_NIL | REPLY_STATUS | REPLY_ERROR

text \<open>A \<^verbatim>\<open>redisReply\<close>; \<open>reply_str\<close> is \<open>None\<close> for a null \<^verbatim>\<open>str\<close>, and excludes the final NUL.\<close>

record redis_reply =
  reply_type :: reply_type
  reply_integer :: int
  reply_str :: "bytes option"

text \<open>\<^verbatim>\<open>redisConnect\<close> returns null, a context with an error, or a good context.\<close>

datatype connect_result = NoContext | BadContext | GoodContext

record 'w hiredis =
  redisConnect :: "'w \<Rightarrow> connect_result \<times> 'w"
  redisCommand :: "string \<Rightarrow> bytes option \<Rightarrow> 'w \<Rightarrow> redis_reply option \<times> 'w"

section \<open>The handler\<close>

text \<open>\<open>context\<close>: whether the pointer is not null; a context that is kept is a good one.\<close>

record redis_handler =
  context_set :: bool
  reply :: "redis_reply option"

fun connect_loop :: "nat \<Rightarrow> 'w hiredis \<Rightarrow> 'w \<Rightarrow> bool \<times> 'w" where
  "connect_loop 0 cl w = (False, w)"
| "connect_loop (Suc n) cl w =
     (let (res, w1) = redisConnect cl w
      in if res = NoContext \<or> res = BadContext then connect_loop n cl w1 else (True, w1))"

definition RedisHandler_connect ::
  "'w hiredis \<Rightarrow> redis_handler \<times> 'w \<Rightarrow> bool \<times> redis_handler \<times> 'w" where
  "RedisHandler_connect cl s =
     (let (h, w) = s in
      if context_set h then (True, h, w)
      else let (ok, w1) = connect_loop 3 cl w in (ok, h\<lparr>context_set := ok\<rparr>, w1))"

definition freeConnection :: "redis_handler \<times> 'w \<Rightarrow> redis_handler \<times> 'w" where
  "freeConnection s = (let (h, w) = s in (h\<lparr>context_set := False\<rparr>, w))"

definition freeReply :: "redis_handler \<times> 'w \<Rightarrow> redis_handler \<times> 'w" where
  "freeReply s = (let (h, w) = s in (h\<lparr>reply := None\<rparr>, w))"

definition RedisHandler_init :: "'w hiredis \<Rightarrow> 'w \<Rightarrow> redis_handler \<times> 'w" where
  "RedisHandler_init cl w = snd (RedisHandler_connect cl (\<lparr>context_set = False, reply = None\<rparr>, w))"

definition RedisHandler_destruct :: "redis_handler \<times> 'w \<Rightarrow> redis_handler \<times> 'w" where
  "RedisHandler_destruct s = freeConnection s"

text \<open>
  The loop of \<^verbatim>\<open>command\<close>: a null reply makes it reconnect, an error reply only try again.
  \<^verbatim>\<open>redisCommand\<close> and \<^verbatim>\<open>context->err\<close> dereference the context.
\<close>

fun command_loop ::
  "nat \<Rightarrow> 'w hiredis \<Rightarrow> string \<Rightarrow> bytes option \<Rightarrow> redis_handler \<times> 'w \<Rightarrow>
   (redis_reply option \<times> redis_handler \<times> 'w) ub_or" where
  "command_loop 0 cl cmd val s = Inr (None, s)"
| "command_loop (Suc n) cl cmd val s =
     (let (h, w) = s in
      if \<not> context_set h then Inl NullDeref
      else let (r, w1) = redisCommand cl cmd val w; h1 = h\<lparr>reply := r\<rparr> in
        case r of
          None \<Rightarrow> command_loop n cl cmd val (snd (RedisHandler_connect cl (freeConnection (h1, w1))))
        | Some rep \<Rightarrow>
            if reply_type rep = REPLY_ERROR then command_loop n cl cmd val (h1, w1)
            else if reply_type rep = REPLY_NIL then Inr (Some rep, h1, w1)
            else Inr (Some rep, h1, w1))"

definition RedisHandler_command ::
  "'w hiredis \<Rightarrow> string \<Rightarrow> bytes option \<Rightarrow> redis_handler \<times> 'w \<Rightarrow>
   (redis_reply option \<times> redis_handler \<times> 'w) ub_or" where
  "RedisHandler_command cl cmd val s =
     (if context_set (fst s) then command_loop 3 cl cmd val s
      else let (ok, s1) = RedisHandler_connect cl s
           in if ok then command_loop 3 cl cmd val s1 else Inr (None, s1))"

text \<open>
  The second \<^verbatim>\<open>command\<close>, with a value for \<^verbatim>\<open>%b\<close> in the command line: its body is the one of the
  first but for the value handed to \<^verbatim>\<open>redisCommand\<close>.
\<close>

definition RedisHandler_command_value ::
  "'w hiredis \<Rightarrow> string \<Rightarrow> bytes \<Rightarrow> redis_handler \<times> 'w \<Rightarrow>
   (redis_reply option \<times> redis_handler \<times> 'w) ub_or" where
  "RedisHandler_command_value cl cmd val s = RedisHandler_command cl cmd (Some val) s"

section \<open>What the callers rely on\<close>

text \<open>
  The contract of a command port: a reply that is handed out is never an error reply, and it
  is the one the handler holds until it is freed; a port that is connected and answered goes
  through to the caller unchanged.
\<close>

locale command_port =
  fixes command :: "string \<Rightarrow> bytes option \<Rightarrow> 's \<Rightarrow> (redis_reply option \<times> 's) ub_or"
    and answer :: "string \<Rightarrow> bytes option \<Rightarrow> 's \<Rightarrow> (redis_reply \<times> 's) option"
    and held :: "'s \<Rightarrow> redis_reply option" and free :: "'s \<Rightarrow> 's"
  assumes no_error: "command c v s = Inr (Some r, s') \<Longrightarrow> reply_type r \<noteq> REPLY_ERROR \<and> held s' = Some r"
    and answered: "answer c v s = Some (r, s') \<Longrightarrow> reply_type r \<noteq> REPLY_ERROR \<Longrightarrow> command c v s = Inr (Some r, s')"
    and freed: "held (free s) = None"
begin

lemma answered_defined: "answer c v s = Some (r, s') \<Longrightarrow> reply_type r \<noteq> REPLY_ERROR \<Longrightarrow> defined (command c v s)"
  by (simp add: answered)

lemma answered_held: "answer c v s = Some (r, s') \<Longrightarrow> reply_type r \<noteq> REPLY_ERROR \<Longrightarrow> held s' = Some r"
  using answered no_error by blast

end

text \<open>What the server answers at once to a connected handler.\<close>

definition prompt_answer ::
  "'w hiredis \<Rightarrow> string \<Rightarrow> bytes option \<Rightarrow> redis_handler \<times> 'w \<Rightarrow> (redis_reply \<times> redis_handler \<times> 'w) option" where
  "prompt_answer cl cmd val s =
     (if context_set (fst s) then
        (case redisCommand cl cmd val (snd s) of
           (None, _) \<Rightarrow> None | (Some r, w1) \<Rightarrow> Some (r, (fst s)\<lparr>reply := Some r\<rparr>, w1))
      else None)"

lemma connect_loop_context: "RedisHandler_connect cl s = (ok, s') \<Longrightarrow> context_set (fst s') = ok"
  by (auto simp: RedisHandler_connect_def split: prod.splits if_splits)

lemma command_loop_reply:
  "command_loop n cl c v s = Inr (Some r, s') \<Longrightarrow>
    reply_type r \<noteq> REPLY_ERROR \<and> reply (fst s') = Some r \<and> context_set (fst s')"
proof (induction n arbitrary: s)
  case 0
  then show ?case by simp
next
  case (Suc n)
  obtain h w where s: "s = (h, w)" by (cases s)
  obtain q w1 where q: "redisCommand cl c v w = (q, w1)" by (cases "redisCommand cl c v w")
  from Suc.prems have ctx: "context_set h" by (simp add: s Let_def split: if_splits)
  show ?case
  proof (cases q)
    case None
    then show ?thesis using Suc.prems s q ctx by (intro Suc.IH) (simp add: Let_def)
  next
    case (Some a)
    show ?thesis
    proof (cases "reply_type a = REPLY_ERROR")
      case True
      then show ?thesis using Suc.prems s q ctx Some by (intro Suc.IH) (simp add: Let_def)
    next
      case False
      then show ?thesis using Suc.prems s q ctx Some by (auto simp: Let_def)
    qed
  qed
qed

lemma command_reply:
  "RedisHandler_command cl c v s = Inr (Some r, s') \<Longrightarrow>
    reply_type r \<noteq> REPLY_ERROR \<and> reply (fst s') = Some r \<and> context_set (fst s')"
  by (auto simp: RedisHandler_command_def dest: command_loop_reply split: if_splits prod.splits)

lemma command_loop_prompt:
  "context_set h \<Longrightarrow> redisCommand cl c v w = (Some r, w1) \<Longrightarrow> reply_type r \<noteq> REPLY_ERROR \<Longrightarrow>
    command_loop (Suc n) cl c v (h, w) = Inr (Some r, h\<lparr>reply := Some r\<rparr>, w1)"
  by (simp add: Let_def)

declare command_loop.simps [simp del]

lemma command_prompt:
  "context_set h \<Longrightarrow> redisCommand cl c v w = (Some r, w1) \<Longrightarrow> reply_type r \<noteq> REPLY_ERROR \<Longrightarrow>
    RedisHandler_command cl c v (h, w) = Inr (Some r, h\<lparr>reply := Some r\<rparr>, w1)"
  using command_loop_prompt [of h cl c v w r w1 2] by (simp add: RedisHandler_command_def eval_nat_numeral)

interpretation redis: command_port "RedisHandler_command cl" "prompt_answer cl" "\<lambda>s. reply (fst s)" freeReply for cl
proof unfold_locales
  show "RedisHandler_command cl c v s = Inr (Some r, s') \<Longrightarrow>
      reply_type r \<noteq> REPLY_ERROR \<and> reply (fst s') = Some r" for c v s r and s' :: "redis_handler \<times> 'a"
    by (drule command_reply) simp
  show "prompt_answer cl c v s = Some (r, s') \<Longrightarrow> reply_type r \<noteq> REPLY_ERROR \<Longrightarrow>
      RedisHandler_command cl c v s = Inr (Some r, s')" for c v s r s'
    by (cases s) (auto simp: prompt_answer_def command_prompt split: if_splits prod.splits option.splits)
  show "reply (fst (freeReply s)) = None" for s :: "redis_handler \<times> 'a"
    by (simp add: freeReply_def split: prod.splits)
qed

end
