(* ===== verification/RedisServer.thy ===== *)
theory RedisServer
  imports RedisHandler Common
begin

text \<open>
  What the documentation of Redis says of the commands the processes send. Redis is not part
  of the repository: it stays a parameter, and \<open>redis_documented\<close> is the hypothesis that
  the parameter behaves as documented on the keys of this program while it is reachable.
\<close>

unbundle bit_operations_syntax

section \<open>The commands\<close>

datatype redis_cmd =
    EXISTS string | DEL string | BITCOUNT string | EXPIRE string nat
  | BITOP_AND string string string string | BITOP_XOR string string string
  | GETRANGE string nat nat | SETRANGE string nat bytes | RENAME string string

fun redis_line :: "redis_cmd \<Rightarrow> string" where
  "redis_line (EXISTS k) = ''EXISTS '' @ k"
| "redis_line (DEL k) = ''DEL '' @ k"
| "redis_line (BITCOUNT k) = ''BITCOUNT '' @ k"
| "redis_line (EXPIRE k n) = ''EXPIRE '' @ k @ '' '' @ show_nat n"
| "redis_line (BITOP_AND d a b c) = ''BITOP AND '' @ d @ '' '' @ a @ '' '' @ b @ '' '' @ c"
| "redis_line (BITOP_XOR d a b) = ''BITOP XOR '' @ d @ '' '' @ a @ '' '' @ b"
| "redis_line (GETRANGE k i j) = ''GETRANGE '' @ k @ '' '' @ show_nat i @ '' '' @ show_nat j"
| "redis_line (SETRANGE k i v) = ''SETRANGE '' @ k @ '' '' @ show_nat i @ '' %b''"
| "redis_line (RENAME a b) = ''RENAME '' @ a @ '' '' @ b"

fun redis_value :: "redis_cmd \<Rightarrow> bytes option" where
  "redis_value (SETRANGE k i v) = Some v"
| "redis_value c = None"

fun redis_keys :: "redis_cmd \<Rightarrow> string list" where
  "redis_keys (EXISTS k) = [k]"
| "redis_keys (DEL k) = [k]"
| "redis_keys (BITCOUNT k) = [k]"
| "redis_keys (EXPIRE k n) = [k]"
| "redis_keys (BITOP_AND d a b c) = [d, a, b, c]"
| "redis_keys (BITOP_XOR d a b) = [d, a, b]"
| "redis_keys (GETRANGE k i j) = [k]"
| "redis_keys (SETRANGE k i v) = [k]"
| "redis_keys (RENAME a b) = [a, b]"

section \<open>Their documented meaning\<close>

text \<open>
  A key space of byte strings; an absent key counts as an empty string. Bit operations pad the
  shorter strings with zero bytes; \<^verbatim>\<open>GETRANGE\<close> cuts the range to the string; \<^verbatim>\<open>SETRANGE\<close> pads with
  zero bytes up to the offset. The time limit that \<^verbatim>\<open>EXPIRE\<close> sets runs off outside of the
  commands.
\<close>

type_synonym keyspace = "string \<Rightarrow> bytes option"

definition content :: "keyspace \<Rightarrow> string \<Rightarrow> bytes" where
  "content db k = (case db k of None \<Rightarrow> [] | Some b \<Rightarrow> b)"

definition pad :: "nat \<Rightarrow> bytes \<Rightarrow> bytes" where
  "pad n b = b @ replicate (n - length b) 0"

definition bitop :: "(u8 \<Rightarrow> u8 \<Rightarrow> u8) \<Rightarrow> bytes \<Rightarrow> bytes \<Rightarrow> bytes" where
  "bitop f a b = map2 f (pad (length b) a) (pad (length a) b)"

definition getrange :: "nat \<Rightarrow> nat \<Rightarrow> bytes \<Rightarrow> bytes" where
  "getrange i j b = take (Suc j - i) (drop i b)"

definition setrange :: "nat \<Rightarrow> bytes \<Rightarrow> bytes \<Rightarrow> bytes" where
  "setrange i v b = take i (pad i b) @ v @ drop (i + length v) b"

definition bitcount :: "bytes \<Rightarrow> nat" where
  "bitcount b = sum_list (map (\<lambda>w. length (filter (bit w) [0..<8])) b)"

definition store :: "string \<Rightarrow> bytes \<Rightarrow> keyspace \<Rightarrow> keyspace" where
  "store k b db = db(k := if b = [] then None else Some b)"

definition int_reply :: "int \<Rightarrow> redis_reply" where
  "int_reply n = \<lparr>reply_type = REPLY_INTEGER, reply_integer = n, reply_str = None\<rparr>"

definition str_reply :: "bytes \<Rightarrow> redis_reply" where
  "str_reply b = \<lparr>reply_type = REPLY_STRING, reply_integer = 0, reply_str = Some b\<rparr>"

definition ok_reply :: redis_reply where
  "ok_reply = \<lparr>reply_type = REPLY_STATUS, reply_integer = 0, reply_str = Some [79, 75]\<rparr>"

definition no_such_key :: redis_reply where
  "no_such_key = \<lparr>reply_type = REPLY_ERROR, reply_integer = 0, reply_str = Some [69, 82, 82]\<rparr>"

definition present :: "keyspace \<Rightarrow> string \<Rightarrow> int" where
  "present db k = (if db k = None then 0 else 1)"

fun redis_effect :: "redis_cmd \<Rightarrow> keyspace \<Rightarrow> keyspace" where
  "redis_effect (DEL k) db = db(k := None)"
| "redis_effect (BITOP_AND d a b c) db =
     store d (bitop (AND) (bitop (AND) (content db a) (content db b)) (content db c)) db"
| "redis_effect (BITOP_XOR d a b) db = store d (bitop (XOR) (content db a) (content db b)) db"
| "redis_effect (SETRANGE k i v) db = (if v = [] then db else db(k := Some (setrange i v (content db k))))"
| "redis_effect (RENAME a b) db = (if db a = None then db else db(a := None, b := db a))"
| "redis_effect c db = db"

fun redis_answer :: "redis_cmd \<Rightarrow> keyspace \<Rightarrow> redis_reply" where
  "redis_answer (EXISTS k) db = int_reply (present db k)"
| "redis_answer (DEL k) db = int_reply (present db k)"
| "redis_answer (BITCOUNT k) db = int_reply (int (bitcount (content db k)))"
| "redis_answer (EXPIRE k n) db = int_reply (present db k)"
| "redis_answer (GETRANGE k i j) db = str_reply (getrange i j (content db k))"
| "redis_answer (RENAME a b) db = (if db a = None then no_such_key else ok_reply)"
| "redis_answer (BITOP_AND d a b c) db = int_reply (int (length (content (redis_effect (BITOP_AND d a b c) db) d)))"
| "redis_answer (BITOP_XOR d a b) db = int_reply (int (length (content (redis_effect (BITOP_XOR d a b) db) d)))"
| "redis_answer (SETRANGE k i v) db = int_reply (int (length (content (redis_effect (SETRANGE k i v) db) k)))"

text \<open>The hypothesis: while Redis is reachable it answers every command as documented.\<close>

definition redis_documented :: "'w hiredis \<Rightarrow> ('w \<Rightarrow> keyspace) \<Rightarrow> ('w \<Rightarrow> bool) \<Rightarrow> bool" where
  "redis_documented cl db reachable \<longleftrightarrow> (\<forall>w c. reachable w \<longrightarrow> set (redis_keys c) \<subseteq> set all_keys \<longrightarrow>
     (\<exists>w'. redisCommand cl (redis_line c) (redis_value c) w = (Some (redis_answer c (db w)), w') \<and>
        reachable w' \<and> db w' = redis_effect c (db w)))"

lemma redis_command:
  assumes "redis_documented cl db up" and "up w" and "context_set h"
    and "set (redis_keys c) \<subseteq> set all_keys" and "reply_type (redis_answer c (db w)) \<noteq> REPLY_ERROR"
  shows "\<exists>h' w'. RedisHandler_command cl (redis_line c) (redis_value c) (h, w) =
      Inr (Some (redis_answer c (db w)), h', w') \<and> context_set h' \<and> up w' \<and> db w' = redis_effect c (db w)"
proof -
  obtain w' where w': "redisCommand cl (redis_line c) (redis_value c) w = (Some (redis_answer c (db w)), w')"
    "up w'" "db w' = redis_effect c (db w)"
    using assms(1,2,4) unfolding redis_documented_def by blast
  have "prompt_answer cl (redis_line c) (redis_value c) (h, w) =
      Some (redis_answer c (db w), h\<lparr>reply := Some (redis_answer c (db w))\<rparr>, w')"
    using assms(3) w'(1) by (simp add: prompt_answer_def)
  from redis.answered [OF this assms(5)] show ?thesis using assms(3) w' by auto
qed

lemma answer_types [simp]:
  "reply_type (int_reply n) = REPLY_INTEGER" "reply_type (str_reply b) = REPLY_STRING"
  "reply_type ok_reply = REPLY_STATUS" "reply_integer (int_reply n) = n" "reply_str (str_reply b) = Some b"
  by (simp_all add: int_reply_def str_reply_def ok_reply_def)

section \<open>Bit strings\<close>

text \<open>Bit \<open>u\<close> of a byte string, counted from the most significant bit of the first byte.\<close>

definition bit_at :: "bytes \<Rightarrow> nat \<Rightarrow> bool" where
  "bit_at b u = (u div 8 < length b \<and> bit (b ! (u div 8)) (7 - u mod 8))"

lemma length_pad [simp]: "length (pad n b) = max n (length b)"
  by (simp add: pad_def)

lemma nth_pad: "i < max n (length b) \<Longrightarrow> pad n b ! i = (if i < length b then b ! i else 0)"
  by (auto simp: pad_def nth_append)

lemma length_bitop [simp]: "length (bitop f a b) = max (length a) (length b)"
  by (simp add: bitop_def)

lemma bit_at_bitop_and: "bit_at (bitop (AND) a b) u \<longleftrightarrow> bit_at a u \<and> bit_at b u"
  by (cases "u div 8 < length a"; cases "u div 8 < length b")
    (simp_all add: bit_at_def bitop_def nth_pad less_max_iff_disj bit_and_iff)

lemma bit_at_bitop_xor: "bit_at (bitop (XOR) a b) u \<longleftrightarrow> bit_at a u \<noteq> bit_at b u"
  by (cases "u div 8 < length a"; cases "u div 8 < length b")
    (simp_all add: bit_at_def bitop_def nth_pad less_max_iff_disj bit_xor_iff)

lemma content_store [simp]: "content (store k b db) j = (if j = k then b else content db j)"
  by (simp add: content_def store_def)

lemma store_None_iff: "store k b db k = None \<longleftrightarrow> b = []"
  by (simp add: store_def)

end
