(* ===== verification/Produce.thy ===== *)
theory Produce
  imports RedisServer
begin

text \<open>
  The first half of \<^verbatim>\<open>ProduceMsgCallData::ProduceMsg\<close> in \<^verbatim>\<open>producer/producer.cpp\<close>: the bitmap of
  the users who get the message is built in Redis and read back, under \<^verbatim>\<open>redisMtx\<close>, and
  decoded into the list of user ids. The bitmap of uid \<open>u\<close> has its bit in byte \<open>u div 8\<close>, the
  most significant bit first.
\<close>

unbundle bit_operations_syntax

section \<open>Reading the bitmap\<close>

definition BITS_PER_BYTE :: nat where "BITS_PER_BYTE = 8"

text \<open>
  The key that holds the users of a push is made if it is not there: the users in all three
  release sets, kept for half an hour. \<open>False\<close> is the return with \<^verbatim>\<open>common::ERR\<close>.
\<close>

definition ensure_user_info ::
  "'w hiredis \<Rightarrow> redis_handler \<times> 'w \<Rightarrow> (bool \<times> redis_handler \<times> 'w) ub_or" where
  "ensure_user_info cl s =
     (case RedisHandler_command cl (''EXISTS '' @ TMP_USER_INFO_KEY) None s of
        Inl e \<Rightarrow> Inl e
      | Inr (None, s1) \<Rightarrow> Inr (False, s1)
      | Inr (Some r1, s1) \<Rightarrow>
          if reply_integer r1 = 0 then
            (case RedisHandler_command cl (''BITOP AND '' @ TMP_USER_INFO_KEY
                  @ '' '' @ genReleaseKey (USER_INFO_KEY ! 0) @ '' '' @ genReleaseKey (USER_INFO_KEY ! 1)
                  @ '' '' @ genReleaseKey (USER_INFO_KEY ! 2)) None (freeReply s1) of
               Inl e \<Rightarrow> Inl e
             | Inr (None, s2) \<Rightarrow> Inr (False, s2)
             | Inr (Some r2, s2) \<Rightarrow>
                 if reply_integer r2 \<le> 0 then Inr (False, s2)
                 else
                   (case RedisHandler_command cl (''EXPIRE '' @ TMP_USER_INFO_KEY @ '' ''
                         @ show_nat (unat (30 * SECONDS_PER_MINUTE))) None (freeReply s2) of
                      Inl e \<Rightarrow> Inl e
                    | Inr (None, s3) \<Rightarrow> Inr (False, s3)
                    | Inr (Some r3, s3) \<Rightarrow>
                        if reply_integer r3 = 0 then Inr (False, s3) else Inr (True, freeReply s3)))
          else Inr (True, freeReply s1))"

text \<open>
  \<^verbatim>\<open>string(ptr, len)\<close>: the buffer of a reply holds its bytes and a NUL; beyond them, the copy reads
  out of bounds. From a null pointer only nothing can be copied.
\<close>

definition copy_string :: "bytes option \<Rightarrow> u64 \<Rightarrow> bytes ub_or" where
  "copy_string p len =
     (case p of None \<Rightarrow> if len = 0 then Inr [] else Inl NullDeref
      | Some b \<Rightarrow> if unat len \<le> Suc (length b) then Inr (take (unat len) (b @ [0])) else Inl OutOfBounds)"

definition user_info_len :: "u64 \<Rightarrow> u64 \<Rightarrow> u64" where
  "user_info_len startUid endUid = endUid div 8 - startUid div 8 + 1"

definition read_user_info ::
  "'w hiredis \<Rightarrow> u64 \<Rightarrow> u64 \<Rightarrow> redis_handler \<times> 'w \<Rightarrow> (bytes option \<times> redis_handler \<times> 'w) ub_or" where
  "read_user_info cl startUid endUid s =
     (case ensure_user_info cl s of
        Inl e \<Rightarrow> Inl e
      | Inr (False, s1) \<Rightarrow> Inr (None, s1)
      | Inr (True, s1) \<Rightarrow>
          (case RedisHandler_command cl (''GETRANGE '' @ TMP_USER_INFO_KEY @ '' ''
                @ show_nat (unat (startUid div 8)) @ '' '' @ show_nat (unat (endUid div 8))) None s1 of
             Inl e \<Rightarrow> Inl e
           | Inr (None, s2) \<Rightarrow> Inr (None, s2)
           | Inr (Some r, s2) \<Rightarrow>
               (case copy_string (reply_str r) (user_info_len startUid endUid) of
                  Inl e \<Rightarrow> Inl e | Inr b \<Rightarrow> Inr (Some b, freeReply s2))))"

section \<open>Decoding it\<close>

text \<open>The two loops: byte \<open>i\<close>, bit \<open>j\<close>; the uid is \<^verbatim>\<open>startUid + BITS_PER_BYTE * i + j\<close>.\<close>

definition byte_uids :: "u64 \<Rightarrow> nat \<Rightarrow> u8 \<Rightarrow> u64 list" where
  "byte_uids startUid i b =
     map (\<lambda>j. startUid + word_of_nat (BITS_PER_BYTE * i + j)) (filter (\<lambda>j. bit b (7 - j)) [0..<BITS_PER_BYTE])"

fun decode_uids :: "u64 \<Rightarrow> nat \<Rightarrow> bytes \<Rightarrow> u64 list" where
  "decode_uids startUid i [] = []"
| "decode_uids startUid i (b # bs) = byte_uids startUid i b @ decode_uids startUid (Suc i) bs"

definition uids_to_send ::
  "'w hiredis \<Rightarrow> u64 \<Rightarrow> u64 \<Rightarrow> redis_handler \<times> 'w \<Rightarrow> (u64 list option \<times> redis_handler \<times> 'w) ub_or" where
  "uids_to_send cl startUid endUid s =
     (case read_user_info cl startUid endUid s of
        Inl e \<Rightarrow> Inl e
      | Inr (None, s1) \<Rightarrow> Inr (None, s1)
      | Inr (Some b, s1) \<Rightarrow> Inr (Some (decode_uids startUid 0 b), s1))"

section \<open>Keys and command lines\<close>

lemma keys_known [simp]:
  "TMP_USER_INFO_KEY \<in> set all_keys" "genReleaseKey (USER_INFO_KEY ! 0) \<in> set all_keys"
  "genReleaseKey (USER_INFO_KEY ! Suc 0) \<in> set all_keys" "genReleaseKey (USER_INFO_KEY ! 2) \<in> set all_keys"
  by (simp_all add: all_keys_def USER_INFO_KEY_def)

lemma tmp_key_not_release: "genReleaseKey k \<noteq> TMP_USER_INFO_KEY"
proof
  assume "genReleaseKey k = TMP_USER_INFO_KEY"
  then have "last (genReleaseKey k) = last TMP_USER_INFO_KEY" by simp
  then show False by (simp add: genReleaseKey_def TMP_USER_INFO_KEY_def)
qed

section \<open>The state of a reachable Redis\<close>

text \<open>
  \<open>reads\<close>: the handler is connected, Redis is reachable and holds a key space; every
  documented command takes such a state to such a state.
\<close>

definition holds :: "('w \<Rightarrow> keyspace) \<Rightarrow> ('w \<Rightarrow> bool) \<Rightarrow> keyspace \<Rightarrow> redis_handler \<times> 'w \<Rightarrow> bool" where
  "holds db up ks s \<longleftrightarrow> context_set (fst s) \<and> up (snd s) \<and> db (snd s) = ks"

lemma holds_free [simp]: "holds db up ks (freeReply s) = holds db up ks s"
  by (simp add: holds_def freeReply_def split: prod.splits)

lemma holds_command:
  assumes "redis_documented cl db up" and "holds db up ks s" and "set (redis_keys c) \<subseteq> set all_keys"
    and "reply_type (redis_answer c ks) \<noteq> REPLY_ERROR"
  obtains s' where "RedisHandler_command cl (redis_line c) (redis_value c) s = Inr (Some (redis_answer c ks), s')"
    "holds db up (redis_effect c ks) s'"
  using redis_command [OF assms(1), of "snd s" "fst s" c] assms(2-4) that
  by (auto simp: holds_def)

text \<open>The users of a push: those in all three release sets.\<close>

definition push_set :: "keyspace \<Rightarrow> bytes" where
  "push_set ks = bitop (AND) (bitop (AND) (content ks (genReleaseKey (USER_INFO_KEY ! 0)))
     (content ks (genReleaseKey (USER_INFO_KEY ! 1)))) (content ks (genReleaseKey (USER_INFO_KEY ! 2)))"

lemma bit_at_push_set:
  "bit_at (push_set ks) u \<longleftrightarrow> (\<forall>t < 3. bit_at (content ks (genReleaseKey (USER_INFO_KEY ! t))) u)"
  by (auto simp: push_set_def bit_at_bitop_and numeral_3_eq_3 numeral_2_eq_2 less_Suc_eq)

definition with_user_info :: "keyspace \<Rightarrow> keyspace" where
  "with_user_info ks = (if ks TMP_USER_INFO_KEY = None then store TMP_USER_INFO_KEY (push_set ks) ks else ks)"

lemma ensure_user_info_reachable:
  assumes doc: "redis_documented cl db up" and h: "holds db up ks s"
  shows "\<exists>s'. ensure_user_info cl s = Inr (with_user_info ks TMP_USER_INFO_KEY \<noteq> None, s') \<and>
    holds db up (with_user_info ks) s'"
proof -
  obtain s1 where s1: "RedisHandler_command cl (''EXISTS '' @ TMP_USER_INFO_KEY) None s =
      Inr (Some (int_reply (present ks TMP_USER_INFO_KEY)), s1)" "holds db up ks s1"
    using holds_command [OF doc h, of "EXISTS TMP_USER_INFO_KEY"] by auto
  show ?thesis
  proof (cases "ks TMP_USER_INFO_KEY = None")
    case False
    with s1 show ?thesis
      by (auto simp: ensure_user_info_def present_def with_user_info_def)
  next
    case True
    let ?ks = "store TMP_USER_INFO_KEY (push_set ks) ks"
    have h1: "holds db up ks (freeReply s1)" using s1(2) by simp
    obtain s2 where s2: "RedisHandler_command cl (''BITOP AND '' @ TMP_USER_INFO_KEY
          @ '' '' @ genReleaseKey (USER_INFO_KEY ! 0) @ '' '' @ genReleaseKey (USER_INFO_KEY ! 1)
          @ '' '' @ genReleaseKey (USER_INFO_KEY ! 2)) None (freeReply s1) =
        Inr (Some (int_reply (int (length (push_set ks)))), s2)" "holds db up ?ks s2"
      using holds_command [OF doc h1, of "BITOP_AND TMP_USER_INFO_KEY (genReleaseKey (USER_INFO_KEY ! 0))
        (genReleaseKey (USER_INFO_KEY ! 1)) (genReleaseKey (USER_INFO_KEY ! 2))"]
      by (auto simp: push_set_def)
    show ?thesis
    proof (cases "push_set ks = []")
      case empty: True
      with s1(1) s2 True show ?thesis
        by (auto simp: ensure_user_info_def present_def with_user_info_def store_None_iff)
    next
      case some: False
      have h2: "holds db up ?ks (freeReply s2)" using s2(2) by simp
      obtain s3 where s3: "RedisHandler_command cl (''EXPIRE '' @ TMP_USER_INFO_KEY @ '' ''
            @ show_nat (unat (30 * SECONDS_PER_MINUTE))) None (freeReply s2) =
          Inr (Some (int_reply (present ?ks TMP_USER_INFO_KEY)), s3)" "holds db up ?ks s3"
        using holds_command [OF doc h2, of "EXPIRE TMP_USER_INFO_KEY (unat (30 * SECONDS_PER_MINUTE))"] by auto
      with s1(1) s2(1) True some show ?thesis
        by (auto simp: ensure_user_info_def present_def with_user_info_def store_None_iff)
    qed
  qed
qed

lemma read_user_info_reachable:
  assumes doc: "redis_documented cl db up" and h: "holds db up ks s"
  shows "\<exists>s'. read_user_info cl startUid endUid s =
      (if with_user_info ks TMP_USER_INFO_KEY = None then Inr (None, s')
       else case copy_string (Some (getrange (unat (startUid div 8)) (unat (endUid div 8))
              (content (with_user_info ks) TMP_USER_INFO_KEY))) (user_info_len startUid endUid) of
            Inl e \<Rightarrow> Inl e | Inr b \<Rightarrow> Inr (Some b, s')) \<and>
    holds db up (with_user_info ks) s'"
proof -
  obtain s1 where s1: "ensure_user_info cl s = Inr (with_user_info ks TMP_USER_INFO_KEY \<noteq> None, s1)"
    "holds db up (with_user_info ks) s1"
    using ensure_user_info_reachable [OF doc h] by blast
  show ?thesis
  proof (cases "with_user_info ks TMP_USER_INFO_KEY = None")
    case True
    with s1 show ?thesis by (auto simp: read_user_info_def)
  next
    case False
    obtain s2 where "RedisHandler_command cl (''GETRANGE '' @ TMP_USER_INFO_KEY @ '' ''
          @ show_nat (unat (startUid div 8)) @ '' '' @ show_nat (unat (endUid div 8))) None s1 =
        Inr (Some (str_reply (getrange (unat (startUid div 8)) (unat (endUid div 8))
              (content (with_user_info ks) TMP_USER_INFO_KEY))), s2)" "holds db up (with_user_info ks) s2"
      using holds_command [OF doc s1(2), of "GETRANGE TMP_USER_INFO_KEY (unat (startUid div 8)) (unat (endUid div 8))"]
      by auto
    with s1(1) False show ?thesis
      by (intro exI [of _ "freeReply s2"]) (simp add: read_user_info_def split: sum.splits)
  qed
qed

end
