(* ===== verification/ProduceFacts.thy ===== *)
theory ProduceFacts
  imports Produce
begin

text \<open>
  Which user ids \<^verbatim>\<open>ProduceMsg\<close> takes out of the bitmap, as an equation between lists: the
  decoding loops against the positions of the one-bits, and the range that is read.
\<close>

section \<open>The loops and the positions of the one-bits\<close>

lemma bit_at_Cons_low: "u < 8 \<Longrightarrow> bit_at (b # bs) u = bit b (7 - u)"
  by (simp add: bit_at_def)

lemma bit_at_Cons_high: "bit_at (b # bs) (8 + u) = bit_at bs u"
  by (simp add: bit_at_def)

lemma filter_upt_shift: "filter P [k..<k + n] = map ((+) k) (filter (\<lambda>u. P (k + u)) [0..<n])"
proof -
  have "(\<lambda>i. i + k) = (+) k" by (simp add: fun_eq_iff)
  then have "[k..<k + n] = map ((+) k) [0..<n]"
    using map_add_upt [of k n] by (simp add: add.commute [of k n])
  then show ?thesis by (simp add: filter_map comp_def)
qed

lemma ones_Cons:
  "filter (bit_at (b # bs)) [0..<8 * length (b # bs)] =
    filter (\<lambda>j. bit b (7 - j)) [0..<8] @ map ((+) 8) (filter (bit_at bs) [0..<8 * length bs])"
proof -
  have "[0..<8 * length (b # bs)] = [0..<8] @ [8..<8 + 8 * length bs]"
    using upt_add_eq_append [of 0 8 "8 * length bs"] by simp
  moreover have "filter (bit_at (b # bs)) [0..<8] = filter (\<lambda>j. bit b (7 - j)) [0..<8]"
    by (rule filter_cong) (simp_all add: bit_at_Cons_low)
  ultimately show ?thesis
    by (simp add: filter_upt_shift bit_at_Cons_high del: upt_Suc)
qed

lemma decode_uids_eq:
  "decode_uids start i b =
    map (\<lambda>u. start + word_of_nat (8 * i + u)) (filter (bit_at b) [0..<8 * length b])"
proof (induction b arbitrary: i)
  case Nil
  then show ?case by simp
next
  case (Cons b bs)
  show ?case
    unfolding ones_Cons map_append decode_uids.simps Cons.IH
    by (simp add: byte_uids_def BITS_PER_BYTE_def comp_def algebra_simps)
qed

section \<open>The range that is read\<close>

lemma bit_at_getrange:
  assumes "j < length b"
  shows "bit_at (getrange i j b) u \<longleftrightarrow> u < 8 * (Suc j - i) \<and> bit_at b (8 * i + u)"
proof -
  have "i + u div 8 = (8 * i + u) div 8" "(8 * i + u) mod 8 = u mod 8" by simp_all
  moreover have "u div 8 < Suc j - i \<longleftrightarrow> u < 8 * (Suc j - i)"
    by (simp add: div_less_iff_less_mult mult.commute)
  ultimately show ?thesis using assms
    by (auto simp: bit_at_def getrange_def nth_append)
qed

lemma length_getrange: "length (getrange i j b) = min (Suc j - i) (length b - i)"
  by (simp add: getrange_def min.commute)

lemma user_info_len_eq:
  "startUid \<le> endUid \<Longrightarrow> unat (user_info_len startUid endUid) = unat endUid div 8 - unat startUid div 8 + 1"
proof -
  assume le: "startUid \<le> endUid"
  then have d: "unat startUid div 8 \<le> unat endUid div 8" by (simp add: word_le_nat_alt div_le_mono)
  have q: "unat (w div 8) = unat w div 8" for w :: u64 by (simp add: unat_div)
  have "startUid div 8 \<le> endUid div 8" using d by (simp add: word_le_nat_alt q)
  then have s: "unat (endUid div 8 - startUid div 8) = unat endUid div 8 - unat startUid div 8"
    by (simp add: unat_sub q)
  have "unat endUid div 8 < 2 ^ 61" using unat_u64_bound [of endUid] by (simp add: div_less_iff_less_mult)
  then have "unat (endUid div 8 - startUid div 8) + unat (1 :: u64) < 2 ^ 64" using s by simp
  from unat_add_no_wrap64 [OF this] show ?thesis using s by (simp add: user_info_len_def)
qed

lemma unat_div8: "unat (w div 8 :: u64) = unat w div 8"
  by (simp add: unat_div)

text \<open>A range inside the bitmap is read whole; one that misses two bytes or more is read past its end.\<close>

lemma copy_inside:
  assumes "startUid \<le> endUid" and "unat endUid div 8 < length b"
  shows "copy_string (Some (getrange (unat (startUid div 8)) (unat (endUid div 8)) b)) (user_info_len startUid endUid) =
    Inr (getrange (unat startUid div 8) (unat endUid div 8) b)"
proof -
  have "unat startUid div 8 \<le> unat endUid div 8" using assms(1) by (simp add: word_le_nat_alt div_le_mono)
  then have "length (getrange (unat startUid div 8) (unat endUid div 8) b) =
      Suc (unat endUid div 8 - unat startUid div 8)"
    using assms(2) by (simp add: length_getrange Suc_diff_le)
  then show ?thesis
    by (simp add: copy_string_def user_info_len_eq [OF assms(1)] unat_div8)
qed

lemma copy_outside:
  assumes "startUid \<le> endUid" and "length b < unat endUid div 8" and "unat startUid div 8 < unat endUid div 8"
  shows "copy_string (Some (getrange (unat (startUid div 8)) (unat (endUid div 8)) b)) (user_info_len startUid endUid) =
    Inl OutOfBounds"
  using assms by (simp add: copy_string_def user_info_len_eq [OF assms(1)] unat_div8 length_getrange)

section \<open>The user ids\<close>

lemma decode_range:
  assumes le: "startUid \<le> endUid" and inside: "unat endUid div 8 < length b"
    and room: "unat endUid < 2 ^ 64 - 16"
  shows "map unat (decode_uids startUid 0 (getrange (unat startUid div 8) (unat endUid div 8) b)) =
    map (\<lambda>v. v + unat startUid mod 8) (filter (bit_at b) [8 * (unat startUid div 8)..<8 * (unat endUid div 8) + 8])"
proof -
  let ?i = "unat startUid div 8" and ?j = "unat endUid div 8"
  let ?n = "8 * (Suc ?j - ?i)" and ?g = "getrange ?i ?j b"
  have ij: "?i \<le> ?j" using le by (simp add: word_le_nat_alt div_le_mono)
  have len: "8 * length ?g = ?n" using inside ij by (simp add: length_getrange)
  have up: "8 * ?i + ?n = 8 * ?j + 8" using ij by simp
  have f: "filter (bit_at ?g) [0..<?n] = filter (\<lambda>u. bit_at b (8 * ?i + u)) [0..<?n]"
    by (rule filter_cong) (simp_all add: bit_at_getrange [OF inside])
  have w: "unat (startUid + word_of_nat u) = 8 * ?i + u + unat startUid mod 8" if "u < ?n" for u
  proof -
    have b: "8 * ?i + unat startUid mod 8 = unat startUid" by simp
    have "8 * ?j \<le> unat endUid" by simp
    then have "unat startUid + u < 2 ^ 64" using that up b room by linarith
    moreover from this have "unat (word_of_nat u :: u64) = u" by (simp add: unat_of_nat take_bit_nat_eq_self)
    ultimately have "unat (startUid + word_of_nat u) = unat startUid + u" by (subst unat_add_no_wrap64) simp_all
    with b show ?thesis by linarith
  qed
  have "map unat (decode_uids startUid 0 ?g) =
      map (\<lambda>u. unat (startUid + word_of_nat u)) (filter (bit_at ?g) [0..<?n])"
    unfolding decode_uids_eq len by (simp add: comp_def)
  also have "\<dots> = map (\<lambda>u. 8 * ?i + u + unat startUid mod 8) (filter (bit_at ?g) [0..<?n])"
    by (rule map_cong [OF refl]) (simp add: w)
  also have "\<dots> = map (\<lambda>v. v + unat startUid mod 8) (filter (bit_at b) [8 * ?i..<8 * ?i + ?n])"
    unfolding filter_upt_shift f by (simp add: comp_def)
  finally show ?thesis unfolding up .
qed

lemma uids_to_send_reachable:
  assumes doc: "redis_documented cl db up" and h: "holds db up ks s"
    and some: "with_user_info ks TMP_USER_INFO_KEY = Some b"
    and le: "startUid \<le> endUid" and inside: "unat endUid div 8 < length b"
  shows "\<exists>s'. uids_to_send cl startUid endUid s =
      Inr (Some (decode_uids startUid 0 (getrange (unat startUid div 8) (unat endUid div 8) b)), s') \<and>
    holds db up (with_user_info ks) s'"
proof -
  have c: "content (with_user_info ks) TMP_USER_INFO_KEY = b" using some by (simp add: content_def)
  show ?thesis
    using read_user_info_reachable [OF doc h, of startUid endUid] some
    by (auto simp: c copy_inside [OF le inside] uids_to_send_def)
qed

lemma uids_to_send_overread:
  assumes doc: "redis_documented cl db up" and h: "holds db up ks s"
    and some: "with_user_info ks TMP_USER_INFO_KEY = Some b"
    and le: "startUid \<le> endUid" and outside: "length b < unat endUid div 8" "unat startUid div 8 < unat endUid div 8"
  shows "uids_to_send cl startUid endUid s = Inl OutOfBounds"
proof -
  have c: "content (with_user_info ks) TMP_USER_INFO_KEY = b" using some by (simp add: content_def)
  show ?thesis
    using read_user_info_reachable [OF doc h, of startUid endUid] some
    by (auto simp: c copy_outside [OF le outside] uids_to_send_def)
qed

lemma uids_to_send_empty:
  assumes doc: "redis_documented cl db up" and h: "holds db up ks s"
    and none: "with_user_info ks TMP_USER_INFO_KEY = None"
  shows "\<exists>s'. uids_to_send cl startUid endUid s = Inr (None, s') \<and> holds db up (with_user_info ks) s'"
  using read_user_info_reachable [OF doc h, of startUid endUid] none
  by (auto simp: uids_to_send_def)

text \<open>A chunk whose start is a multiple of 8, while no user key is cached.\<close>

lemma uids_to_send_push_set:
  assumes "redis_documented cl db up" and "holds db up ks s" and "ks TMP_USER_INFO_KEY = None"
    and "startUid \<le> endUid" and "unat endUid div 8 < length (push_set ks)"
    and "unat endUid < 2 ^ 64 - 16" and "unat startUid mod 8 = 0"
  shows "\<exists>uids s'. uids_to_send cl startUid endUid s = Inr (Some uids, s') \<and>
    map unat uids = filter (\<lambda>u. \<forall>t < 3. bit_at (content ks (genReleaseKey (USER_INFO_KEY ! t))) u)
      [unat startUid..<8 * (unat endUid div 8) + 8]"
proof -
  have tmp: "with_user_info ks TMP_USER_INFO_KEY = Some (push_set ks)"
    using assms(3,5) by (auto simp: with_user_info_def store_def)
  have st: "8 * (unat startUid div 8) = unat startUid" using assms(7) by (simp add: mult_div_mod_eq [symmetric] dvd_imp_mod_0 mod_eq_0_iff_dvd)
  show ?thesis
    using uids_to_send_reachable [OF assms(1,2) tmp assms(4,5)] decode_range [OF assms(4-6)]
    by (auto simp: st assms(7) bit_at_push_set [abs_def])
qed

end
