(* ===== verification/ProducerSystem.thy ===== *)
theory ProducerSystem
  imports Produce CallData Messages Runs
begin

text \<open>
  The producer process of \<^verbatim>\<open>producer/producer.cpp\<close>: the \<^verbatim>\<open>ProduceMsgCallData\<close> objects, the
  threads that hand messages to RocketMQ and its callbacks, as a step relation. The message
  queue is outside: whether \<^verbatim>\<open>send\<close> throws, and which callback comes, is part of the event. The
  serialisation of a \<^verbatim>\<open>ProducerMsg\<close> is a parameter, a function of the uid and the message id.
\<close>

section \<open>State\<close>

text \<open>
  A \<^verbatim>\<open>ProduceMsgCallData\<close> whose RPC has arrived. \<^verbatim>\<open>waitForSendCount\<close> has no value until \<^verbatim>\<open>ProduceMsg\<close>
  assigns it, and is not read before that; the model starts it at 0.
\<close>

record job =
  job_request :: produce_request
  job_status :: call_status
  waitForSendCount :: u32
  job_reply :: "err_code option"

text \<open>
  The threads and what they have to do, and the messages RocketMQ holds: the rest of the sending
  loop of \<^verbatim>\<open>ProduceMsg\<close>; a message whose callback has not come; a thread in \<^verbatim>\<open>RetrySending\<close>; a
  thread in \<^verbatim>\<open>NotifyOne\<close> after \<^verbatim>\<open>responder_.Finish\<close>, about to unlock the mutex of the object.
  Objects are numbered in the order their RPC arrives.
\<close>

datatype worker =
    Sending nat "string list" | AtBroker nat string | Retrying nat string | Unlocking nat

record 'w producer_sys =
  redis :: "redis_handler \<times> 'w"
  created :: nat
  jobs :: "nat \<Rightarrow> job option"
  workers :: "worker multiset"
  taskCount :: u32
  tps_count :: int

definition producer_init :: "redis_handler \<times> 'w \<Rightarrow> 'w producer_sys" where
  "producer_init r = \<lparr>redis = r, created = 0, jobs = (\<lambda>_. None), workers = {#}, taskCount = 0, tps_count = 0\<rparr>"

section \<open>A request arrives\<close>

text \<open>
  \<^verbatim>\<open>ProduceMsg\<close> for the object \<open>j\<close> with number \<open>n\<close>: the users, then either the start of the sending
  loop or, for no user at all, the answer. \<open>None\<close> is the return with \<^verbatim>\<open>common::ERR\<close>.
\<close>

definition ProduceMsg ::
  "'w hiredis \<Rightarrow> (u64 \<Rightarrow> u32 \<Rightarrow> string) \<Rightarrow> nat \<Rightarrow> job \<Rightarrow> 'w producer_sys \<Rightarrow>
   (u64 list option \<times> 'w producer_sys) ub_or" where
  "ProduceMsg cl serialize n j s =
     (let req = job_request j in
      case uids_to_send cl (start_uid req) (end_uid req) (redis s) of
        Inl e \<Rightarrow> Inl e
      | Inr (None, r) \<Rightarrow> Inr (None, s\<lparr>redis := r, jobs := (jobs s)(n \<mapsto> j)\<rparr>)
      | Inr (Some uids, r) \<Rightarrow>
          let j1 = j\<lparr>waitForSendCount := word_of_nat (length uids)\<rparr>; s2 = s\<lparr>redis := r\<rparr> in
          Inr (Some uids,
            if uids \<noteq> [] then
              s2\<lparr>jobs := (jobs s)(n \<mapsto> j1),
                 workers := add_mset (Sending n (map (\<lambda>u. serialize u (msg_id req)) uids)) (workers s)\<rparr>
            else s2\<lparr>jobs := (jobs s)(n \<mapsto> j1\<lparr>job_status := FINISH, job_reply := Some SUCCESS\<rparr>)\<rparr>))"

text \<open>
  The \<^verbatim>\<open>PROCESS\<close> branch of \<^verbatim>\<open>Proceed\<close>: the result of \<^verbatim>\<open>ProduceMsg\<close> is not looked at, so where it
  is an error nothing is answered.
\<close>

definition Proceed_request ::
  "'w hiredis \<Rightarrow> (u64 \<Rightarrow> u32 \<Rightarrow> string) \<Rightarrow> produce_request \<Rightarrow> 'w producer_sys \<Rightarrow>
   (u64 list option \<times> 'w producer_sys) ub_or" where
  "Proceed_request cl serialize req s =
     ProduceMsg cl serialize (created s)
       \<lparr>job_request = req, job_status = PROCESS, waitForSendCount = 0, job_reply = None\<rparr>
       (s\<lparr>created := Suc (created s), taskCount := taskCount s + 1\<rparr>)"

text \<open>
  The object that \<^verbatim>\<open>Proceed\<close> finds: its constructor ran the \<^verbatim>\<open>CREATE\<close> branch, which makes its status
  \<^verbatim>\<open>PROCESS\<close> and asks for a request, and gRPC wrote the request into it.
\<close>

definition ProduceMsgCallData :: "produce_request \<Rightarrow> job" where
  "ProduceMsgCallData req = \<lparr>job_request = req, job_status = PROCESS, waitForSendCount = 0, job_reply = None\<rparr>"

lemma Proceed_request_object:
  "Proceed_request cl serialize req s = ProduceMsg cl serialize (created s) (ProduceMsgCallData req)
     (s\<lparr>created := Suc (created s), taskCount := taskCount s + 1\<rparr>)"
  by (simp add: Proceed_request_def ProduceMsgCallData_def)

section \<open>Sending a message\<close>

text \<open>
  \<^verbatim>\<open>AsyncProducerWorker\<close>: the message goes to RocketMQ and the thread goes on with \<open>next\<close>, or
  \<^verbatim>\<open>send\<close> throws and the thread, after a second, is where it was (\<open>again\<close>).
\<close>

definition AsyncProducerWorker ::
  "bool \<Rightarrow> nat \<Rightarrow> string \<Rightarrow> worker multiset \<Rightarrow> worker multiset \<Rightarrow> worker multiset" where
  "AsyncProducerWorker accepted n body again next =
     (if accepted then add_mset (AtBroker n body) next else again)"

definition drop_worker :: "worker \<Rightarrow> 'w producer_sys \<Rightarrow> 'w producer_sys" where
  "drop_worker t s = s\<lparr>workers := workers s - {#t#}\<rparr>"

definition send_next :: "bool \<Rightarrow> nat \<Rightarrow> string \<Rightarrow> string list \<Rightarrow> 'w producer_sys \<Rightarrow> 'w producer_sys" where
  "send_next accepted n b bs s =
     s\<lparr>workers := AsyncProducerWorker accepted n b (add_mset (Sending n (b # bs)) (workers s))
         (if bs = [] then workers s else add_mset (Sending n bs) (workers s))\<rparr>"

section \<open>The callbacks\<close>

text \<open>
  \<^verbatim>\<open>NotifyOne\<close> on the object \<open>n\<close>. The mutex is free when it is entered: only the last call leaves
  it locked at the end of this part, and after it no callback of the object is left.
\<close>

definition NotifyOne :: "nat \<Rightarrow> 'w producer_sys \<Rightarrow> 'w producer_sys ub_or" where
  "NotifyOne n s =
     (case jobs s n of
        None \<Rightarrow> Inl UseAfterFree
      | Some j \<Rightarrow>
          let j1 = j\<lparr>waitForSendCount := waitForSendCount j - 1\<rparr> in
          if waitForSendCount j1 = 0 then
            Inr (s\<lparr>taskCount := taskCount s - 1,
                   jobs := (jobs s)(n \<mapsto> j1\<lparr>job_status := FINISH, job_reply := Some SUCCESS\<rparr>),
                   workers := add_mset (Unlocking n) (workers s)\<rparr>)
          else Inr (s\<lparr>jobs := (jobs s)(n \<mapsto> j1)\<rparr>))"

definition unlock :: "nat \<Rightarrow> 'w producer_sys \<Rightarrow> 'w producer_sys ub_or" where
  "unlock n s = (case jobs s n of None \<Rightarrow> Inl UseAfterFree | Some _ \<Rightarrow> Inr s)"

definition onSuccess :: "nat \<Rightarrow> 'w producer_sys \<Rightarrow> 'w producer_sys ub_or" where
  "onSuccess n s = NotifyOne n (s\<lparr>tps_count := tps_count s + 1\<rparr>)"

definition onException :: "nat \<Rightarrow> string \<Rightarrow> 'w producer_sys \<Rightarrow> 'w producer_sys" where
  "onException n body s = s\<lparr>workers := add_mset (Retrying n body) (workers s)\<rparr>"

definition RetrySending :: "bool \<Rightarrow> nat \<Rightarrow> string \<Rightarrow> 'w producer_sys \<Rightarrow> 'w producer_sys" where
  "RetrySending accepted n body s =
     s\<lparr>workers := AsyncProducerWorker accepted n body (add_mset (Retrying n body) (workers s)) (workers s)\<rparr>"

text \<open>The completion of the reply: the \<^verbatim>\<open>FINISH\<close> branch of \<^verbatim>\<open>Proceed\<close> deletes the object.\<close>

definition Proceed_finish :: "nat \<Rightarrow> 'w producer_sys \<Rightarrow> 'w producer_sys" where
  "Proceed_finish n s = s\<lparr>jobs := (jobs s)(n := None)\<rparr>"

section \<open>Steps\<close>

datatype producer_event =
    Request nat produce_request "u64 list option"
  | Send nat string "string list" bool
  | Acknowledged nat string
  | Rejected nat string
  | Retry nat string bool
  | Unlock nat
  | ReplyDone nat

inductive producer_step ::
  "'w hiredis \<Rightarrow> (u64 \<Rightarrow> u32 \<Rightarrow> string) \<Rightarrow> producer_event \<Rightarrow> 'w producer_sys \<Rightarrow> 'w producer_sys \<Rightarrow> bool"
  for cl ser where
  request: "n = created s \<Longrightarrow> Proceed_request cl ser req s = Inr (res, s') \<Longrightarrow>
    producer_step cl ser (Request n req res) s s'"
| send: "Sending n (b # bs) \<in># workers s \<Longrightarrow>
    producer_step cl ser (Send n b bs acc) s (send_next acc n b bs (drop_worker (Sending n (b # bs)) s))"
| acknowledged: "AtBroker n b \<in># workers s \<Longrightarrow> onSuccess n (drop_worker (AtBroker n b) s) = Inr s' \<Longrightarrow>
    producer_step cl ser (Acknowledged n b) s s'"
| rejected: "AtBroker n b \<in># workers s \<Longrightarrow>
    producer_step cl ser (Rejected n b) s (onException n b (drop_worker (AtBroker n b) s))"
| retry: "Retrying n b \<in># workers s \<Longrightarrow>
    producer_step cl ser (Retry n b acc) s (RetrySending acc n b (drop_worker (Retrying n b) s))"
| unlock: "Unlocking n \<in># workers s \<Longrightarrow> unlock n (drop_worker (Unlocking n) s) = Inr s' \<Longrightarrow>
    producer_step cl ser (Unlock n) s s'"
| reply_done: "jobs s n = Some j \<Longrightarrow> job_status j = FINISH \<Longrightarrow>
    producer_step cl ser (ReplyDone n) s (Proceed_finish n s)"

inductive_cases producer_step_elims:
  "producer_step cl ser (Request n req res) s s'" "producer_step cl ser (Send n b bs acc) s s'"
  "producer_step cl ser (Acknowledged n b) s s'" "producer_step cl ser (Rejected n b) s s'"
  "producer_step cl ser (Retry n b acc) s s'" "producer_step cl ser (Unlock n) s s'"
  "producer_step cl ser (ReplyDone n) s s'"

definition exec_producer ::
  "'w hiredis \<Rightarrow> (u64 \<Rightarrow> u32 \<Rightarrow> string) \<Rightarrow> producer_event \<Rightarrow> 'w producer_sys \<Rightarrow> 'w producer_sys option" where
  "exec_producer cl ser ev s =
     (case ev of
        Request n req res \<Rightarrow>
          (case Proceed_request cl ser req s of
             Inl _ \<Rightarrow> None | Inr (res', s') \<Rightarrow> if n = created s \<and> res' = res then Some s' else None)
      | Send n b bs acc \<Rightarrow>
          if Sending n (b # bs) \<in># workers s
          then Some (send_next acc n b bs (drop_worker (Sending n (b # bs)) s)) else None
      | Acknowledged n b \<Rightarrow>
          if AtBroker n b \<in># workers s then
            (case onSuccess n (drop_worker (AtBroker n b) s) of Inl _ \<Rightarrow> None | Inr s' \<Rightarrow> Some s') else None
      | Rejected n b \<Rightarrow>
          if AtBroker n b \<in># workers s then Some (onException n b (drop_worker (AtBroker n b) s)) else None
      | Retry n b acc \<Rightarrow>
          if Retrying n b \<in># workers s then Some (RetrySending acc n b (drop_worker (Retrying n b) s)) else None
      | Unlock n \<Rightarrow>
          if Unlocking n \<in># workers s then
            (case unlock n (drop_worker (Unlocking n) s) of Inl _ \<Rightarrow> None | Inr s' \<Rightarrow> Some s') else None
      | ReplyDone n \<Rightarrow>
          (case jobs s n of None \<Rightarrow> None
           | Some j \<Rightarrow> if job_status j = FINISH then Some (Proceed_finish n s) else None))"

lemma exec_producer_iff: "exec_producer cl ser ev s = Some s' \<longleftrightarrow> producer_step cl ser ev s s'"
  by (cases ev) (auto simp: exec_producer_def intro: producer_step.intros elim!: producer_step_elims
      split: if_splits sum.splits option.splits prod.splits)

interpretation producer_exec: executable_steps "producer_step cl ser" "exec_producer cl ser" for cl ser
  by unfold_locales (rule exec_producer_iff)

end
