(* ===== verification/ProducerInvariants.thy ===== *)
theory ProducerInvariants
  imports ProducerSystem
begin

text \<open>
  What holds in every run of the producer: no message is lost or sent to the queue twice
  without a rejection in between, \<^verbatim>\<open>waitForSendCount\<close> is the number of messages of the object
  that are not acknowledged, an object is not deleted while one of its messages is on its way,
  and what \<^verbatim>\<open>taskCount\<close> counts.
\<close>

section \<open>Messages\<close>

text \<open>The messages a worker has still to bring to an acknowledgement, with their object.\<close>

definition worker_msgs :: "worker \<Rightarrow> (nat \<times> string) multiset" where
  "worker_msgs t = (case t of Sending n bs \<Rightarrow> image_mset (Pair n) (mset bs)
     | AtBroker n b \<Rightarrow> {#(n, b)#} | Retrying n b \<Rightarrow> {#(n, b)#} | Unlocking n \<Rightarrow> {#})"

definition pending_msgs :: "'w producer_sys \<Rightarrow> (nat \<times> string) multiset" where
  "pending_msgs s = (\<Sum>t\<in>#workers s. worker_msgs t)"

definition planned_by :: "(u64 \<Rightarrow> u32 \<Rightarrow> string) \<Rightarrow> producer_event \<Rightarrow> (nat \<times> string) multiset" where
  "planned_by ser ev = (case ev of
     Request n req (Some uids) \<Rightarrow> image_mset (Pair n) (mset (map (\<lambda>u. ser u (msg_id req)) uids)) | _ \<Rightarrow> {#})"

definition acknowledged_by :: "producer_event \<Rightarrow> (nat \<times> string) multiset" where
  "acknowledged_by ev = (case ev of Acknowledged n b \<Rightarrow> {#(n, b)#} | _ \<Rightarrow> {#})"

definition planned :: "(u64 \<Rightarrow> u32 \<Rightarrow> string) \<Rightarrow> producer_event list \<Rightarrow> (nat \<times> string) multiset" where
  "planned ser evs = sum_list (map (planned_by ser) evs)"

definition acked :: "producer_event list \<Rightarrow> (nat \<times> string) multiset" where
  "acked evs = sum_list (map acknowledged_by evs)"

text \<open>Requests that end without a notification: failed ones, and those for no user at all.\<close>

definition failed :: "producer_event list \<Rightarrow> nat set" where
  "failed evs = {n. \<exists>req. Request n req None \<in> set evs}"

definition is_silent :: "producer_event \<Rightarrow> bool" where
  "is_silent ev = (case ev of Request _ _ None \<Rightarrow> True | Request _ _ (Some uids) \<Rightarrow> uids = [] | _ \<Rightarrow> False)"

definition silent :: "producer_event list \<Rightarrow> nat" where
  "silent evs = length (filter is_silent evs)"

definition live :: "(nat \<times> string) multiset \<Rightarrow> nat \<Rightarrow> nat" where
  "live P n = size (filter_mset (\<lambda>m. fst m = n) P)"

text \<open>Every request is for less than \<open>2 ^ 32\<close> users.\<close>

definition small_request :: "producer_event \<Rightarrow> 'w producer_sys \<Rightarrow> bool" where
  "small_request ev s = (case ev of Request _ _ (Some uids) \<Rightarrow> int (length uids) < 2 ^ 32 | _ \<Rightarrow> True)"

lemma worker_msgs_simps [simp]:
  "worker_msgs (Sending n bs) = image_mset (Pair n) (mset bs)"
  "worker_msgs (AtBroker n b) = {#(n, b)#}" "worker_msgs (Retrying n b) = {#(n, b)#}"
  "worker_msgs (Unlocking n) = {#}"
  by (simp_all add: worker_msgs_def)

lemma live_simps [simp]:
  "live {#} n = 0" "live (P + Q) n = live P n + live Q n"
  "live (add_mset m P) n = (if fst m = n then Suc (live P n) else live P n)"
  by (simp_all add: live_def)

lemma live_image [simp]: "live (image_mset (Pair k) Q) n = (if k = n then size Q else 0)"
  by (induction Q) auto

section \<open>The invariant\<close>

definition job_ok :: "nat \<Rightarrow> bool \<Rightarrow> job \<Rightarrow> bool" where
  "job_ok l has_failed j \<longleftrightarrow> (if l = 0 \<and> \<not> has_failed
     then job_status j = FINISH \<and> job_reply j = Some SUCCESS
     else job_status j = PROCESS \<and> job_reply j = None \<and> (l \<noteq> 0 \<longrightarrow> l < 2 ^ 32 \<and> waitForSendCount j = word_of_nat l))"

definition jobs_ok :: "nat set \<Rightarrow> (nat \<times> string) multiset \<Rightarrow> nat \<Rightarrow> (nat \<Rightarrow> job option) \<Rightarrow> bool" where
  "jobs_ok F P c js \<longleftrightarrow> (\<forall>n. (case js n of None \<Rightarrow> live P n = 0 \<and> n \<notin> F | Some j \<Rightarrow> job_ok (live P n) (n \<in> F) j) \<and>
     (n \<in> F \<longrightarrow> live P n = 0) \<and> (c \<le> n \<longrightarrow> js n = None))"

definition producer_ok :: "(u64 \<Rightarrow> u32 \<Rightarrow> string) \<Rightarrow> producer_event list \<Rightarrow> 'w producer_sys \<Rightarrow> bool" where
  "producer_ok ser evs s \<longleftrightarrow> pending_msgs s + acked evs = planned ser evs \<and>
     jobs_ok (failed evs) (pending_msgs s) (created s) (jobs s) \<and>
     taskCount s = word_of_nat (card {n. live (pending_msgs s) n \<noteq> 0} + silent evs)"

lemma history_simps [simp]:
  "planned ser (evs @ [ev]) = planned ser evs + planned_by ser ev"
  "acked (evs @ [ev]) = acked evs + acknowledged_by ev"
  "silent (evs @ [ev]) = silent evs + (if is_silent ev then 1 else 0)"
  "failed (evs @ [ev]) = failed evs \<union> failed [ev]"
  by (auto simp: planned_def acked_def silent_def failed_def)

lemma jobs_okD:
  assumes "jobs_ok F P c js"
  shows "js n = None \<Longrightarrow> live P n = 0 \<and> n \<notin> F" "js n = Some j \<Longrightarrow> job_ok (live P n) (n \<in> F) j"
    "n \<in> F \<Longrightarrow> live P n = 0" "c \<le> n \<Longrightarrow> js n = None"
  using assms by (auto simp: jobs_ok_def split: option.splits dest: spec [of _ n])

lemma jobs_okI:
  assumes "\<And>n. js n = None \<Longrightarrow> live P n = 0 \<and> n \<notin> F" "\<And>n j. js n = Some j \<Longrightarrow> job_ok (live P n) (n \<in> F) j"
    "\<And>n. n \<in> F \<Longrightarrow> live P n = 0" "\<And>n. c \<le> n \<Longrightarrow> js n = None"
  shows "jobs_ok F P c js"
  using assms by (auto simp: jobs_ok_def split: option.splits)

lemma live_finite: "jobs_ok F P c js \<Longrightarrow> finite {n. live P n \<noteq> 0}"
proof (rule finite_subset [of _ "{..<c}"])
  assume js: "jobs_ok F P c js"
  show "{n. live P n \<noteq> 0} \<subseteq> {..<c}"
  proof
    fix n assume n: "n \<in> {n. live P n \<noteq> 0}"
    show "n \<in> {..<c}"
    proof (rule ccontr)
      assume "n \<notin> {..<c}"
      then show False using jobs_okD(4) [OF js, of n] jobs_okD(1) [OF js, of n] n by simp
    qed
  qed
qed simp

text \<open>A job changes, or a new one comes; the messages of the others stay as they are.\<close>

lemma jobs_ok_update:
  assumes "jobs_ok F P c js" and "job_ok (live Q n) (n \<in> F') j" and "n \<in> F' \<Longrightarrow> live Q n = 0"
    and "\<And>k. k \<noteq> n \<Longrightarrow> live Q k = live P k" and "F' - {n} = F - {n}" and "c \<le> c'" and "n < c'"
  shows "jobs_ok F' Q c' (js(n \<mapsto> j))"
proof (rule jobs_okI)
  fix k
  have F: "k \<in> F' \<longleftrightarrow> k \<in> F" if "k \<noteq> n" using assms(5) that by blast
  show "(js(n \<mapsto> j)) k = None \<Longrightarrow> live Q k = 0 \<and> k \<notin> F'"
    using jobs_okD(1) [OF assms(1), of k] assms(4) [of k] F by (cases "k = n") auto
  show "job_ok (live Q k) (k \<in> F') i" if "(js(n \<mapsto> j)) k = Some i" for i
    using that jobs_okD(2) [OF assms(1), of k i] assms(2) assms(4) [of k] F by (cases "k = n") auto
  show "k \<in> F' \<Longrightarrow> live Q k = 0"
    using jobs_okD(3) [OF assms(1), of k] assms(3) assms(4) [of k] F by (cases "k = n") auto
  show "c' \<le> k \<Longrightarrow> (js(n \<mapsto> j)) k = None"
    using jobs_okD(4) [OF assms(1), of k] assms(6,7) by auto
qed

section \<open>Each event\<close>

text \<open>Events that leave the messages, the objects and the counts as they are.\<close>

lemma producer_ok_frame:
  assumes "producer_ok ser evs s" and "pending_msgs s' = pending_msgs s" and "jobs s' = jobs s"
    and "created s' = created s" and "taskCount s' = taskCount s"
    and "planned_by ser ev = {#}" and "acknowledged_by ev = {#}" and "\<not> is_silent ev" and "failed [ev] = {}"
  shows "producer_ok ser (evs @ [ev]) s'"
  using assms by (simp add: producer_ok_def)

lemma producer_ok_request:
  assumes ok: "producer_ok ser evs s" and req: "Proceed_request cl ser req s = Inr (res, s')"
    and small: "small_request (Request (created s) req res) s"
  shows "producer_ok ser (evs @ [Request (created s) req res]) s'"
proof -
  let ?n = "created s" and ?P = "pending_msgs s" and ?Q = "pending_msgs s'"
  have js: "jobs_ok (failed evs) ?P ?n (jobs s)" using ok by (simp add: producer_ok_def)
  have new: "live ?P ?n = 0" "?n \<notin> failed evs" using jobs_okD [OF js, of ?n] by auto
  show ?thesis
  proof (cases res)
    case None
    then have s': "?Q = ?P" "created s' = Suc ?n" "taskCount s' = taskCount s + 1"
      "jobs s' = (jobs s)(?n \<mapsto> \<lparr>job_request = req, job_status = PROCESS, waitForSendCount = 0, job_reply = None\<rparr>)"
      using req by (auto simp: Proceed_request_def ProduceMsg_def Let_def pending_msgs_def split: sum.splits prod.splits option.splits)
    have F: "failed [Request ?n req None] = {?n}" by (auto simp: failed_def)
    have "jobs_ok (failed evs \<union> {?n}) ?Q (created s') (jobs s')"
      unfolding s' by (rule jobs_ok_update [OF js]) (auto simp: new job_ok_def)
    then show ?thesis
      using ok None s' F by (simp add: producer_ok_def planned_by_def acknowledged_by_def is_silent_def)
  next
    case (Some uids)
    have F: "failed [Request ?n req (Some uids)] = {}" by (auto simp: failed_def)
    show ?thesis
    proof (cases "uids = []")
      case True
      with Some have s': "?Q = ?P" "created s' = Suc ?n" "taskCount s' = taskCount s + 1"
        "jobs s' = (jobs s)(?n \<mapsto> \<lparr>job_request = req, job_status = FINISH, waitForSendCount = 0, job_reply = Some SUCCESS\<rparr>)"
        using req by (auto simp: Proceed_request_def ProduceMsg_def Let_def pending_msgs_def split: sum.splits prod.splits option.splits)
      have "jobs_ok (failed evs) ?Q (created s') (jobs s')"
        unfolding s' by (rule jobs_ok_update [OF js]) (auto simp: new job_ok_def)
      then show ?thesis
        using ok Some True s' F by (simp add: producer_ok_def planned_by_def acknowledged_by_def is_silent_def)
    next
      case False
      let ?M = "image_mset (Pair ?n) (mset (map (\<lambda>u. ser u (msg_id req)) uids))"
      from False Some have s': "?Q = ?M + ?P" "created s' = Suc ?n" "taskCount s' = taskCount s + 1"
        "jobs s' = (jobs s)(?n \<mapsto> \<lparr>job_request = req, job_status = PROCESS,
           waitForSendCount = word_of_nat (length uids), job_reply = None\<rparr>)"
        using req by (auto simp: Proceed_request_def ProduceMsg_def Let_def pending_msgs_def split: sum.splits prod.splits option.splits)
      have l: "live ?Q k = (if k = ?n then length uids else live ?P k)" for k
        unfolding s' using new by (simp del: mset_map)
      have j: "jobs_ok (failed evs) ?Q (created s') (jobs s')"
        unfolding s'(2,4) by (rule jobs_ok_update [OF js])
          (use small Some False new in \<open>auto simp: l job_ok_def small_request_def\<close>)
      have "{k. live ?Q k \<noteq> 0} = insert ?n {k. live ?P k \<noteq> 0}" using False new by (auto simp: l)
      then have "card {k. live ?Q k \<noteq> 0} = Suc (card {k. live ?P k \<noteq> 0})"
        using live_finite [OF js] new by simp
      with j show ?thesis
        using ok Some False s' F
        by (simp add: producer_ok_def planned_by_def acknowledged_by_def is_silent_def ac_simps)
    qed
  qed
qed

lemma word_of_nat_eq_1_iff:
  assumes "l < 2 ^ 32"
  shows "(word_of_nat l - 1 :: u32) = 0 \<longleftrightarrow> l = 1"
proof -
  have "unat (word_of_nat l :: u32) = l" using assms by (simp add: unat_of_nat take_bit_nat_eq_self)
  then show ?thesis by (metis eq_iff_diff_eq_0 of_nat_1 unat_1)
qed

lemma producer_ok_acknowledged:
  assumes ok: "producer_ok ser evs s" and w: "AtBroker n b \<in># workers s"
    and st: "onSuccess n (drop_worker (AtBroker n b) s) = Inr s'"
  shows "producer_ok ser (evs @ [Acknowledged n b]) s'"
proof -
  let ?P = "pending_msgs s" and ?Q = "pending_msgs s'"
  have js: "jobs_ok (failed evs) ?P (created s) (jobs s)" using ok by (simp add: producer_ok_def)
  obtain M where M: "workers s = add_mset (AtBroker n b) M" using w by (metis insert_DiffM)
  obtain j where j: "jobs s n = Some j"
    using st by (auto simp: onSuccess_def NotifyOne_def drop_worker_def split: option.splits)
  have P: "?P = add_mset (n, b) ?Q"
    using st j by (auto simp: onSuccess_def NotifyOne_def drop_worker_def pending_msgs_def M Let_def split: if_splits)
  then have l: "live ?P n = Suc (live ?Q n)" "\<And>k. k \<noteq> n \<Longrightarrow> live ?P k = live ?Q k" by simp_all
  have nf: "n \<notin> failed evs" using jobs_okD(3) [OF js, of n] l by auto
  have jo: "waitForSendCount j = word_of_nat (live ?P n)" "live ?P n < 2 ^ 32" "job_status j = PROCESS" "job_reply j = None"
    using jobs_okD(2) [OF js j] l by (simp_all add: job_ok_def)
  have last: "waitForSendCount j - 1 = 0 \<longleftrightarrow> live ?Q n = 0"
    unfolding jo(1) using word_of_nat_eq_1_iff [OF jo(2)] l by simp
  have less: "live ?Q n < 2 ^ 32" using jo(2) l by simp
  have cr: "n < created s" using jobs_okD(4) [OF js, of n] j by (cases "n < created s") auto
  have ev: "failed [Acknowledged n b] = {}" by (auto simp: failed_def)
  show ?thesis
  proof (cases "live ?Q n = 0")
    case True
    have s': "created s' = created s" "taskCount s' = taskCount s - 1"
      "jobs s' = (jobs s)(n \<mapsto> j\<lparr>waitForSendCount := 0, job_status := FINISH, job_reply := Some SUCCESS\<rparr>)"
      using st j True last by (auto simp: onSuccess_def NotifyOne_def drop_worker_def Let_def)
    have "jobs_ok (failed evs) ?Q (created s') (jobs s')"
      unfolding s' by (rule jobs_ok_update [OF js]) (use True nf cr l in \<open>auto simp: job_ok_def\<close>)
    moreover have "{k. live ?P k \<noteq> 0} = insert n {k. live ?Q k \<noteq> 0}"
    proof (rule set_eqI)
      show "k \<in> {k. live ?P k \<noteq> 0} \<longleftrightarrow> k \<in> insert n {k. live ?Q k \<noteq> 0}" for k
        using l by (cases "k = n") simp_all
    qed
    then have "card {k. live ?P k \<noteq> 0} = Suc (card {k. live ?Q k \<noteq> 0})"
      using live_finite [OF js] True by (simp add: card_insert_if)
    ultimately show ?thesis
      using ok s' P ev by (simp add: producer_ok_def planned_by_def acknowledged_by_def is_silent_def)
  next
    case False
    have s': "created s' = created s" "taskCount s' = taskCount s"
      "jobs s' = (jobs s)(n \<mapsto> j\<lparr>waitForSendCount := waitForSendCount j - 1\<rparr>)"
      using st j False last by (auto simp: onSuccess_def NotifyOne_def drop_worker_def Let_def)
    have "jobs_ok (failed evs) ?Q (created s') (jobs s')"
      unfolding s' by (rule jobs_ok_update [OF js]) (use False nf cr l jo less in \<open>auto simp: job_ok_def\<close>)
    moreover have "{k. live ?P k \<noteq> 0} = {k. live ?Q k \<noteq> 0}"
    proof (rule Collect_cong)
      show "live ?P k \<noteq> 0 \<longleftrightarrow> live ?Q k \<noteq> 0" for k
        using l False by (cases "k = n") simp_all
    qed
    ultimately show ?thesis
      using ok s' P ev by (simp add: producer_ok_def planned_by_def acknowledged_by_def is_silent_def)
  qed
qed

lemma producer_ok_reply_done:
  assumes ok: "producer_ok ser evs s" and j: "jobs s n = Some j" "job_status j = FINISH"
  shows "producer_ok ser (evs @ [ReplyDone n]) (Proceed_finish n s)"
proof -
  have js: "jobs_ok (failed evs) (pending_msgs s) (created s) (jobs s)" using ok by (simp add: producer_ok_def)
  have z: "live (pending_msgs s) n = 0" "n \<notin> failed evs"
    using jobs_okD(2) [OF js j(1)] j(2) by (auto simp: job_ok_def split: if_splits)
  have "jobs_ok (failed evs) (pending_msgs s) (created s) ((jobs s)(n := None))"
    by (rule jobs_okI) (use z jobs_okD [OF js] in \<open>auto split: if_splits\<close>)
  moreover have "failed [ReplyDone n] = {}" by (auto simp: failed_def)
  ultimately show ?thesis
    using ok by (simp add: producer_ok_def Proceed_finish_def pending_msgs_def planned_by_def acknowledged_by_def is_silent_def)
qed

lemma step_producer_ok:
  assumes "producer_step cl ser ev s s'" and "small_request ev s" and ok: "producer_ok ser evs s"
  shows "producer_ok ser (evs @ [ev]) s'"
  using assms(1)
proof (cases rule: producer_step.cases)
  case (request n req res)
  with producer_ok_request [OF ok, of cl req res s'] assms(2) show ?thesis by simp
next
  case (acknowledged n b)
  with producer_ok_acknowledged [OF ok, of n b s'] show ?thesis by simp
next
  case (reply_done n j)
  with producer_ok_reply_done [OF ok, of n j] show ?thesis by simp
next
  case (send n b bs acc)
  obtain M where "workers s = add_mset (Sending n (b # bs)) M" using send(3) by (metis insert_DiffM)
  with send show ?thesis
    by (intro producer_ok_frame [OF ok]) (auto simp: send_next_def AsyncProducerWorker_def drop_worker_def
        pending_msgs_def planned_by_def acknowledged_by_def is_silent_def failed_def)
next
  case (rejected n b)
  obtain M where "workers s = add_mset (AtBroker n b) M" using rejected(3) by (metis insert_DiffM)
  with rejected show ?thesis
    by (intro producer_ok_frame [OF ok]) (auto simp: onException_def drop_worker_def
        pending_msgs_def planned_by_def acknowledged_by_def is_silent_def failed_def)
next
  case (retry n b acc)
  obtain M where "workers s = add_mset (Retrying n b) M" using retry(3) by (metis insert_DiffM)
  with retry show ?thesis
    by (intro producer_ok_frame [OF ok]) (auto simp: RetrySending_def AsyncProducerWorker_def drop_worker_def
        pending_msgs_def planned_by_def acknowledged_by_def is_silent_def failed_def)
next
  case (unlock n)
  obtain M where "workers s = add_mset (Unlocking n) M" using unlock(2) by (metis insert_DiffM)
  with unlock show ?thesis
    by (intro producer_ok_frame [OF ok]) (auto simp: unlock_def drop_worker_def
        pending_msgs_def planned_by_def acknowledged_by_def is_silent_def failed_def split: option.splits)
qed

interpretation producer_inv: trace_invariant "producer_step cl ser" "producer_init r" small_request "producer_ok ser"
  for cl ser r
proof unfold_locales
  show "producer_ok ser [] (producer_init r)"
    by (simp add: producer_ok_def producer_init_def pending_msgs_def acked_def planned_def silent_def failed_def
        jobs_ok_def)
qed (rule step_producer_ok)

end
