(* ===== verification/ProducerProgress.thy ===== *)
theory ProducerProgress
  imports ProducerInvariants
begin

text \<open>
  Progress of the producer: while a message is on its way, some accepted send, accepted retry or
  acknowledgement is possible and lowers the measure \<open>msg_work\<close>.
\<close>

definition worker_work :: "worker \<Rightarrow> nat" where
  "worker_work t = (case t of Sending n bs \<Rightarrow> 2 * length bs | AtBroker n b \<Rightarrow> 1
     | Retrying n b \<Rightarrow> 2 | Unlocking n \<Rightarrow> 0)"

definition msg_work :: "'w producer_sys \<Rightarrow> nat" where
  "msg_work s = (\<Sum>t\<in>#workers s. worker_work t)"

definition send_event :: "producer_event \<Rightarrow> bool" where
  "send_event ev = (case ev of Send _ _ _ acc \<Rightarrow> acc | Retry _ _ acc \<Rightarrow> acc | Acknowledged _ _ \<Rightarrow> True | _ \<Rightarrow> False)"

lemma worker_work_simps [simp]:
  "worker_work (Sending n bs) = 2 * length bs" "worker_work (AtBroker n b) = 1"
  "worker_work (Retrying n b) = 2" "worker_work (Unlocking n) = 0"
  by (simp_all add: worker_work_def)

text \<open>A callback finds its object: a message on its way keeps it.\<close>

lemma callback_object:
  assumes "producer_ok ser evs s" and "m \<in># pending_msgs s"
  shows "\<exists>j. jobs s (fst m) = Some j \<and> job_status j = PROCESS \<and> job_reply j = None \<and>
    waitForSendCount j = word_of_nat (live (pending_msgs s) (fst m)) \<and> live (pending_msgs s) (fst m) < 2 ^ 32"
proof -
  have js: "jobs_ok (failed evs) (pending_msgs s) (created s) (jobs s)" using assms(1) by (simp add: producer_ok_def)
  obtain M where "pending_msgs s = add_mset m M" using assms(2) by (metis insert_DiffM)
  then have l: "live (pending_msgs s) (fst m) \<noteq> 0" by simp
  then obtain j where j: "jobs s (fst m) = Some j"
    using jobs_okD(1) [OF js, of "fst m"] by (cases "jobs s (fst m)") auto
  show ?thesis using jobs_okD(2) [OF js j] l j by (simp add: job_ok_def)
qed

lemma pending_worker: "AtBroker n b \<in># workers s \<Longrightarrow> (n, b) \<in># pending_msgs s"
proof -
  assume "AtBroker n b \<in># workers s"
  then obtain M where "workers s = add_mset (AtBroker n b) M" by (metis insert_DiffM)
  then show ?thesis by (simp add: pending_msgs_def)
qed

lemma acknowledge_enabled:
  assumes "producer_ok ser evs s" and w: "AtBroker n b \<in># workers s"
  shows "\<exists>s'. producer_step cl ser (Acknowledged n b) s s' \<and> msg_work s' < msg_work s"
proof -
  obtain j where j: "jobs s n = Some j"
    using callback_object [OF assms(1) pending_worker [OF w]] by auto
  obtain M where M: "workers s = add_mset (AtBroker n b) M" using w by (metis insert_DiffM)
  obtain s' where s': "onSuccess n (drop_worker (AtBroker n b) s) = Inr s'"
    using j by (cases "onSuccess n (drop_worker (AtBroker n b) s)")
      (auto simp: onSuccess_def NotifyOne_def drop_worker_def Let_def split: if_splits)
  have "msg_work s' < msg_work s"
    using s' j M by (auto simp: onSuccess_def NotifyOne_def drop_worker_def Let_def msg_work_def split: if_splits)
  with s' w show ?thesis by (blast intro: producer_step.acknowledged)
qed

lemma progress_msg:
  assumes ok: "producer_ok ser evs s" and "pending_msgs s \<noteq> {#}"
  shows "\<exists>ev s'. send_event ev \<and> producer_step cl ser ev s s' \<and> msg_work s' < msg_work s"
proof -
  obtain t where t: "t \<in># workers s" "worker_msgs t \<noteq> {#}"
    using assms(2) by (auto simp: pending_msgs_def sum_mset_0_iff)
  obtain M where M: "workers s = add_mset t M" using t(1) by (metis insert_DiffM)
  show ?thesis
  proof (cases t)
    case (Sending n bs)
    with t(2) obtain b bs' where bs: "bs = b # bs'" by (cases bs) auto
    let ?s' = "send_next True n b bs' (drop_worker (Sending n (b # bs')) s)"
    have "producer_step cl ser (Send n b bs' True) s ?s'"
      using t(1) Sending bs by (auto intro: producer_step.send)
    moreover have "msg_work ?s' < msg_work s"
      using M Sending bs by (simp add: send_next_def AsyncProducerWorker_def drop_worker_def msg_work_def)
    ultimately show ?thesis by (intro exI [of _ "Send n b bs' True"] exI [of _ ?s']) (simp add: send_event_def)
  next
    case (AtBroker n b)
    with acknowledge_enabled [OF ok, of n b cl] t(1)
    obtain s' where "producer_step cl ser (Acknowledged n b) s s'" "msg_work s' < msg_work s" by blast
    then show ?thesis by (intro exI [of _ "Acknowledged n b"] exI [of _ s']) (simp add: send_event_def)
  next
    case (Retrying n b)
    let ?s' = "RetrySending True n b (drop_worker (Retrying n b) s)"
    have "producer_step cl ser (Retry n b True) s ?s'"
      using t(1) Retrying by (auto intro: producer_step.retry)
    moreover have "msg_work ?s' < msg_work s"
      using M Retrying by (simp add: RetrySending_def AsyncProducerWorker_def drop_worker_def msg_work_def)
    ultimately show ?thesis by (intro exI [of _ "Retry n b True"] exI [of _ ?s']) (simp add: send_event_def)
  next
    case (Unlocking n)
    with t(2) show ?thesis by simp
  qed
qed

lemma send_event_small: "send_event ev \<Longrightarrow> small_request ev s"
  by (cases ev) (simp_all add: send_event_def small_request_def)

lemma send_event_planned: "list_all send_event evs' \<Longrightarrow> planned ser (evs @ evs') = planned ser evs"
proof (induction evs')
  case Nil
  then show ?case by simp
next
  case (Cons ev evs')
  then have "planned_by ser ev = {#}" by (cases ev) (simp_all add: send_event_def planned_by_def)
  with Cons show ?case by (simp add: planned_def)
qed

lemma progress_msgs:
  assumes "traces (producer_step cl ser) (producer_init r) small_request evs s"
  shows "\<exists>evs' s'. list_all send_event evs' \<and>
    traces (producer_step cl ser) (producer_init r) small_request (evs @ evs') s' \<and> pending_msgs s' = {#}"
  using assms
proof (induction "msg_work s" arbitrary: s evs rule: less_induct)
  case less
  show ?case
  proof (cases "pending_msgs s = {#}")
    case True
    have "list_all send_event [] \<and> traces (producer_step cl ser) (producer_init r) small_request (evs @ []) s \<and>
        pending_msgs s = {#}" using True less.prems by simp
    then show ?thesis by blast
  next
    case False
    then obtain ev t where t: "send_event ev" "producer_step cl ser ev s t" "msg_work t < msg_work s"
      using progress_msg [OF producer_inv.inv_run [OF less.prems]] by blast
    have run: "traces (producer_step cl ser) (producer_init r) small_request (evs @ [ev]) t"
      using less.prems send_event_small [OF t(1)] t(2) by (rule run_step)
    obtain evs' s' where "list_all send_event evs'"
      "traces (producer_step cl ser) (producer_init r) small_request ((evs @ [ev]) @ evs') s'" "pending_msgs s' = {#}"
      using less.hyps [OF t(3) run] by blast
    with t(1) have "list_all send_event (ev # evs') \<and>
        traces (producer_step cl ser) (producer_init r) small_request (evs @ ev # evs') s' \<and> pending_msgs s' = {#}"
      by simp
    then show ?thesis by blast
  qed
qed

end
