(* ===== verification/RedisDemo.thy ===== *)
theory RedisDemo
  imports RedisServer
begin

text \<open>
  A small Redis that meets \<open>redis_documented\<close>, the concrete input of the witnesses: it reads the
  command line back into a command (the inverse of \<open>redis_line\<close>) and does what is documented.
\<close>

section \<open>Reading a command line\<close>

fun words :: "string \<Rightarrow> string list" where
  "words [] = [[]]"
| "words (c # s) =
     (if c = CHR '' '' then [] # words s
      else (case words s of [] \<Rightarrow> [[c]] | w # ws \<Rightarrow> (c # w) # ws))"

definition read_cmd :: "string \<Rightarrow> bytes option \<Rightarrow> redis_cmd option" where
  "read_cmd line val = (case (words line, val) of
     ([c, k], None) \<Rightarrow> if c = ''EXISTS'' then Some (EXISTS k) else if c = ''DEL'' then Some (DEL k)
        else if c = ''BITCOUNT'' then Some (BITCOUNT k) else None
   | ([c, k, n], None) \<Rightarrow> if c = ''EXPIRE'' then Some (EXPIRE k (nat_of_digits n))
        else if c = ''RENAME'' then Some (RENAME k n) else None
   | ([c, k, i, j], None) \<Rightarrow> if c = ''GETRANGE'' then Some (GETRANGE k (nat_of_digits i) (nat_of_digits j)) else None
   | ([c, k, i, j], Some v) \<Rightarrow> if c = ''SETRANGE'' then Some (SETRANGE k (nat_of_digits i) v) else None
   | ([c, x, d, a, b], None) \<Rightarrow> Some (BITOP_XOR d a b)
   | ([c, x, d, a, b, e], None) \<Rightarrow> Some (BITOP_AND d a b e)
   | _ \<Rightarrow> None)"

definition no_space :: "string \<Rightarrow> bool" where
  "no_space s = list_all (\<lambda>c. c \<noteq> CHR '' '') s"

lemma words_append: "no_space a \<Longrightarrow> words (a @ '' '' @ s) = a # words s"
  by (induction a) (simp_all add: no_space_def)

lemma words_single: "no_space a \<Longrightarrow> words a = [a]"
  by (induction a) (simp_all add: no_space_def)

lemma no_space_show [simp]: "no_space (show_nat n)"
proof -
  have "is_digit c \<Longrightarrow> c \<noteq> CHR '' ''" for c by (auto simp: is_digit_def)
  then show ?thesis using show_nat_digits [of n] by (auto simp: no_space_def list_all_iff)
qed

lemma no_space_names [simp]:
  "no_space ''EXISTS''" "no_space ''DEL''" "no_space ''BITCOUNT''" "no_space ''EXPIRE''" "no_space ''RENAME''"
  "no_space ''GETRANGE''" "no_space ''SETRANGE''" "no_space ''BITOP''" "no_space ''AND''" "no_space ''XOR''" "no_space ''%b''"
  by (simp_all add: no_space_def)

declare words.simps [simp del]

lemmas words_name =
  words_append [of "''EXISTS''", simplified] words_append [of "''DEL''", simplified]
  words_append [of "''BITCOUNT''", simplified] words_append [of "''EXPIRE''", simplified]
  words_append [of "''RENAME''", simplified] words_append [of "''GETRANGE''", simplified]
  words_append [of "''SETRANGE''", simplified] words_append [of "''BITOP''", simplified]
  words_append [of "''AND''", simplified] words_append [of "''XOR''", simplified]
  words_append [simplified] words_single words_single [of "''%b''", simplified]

lemma read_redis_line:
  "list_all no_space (redis_keys c) \<Longrightarrow> read_cmd (redis_line c) (redis_value c) = Some c"
  by (cases c) (simp_all add: read_cmd_def words_name)

lemma all_keys_no_space: "list_all no_space all_keys"
  by code_simp

section \<open>The server\<close>

definition demo_redis :: "keyspace hiredis" where
  "demo_redis = \<lparr>redisConnect = (\<lambda>w. (GoodContext, w)),
     redisCommand = (\<lambda>line val w. case read_cmd line val of
        None \<Rightarrow> (Some no_such_key, w) | Some c \<Rightarrow> (Some (redis_answer c w), redis_effect c w))\<rparr>"

lemma demo_redis_documented: "redis_documented demo_redis (\<lambda>w. w) (\<lambda>_. True)"
  unfolding redis_documented_def
proof (intro allI impI)
  fix w c assume "set (redis_keys c) \<subseteq> set all_keys"
  then have "list_all no_space (redis_keys c)" using all_keys_no_space by (auto simp: list_all_iff)
  from read_redis_line [OF this]
  show "\<exists>w'. redisCommand demo_redis (redis_line c) (redis_value c) w = (Some (redis_answer c w), w') \<and>
      True \<and> w' = redis_effect c w"
    by (simp add: demo_redis_def)
qed

definition connected :: redis_handler where
  "connected = \<lparr>context_set = True, reply = None\<rparr>"

end
