(* ===== verification/ProducerProps.thy ===== *)
theory ProducerProps
  imports ProduceFacts ProducerProgress RedisDemo
begin

text \<open>
  The properties of the producer: which users get a message, what an answer of the producer to
  the daemon means, and where requests are never answered or objects used after their deletion.
\<close>

section \<open>Inputs\<close>


lemma demo_holds: "holds (\<lambda>w. w) (\<lambda>_. True) ks (connected, ks)"
  by (simp add: holds_def connected_def)



section \<open>Who gets a message\<close>



text \<open>
  A start that is no multiple of 8 reaches the wrong users: every user of the range, which
  then begins at the first bit of the byte of the start, is taken for the one whose id is greater
  by the remainder.
\<close>

theorem misaligned_start:
  assumes "redis_documented cl db up" and "holds db up ks s" and "ks TMP_USER_INFO_KEY = Some b"
    and "startUid \<le> endUid" and "unat endUid div 8 < length b" and "unat endUid < 2 ^ 64 - 16"
  shows "\<exists>uids s'. uids_to_send cl startUid endUid s = Inr (Some uids, s') \<and>
    map unat uids = map (\<lambda>v. v + unat startUid mod 8)
      (filter (bit_at b) [8 * (unat startUid div 8)..<8 * (unat endUid div 8) + 8])"
proof -
  have tmp: "with_user_info ks TMP_USER_INFO_KEY = Some b"
    using assms(3) by (simp add: with_user_info_def)
  show ?thesis
    using uids_to_send_reachable [OF assms(1,2) tmp assms(4,5)] decode_range [OF assms(4-6)] by auto
qed

theorem misaligned_start_witness:
  "\<exists>uids s'. uids_to_send demo_redis 3 7 (connected, (\<lambda>_. None)(TMP_USER_INFO_KEY \<mapsto> [128])) =
    Inr (Some uids, s') \<and> map unat uids = [3]"
proof -
  have "filter (bit_at [128]) [0..<8] = [0]" by (simp add: bit_at_def upt_rec)
  then show ?thesis
    using misaligned_start [OF demo_redis_documented demo_holds, of "(\<lambda>_. None)(TMP_USER_INFO_KEY \<mapsto> [128])" "[128]" 3 7]
    by simp
qed

text \<open>
  A chunk that goes past the bitmap by more than a byte is read past the end of the reply:
  \<^verbatim>\<open>GETRANGE\<close> returns the bytes there are, and \<^verbatim>\<open>string(redisReply->str, len)\<close> copies \<^verbatim>\<open>len\<close>.
\<close>

theorem chunk_past_bitmap:
  assumes "redis_documented cl db up" and "holds db up ks s" and "ks TMP_USER_INFO_KEY = Some b"
    and "length b < unat endUid div 8" and "unat startUid div 8 < unat endUid div 8"
  shows "uids_to_send cl startUid endUid s = Inl OutOfBounds"
proof -
  have tmp: "with_user_info ks TMP_USER_INFO_KEY = Some b"
    using assms(3) by (simp add: with_user_info_def)
  have "startUid \<le> endUid"
    using assms(5) unfolding word_le_nat_alt by (metis div_le_mono leD nat_le_linear)
  then show ?thesis using uids_to_send_overread [OF assms(1,2) tmp _ assms(4,5)] by simp
qed

theorem chunk_past_bitmap_witness:
  "uids_to_send demo_redis 0 4095 (connected, (\<lambda>_. None)(TMP_USER_INFO_KEY \<mapsto> [192, 3])) = Inl OutOfBounds"
  using chunk_past_bitmap [OF demo_redis_documented demo_holds, of "(\<lambda>_. None)(TMP_USER_INFO_KEY \<mapsto> [192, 3])"
      "[192, 3]" 4095 0] by simp

section \<open>What an answer means\<close>

definition demo_ser :: "u64 \<Rightarrow> u32 \<Rightarrow> string" where
  "demo_ser u m = show_nat (unat u) @ '':'' @ show_nat (unat m)"

definition small_keyspace :: keyspace where
  "small_keyspace = (\<lambda>_. None)(TMP_USER_INFO_KEY \<mapsto> [192])"

definition chunk_request :: produce_request where
  "chunk_request = \<lparr>msg_id = 1, start_uid = 0, end_uid = 7\<rparr>"

text \<open>One chunk with two users: the first message is rejected once, both are acknowledged.\<close>

definition chunk_events :: "producer_event list" where
  "chunk_events = [Request 0 chunk_request (Some [0, 1]), Send 0 ''0:1'' [''1:1''] True,
     Rejected 0 ''0:1'', Send 0 ''1:1'' [] False, Send 0 ''1:1'' [] True, Retry 0 ''0:1'' True,
     Acknowledged 0 ''1:1'', Acknowledged 0 ''0:1'']"

definition chunk_start :: "keyspace producer_sys" where
  "chunk_start = producer_init (connected, small_keyspace)"

abbreviation producer_run ::
  "'w hiredis \<Rightarrow> (u64 \<Rightarrow> u32 \<Rightarrow> string) \<Rightarrow> redis_handler \<times> 'w \<Rightarrow> producer_event list \<Rightarrow> 'w producer_sys \<Rightarrow> bool" where
  "producer_run cl ser r \<equiv> traces (producer_step cl ser) (producer_init r) small_request"

lemma chunk_exec:
  obtains s where "producer_run demo_redis demo_ser (connected, small_keyspace) chunk_events s"
    "jobs s 0 = Some \<lparr>job_request = chunk_request, job_status = FINISH, waitForSendCount = 0, job_reply = Some SUCCESS\<rparr>"
    "workers s = {#Unlocking 0#}" "taskCount s = 0"
proof -
  have "case exec_trace (exec_producer demo_redis demo_ser) small_request chunk_events chunk_start of
      None \<Rightarrow> False | Some s \<Rightarrow> jobs s 0 = Some \<lparr>job_request = chunk_request, job_status = FINISH,
        waitForSendCount = 0, job_reply = Some SUCCESS\<rparr> \<and> workers s = {#Unlocking 0#} \<and> taskCount s = 0"
    by code_simp
  then obtain s where "exec_trace (exec_producer demo_redis demo_ser) small_request chunk_events chunk_start = Some s"
    "jobs s 0 = Some \<lparr>job_request = chunk_request, job_status = FINISH, waitForSendCount = 0, job_reply = Some SUCCESS\<rparr>"
    "workers s = {#Unlocking 0#}" "taskCount s = 0"
    by (auto split: option.splits)
  then show thesis using producer_exec.exec_run that unfolding chunk_start_def by blast
qed

text \<open>After the first five events, one message waits for its retry and one for its callback.\<close>

definition open_events :: "producer_event list" where
  "open_events = take 5 chunk_events"

lemma open_exec:
  obtains s where "producer_run demo_redis demo_ser (connected, small_keyspace) open_events s"
    "workers s = {#AtBroker 0 ''1:1'', Retrying 0 ''0:1''#}" "taskCount s = 1"
    "map_option waitForSendCount (jobs s 0) = Some 2"
proof -
  have "case exec_trace (exec_producer demo_redis demo_ser) small_request open_events chunk_start of
      None \<Rightarrow> False | Some s \<Rightarrow> workers s = {#AtBroker 0 ''1:1'', Retrying 0 ''0:1''#} \<and> taskCount s = 1 \<and>
        map_option waitForSendCount (jobs s 0) = Some 2"
    by code_simp
  then obtain s where "exec_trace (exec_producer demo_redis demo_ser) small_request open_events chunk_start = Some s"
    "workers s = {#AtBroker 0 ''1:1'', Retrying 0 ''0:1''#}" "taskCount s = 1"
    "map_option waitForSendCount (jobs s 0) = Some 2"
    by (auto split: option.splits)
  then show thesis using producer_exec.exec_run that unfolding chunk_start_def by blast
qed

text \<open>
  C24: what an answer of the producer means. In every interleaving, the messages planned for the
  requests are, with multiplicity, those RocketMQ acknowledged and those on their way; a request
  that is answered is answered with \<^verbatim>\<open>SUCCESS\<close>, and then every message planned for it is
  acknowledged, as often as it was planned.
\<close>

theorem answer_means_acknowledged:
  assumes "producer_run cl ser r evs s"
  shows "pending_msgs s + acked evs = planned ser evs \<and>
    (\<forall>n j. jobs s n = Some j \<and> job_reply j \<noteq> None \<longrightarrow> job_reply j = Some SUCCESS \<and>
      filter_mset (\<lambda>m. fst m = n) (acked evs) = filter_mset (\<lambda>m. fst m = n) (planned ser evs))"
proof (intro conjI allI impI)
  have ok: "producer_ok ser evs s" by (rule producer_inv.inv_run [OF assms])
  then show eq: "pending_msgs s + acked evs = planned ser evs" by (simp add: producer_ok_def)
  fix n j assume j: "jobs s n = Some j \<and> job_reply j \<noteq> None"
  have "jobs_ok (failed evs) (pending_msgs s) (created s) (jobs s)" using ok by (simp add: producer_ok_def)
  then have "job_ok (live (pending_msgs s) n) (n \<in> failed evs) j" using j by (simp add: jobs_okD(2))
  then have "live (pending_msgs s) n = 0" and r: "job_reply j = Some SUCCESS"
    using j by (auto simp: job_ok_def split: if_splits)
  then have "filter_mset (\<lambda>m. fst m = n) (pending_msgs s) = {#}" by (simp add: live_def)
  moreover have "filter_mset (\<lambda>m. fst m = n) (pending_msgs s) + filter_mset (\<lambda>m. fst m = n) (acked evs) =
      filter_mset (\<lambda>m. fst m = n) (planned ser evs)" by (simp flip: eq)
  ultimately show "filter_mset (\<lambda>m. fst m = n) (acked evs) = filter_mset (\<lambda>m. fst m = n) (planned ser evs)"
    by (metis empty_neutral(1))
  show "job_reply j = Some SUCCESS" by (rule r)
qed

theorem answer_means_acknowledged_witness:
  "filter_mset (\<lambda>m. fst m = 0) (acked chunk_events) = {#(0, ''0:1''), (0, ''1:1'')#}"
proof -
  obtain s where s: "producer_run demo_redis demo_ser (connected, small_keyspace) chunk_events s"
    "jobs s 0 = Some \<lparr>job_request = chunk_request, job_status = FINISH, waitForSendCount = 0, job_reply = Some SUCCESS\<rparr>"
    by (rule chunk_exec)
  have "filter_mset (\<lambda>m. fst m = 0) (planned demo_ser chunk_events) = {#(0, ''0:1''), (0, ''1:1'')#}"
    by code_simp
  moreover have "filter_mset (\<lambda>m. fst m = 0) (acked chunk_events) = filter_mset (\<lambda>m. fst m = 0) (planned demo_ser chunk_events)"
    using conjunct2 [OF answer_means_acknowledged [OF s(1)]] s(2) by fastforce
  ultimately show ?thesis by simp
qed

text \<open>
  C26: while a request has messages on their way, its object is there, unanswered, and its
  \<^verbatim>\<open>waitForSendCount\<close> is their number; so a callback of RocketMQ always finds its object.
\<close>

theorem callbacks_find_their_object:
  assumes "producer_run cl ser r evs s" and "(n, b) \<in># pending_msgs s"
  shows "(\<exists>j. jobs s n = Some j \<and> job_reply j = None \<and>
      unat (waitForSendCount j) = size {#m \<in># pending_msgs s. fst m = n#}) \<and>
    (AtBroker n b \<in># workers s \<longrightarrow> (\<exists>s'. producer_step cl ser (Acknowledged n b) s s'))"
proof -
  have ok: "producer_ok ser evs s" by (rule producer_inv.inv_run [OF assms(1)])
  obtain j where "jobs s n = Some j" "job_reply j = None" "waitForSendCount j = word_of_nat (live (pending_msgs s) n)"
    "live (pending_msgs s) n < 2 ^ 32"
    using callback_object [OF ok assms(2)] by auto
  then show ?thesis
    using acknowledge_enabled [OF ok, of n b cl]
    by (auto simp: live_def unat_of_nat take_bit_nat_eq_self)
qed

theorem callbacks_find_their_object_witness:
  "\<exists>s j. producer_run demo_redis demo_ser (connected, small_keyspace) open_events s \<and>
    jobs s 0 = Some j \<and> unat (waitForSendCount j) = 2"
proof -
  obtain s where s: "producer_run demo_redis demo_ser (connected, small_keyspace) open_events s"
    "workers s = {#AtBroker 0 ''1:1'', Retrying 0 ''0:1''#}" by (rule open_exec)
  then have "pending_msgs s = {#(0, ''1:1''), (0, ''0:1'')#}" by (simp add: pending_msgs_def)
  with callbacks_find_their_object [OF s(1), of 0 "''1:1''"] s(1) show ?thesis by auto
qed

text \<open>
  C25: every message can be acknowledged. From every state of the producer some accepted sends,
  accepted retries and acknowledgements leave no message on its way, and then every request
  is answered, except those whose \<^verbatim>\<open>ProduceMsg\<close> failed.
\<close>

theorem requests_can_finish:
  assumes "producer_run cl ser r evs s"
  shows "\<exists>evs' s'. list_all send_event evs' \<and> producer_run cl ser r (evs @ evs') s' \<and>
    acked (evs @ evs') = planned ser evs \<and>
    (\<forall>n j. jobs s' n = Some j \<longrightarrow> job_reply j = Some SUCCESS \<or> n \<in> failed evs)"
proof -
  obtain evs' s' where r: "list_all send_event evs'" "producer_run cl ser r (evs @ evs') s'" "pending_msgs s' = {#}"
    using progress_msgs [OF assms] by blast
  have ok: "producer_ok ser (evs @ evs') s'" by (rule producer_inv.inv_run [OF r(2)])
  have "acked (evs @ evs') = planned ser evs"
    using ok r(3) send_event_planned [OF r(1), of ser evs] by (simp add: producer_ok_def)
  moreover have "failed (evs @ evs') = failed evs"
    using r(1) by (auto simp: failed_def list_all_iff send_event_def)
  moreover have "job_reply j = Some SUCCESS \<or> n \<in> failed (evs @ evs')" if "jobs s' n = Some j" for n j
  proof -
    have "jobs_ok (failed (evs @ evs')) {#} (created s') (jobs s')" using ok r(3) by (simp add: producer_ok_def)
    from jobs_okD(2) [OF this that] show ?thesis by (auto simp: job_ok_def split: if_splits)
  qed
  ultimately show ?thesis using r(1,2) by auto
qed

theorem requests_can_finish_witness:
  "\<exists>evs' s'. producer_run demo_redis demo_ser (connected, small_keyspace) (open_events @ evs') s' \<and>
    acked (open_events @ evs') = {#(0, ''0:1''), (0, ''1:1'')#}"
proof -
  obtain s where s: "producer_run demo_redis demo_ser (connected, small_keyspace) open_events s" by (rule open_exec)
  have "planned demo_ser open_events = {#(0, ''0:1''), (0, ''1:1'')#}" by code_simp
  with requests_can_finish [OF s] show ?thesis by metis
qed

section \<open>Requests without an answer\<close>

text \<open>
  C27: a request whose \<^verbatim>\<open>ProduceMsg\<close> returned \<^verbatim>\<open>ERR\<close> is never answered: its object stays, in
  status \<^verbatim>\<open>PROCESS\<close> and without a reply, in every continuation of the run.
\<close>

theorem failed_request_never_answered:
  assumes "producer_run cl ser r evs s" and "Request n req None \<in> set evs"
  shows "\<exists>j. jobs s n = Some j \<and> job_status j = PROCESS \<and> job_reply j = None"
proof -
  have js: "jobs_ok (failed evs) (pending_msgs s) (created s) (jobs s)"
    using producer_inv.inv_run [OF assms(1)] by (simp add: producer_ok_def)
  have n: "n \<in> failed evs" using assms(2) by (auto simp: failed_def)
  then obtain j where j: "jobs s n = Some j" using jobs_okD(1) [OF js, of n] by (cases "jobs s n") auto
  from jobs_okD(2) [OF js this] n show ?thesis using j by (simp add: job_ok_def)
qed

lemma empty_exec:
  obtains s where "producer_run demo_redis demo_ser (connected, \<lambda>_. None) [Request 0 chunk_request None] s"
proof -
  have "case exec_trace (exec_producer demo_redis demo_ser) small_request [Request 0 chunk_request None]
      (producer_init (connected, \<lambda>_. None)) of None \<Rightarrow> False | Some _ \<Rightarrow> True"
    by code_simp
  then obtain s where "exec_trace (exec_producer demo_redis demo_ser) small_request [Request 0 chunk_request None]
      (producer_init (connected, \<lambda>_. None)) = Some s" by (auto split: option.splits)
  then show thesis using producer_exec.exec_run that by blast
qed

theorem failed_request_never_answered_witness:
  "\<exists>s j. producer_run demo_redis demo_ser (connected, \<lambda>_. None) [Request 0 chunk_request None] s \<and>
    jobs s 0 = Some j \<and> job_reply j = None"
proof -
  obtain s where s: "producer_run demo_redis demo_ser (connected, \<lambda>_. None) [Request 0 chunk_request None] s"
    by (rule empty_exec)
  from failed_request_never_answered [OF s, of 0 chunk_request] s show ?thesis by auto
qed

text \<open>
  C28: \<^verbatim>\<open>taskCount\<close> is, modulo \<open>2 ^ 32\<close>, the number of requests with messages on their way plus the
  number of all requests there ever were that failed or had no user: these are never taken
  off, so the load score of the producer counts them for ever.
\<close>

theorem taskCount_counts_silent_requests:
  assumes "producer_run cl ser r evs s"
  shows "taskCount s = word_of_nat (card {n. \<exists>b. (n, b) \<in># pending_msgs s} +
    length (filter (\<lambda>ev. case ev of Request _ _ None \<Rightarrow> True | Request _ _ (Some uids) \<Rightarrow> uids = [] | _ \<Rightarrow> False) evs))"
proof -
  have "{n. live (pending_msgs s) n \<noteq> 0} = {n. \<exists>b. (n, b) \<in># pending_msgs s}"
    by (auto simp: live_def)
  then show ?thesis
    using producer_inv.inv_run [OF assms] by (simp add: producer_ok_def silent_def is_silent_def [abs_def])
qed

theorem taskCount_counts_silent_requests_witness:
  "\<exists>s. producer_run demo_redis demo_ser (connected, \<lambda>_. None) [Request 0 chunk_request None] s \<and>
    pending_msgs s = {#} \<and> taskCount s = 1"
proof -
  obtain s where s: "producer_run demo_redis demo_ser (connected, \<lambda>_. None) [Request 0 chunk_request None] s"
    by (rule empty_exec)
  have "pending_msgs s = {#}"
    using producer_inv.inv_run [OF s] by (simp add: producer_ok_def planned_def planned_by_def acked_def acknowledged_by_def)
  with taskCount_counts_silent_requests [OF s] s show ?thesis by auto
qed


end
