(* ===== verification/MysqlHandler.thy ===== *)
theory MysqlHandler
  imports Prelude
begin

text \<open>
  \<^verbatim>\<open>common/dataHandler/mysqlHandler.cpp\<close>: the connection to MySQL with its retries. The client
  library is a parameter, as for Redis.
\<close>

section \<open>The client library\<close>

text \<open>
  \<^verbatim>\<open>mysql_init\<close> and \<^verbatim>\<open>mysql_real_connect\<close>: whether the pointer returned is not null; \<^verbatim>\<open>mysql_query\<close>:
  whether it failed; \<^verbatim>\<open>mysql_use_result\<close>: null, or the first column of the rows that
  \<^verbatim>\<open>mysql_fetch_row\<close> will return before it returns null, be it at the end or on an error.
\<close>

record 'w mysql =
  mysql_init :: "'w \<Rightarrow> bool \<times> 'w"
  mysql_real_connect :: "'w \<Rightarrow> bool \<times> 'w"
  mysql_query :: "string \<Rightarrow> 'w \<Rightarrow> bool \<times> 'w"
  mysql_use_result :: "'w \<Rightarrow> string list option \<times> 'w"
  mysql_affected_rows :: "'w \<Rightarrow> int"

section \<open>The handler\<close>

record mysql_handler =
  connection_set :: bool
  result :: "string list option"

definition MysqlHandler_connect :: "'w mysql \<Rightarrow> mysql_handler \<times> 'w \<Rightarrow> bool \<times> mysql_handler \<times> 'w" where
  "MysqlHandler_connect my s =
     (let (h, w) = s in
      if connection_set h then (True, h, w)
      else let (made, w1) = mysql_init my w in
        if \<not> made then (False, h\<lparr>connection_set := False\<rparr>, w1)
        else let (conn, w2) = mysql_real_connect my w1 in
          if \<not> conn then (False, h\<lparr>connection_set := False\<rparr>, w2)
          else (True, h\<lparr>connection_set := True\<rparr>, w2))"

definition MysqlHandler_init :: "'w mysql \<Rightarrow> 'w \<Rightarrow> mysql_handler \<times> 'w" where
  "MysqlHandler_init my w = snd (MysqlHandler_connect my (\<lparr>connection_set = False, result = None\<rparr>, w))"

definition MysqlHandler_freeConnection :: "mysql_handler \<times> 'w \<Rightarrow> mysql_handler \<times> 'w" where
  "MysqlHandler_freeConnection s = (let (h, w) = s in (h\<lparr>connection_set := False\<rparr>, w))"

text \<open>\<^verbatim>\<open>get\<close>, the connection, and the destructor.\<close>

definition MysqlHandler_get :: "mysql_handler \<times> 'w \<Rightarrow> bool" where
  "MysqlHandler_get s = connection_set (fst s)"

definition MysqlHandler_destruct :: "mysql_handler \<times> 'w \<Rightarrow> mysql_handler \<times> 'w" where
  "MysqlHandler_destruct s = MysqlHandler_freeConnection s"

text \<open>
  The loop of \<^verbatim>\<open>command\<close>. \<^verbatim>\<open>mysql_query\<close> dereferences the connection. The result is written to
  \<^verbatim>\<open>res\<close> only on success; \<open>None\<close>: the return with \<^verbatim>\<open>false\<close>.
\<close>

fun mysql_loop ::
  "nat \<Rightarrow> 'w mysql \<Rightarrow> string \<Rightarrow> mysql_handler \<times> 'w \<Rightarrow>
   (string list option option \<times> mysql_handler \<times> 'w) ub_or" where
  "mysql_loop 0 my cmd s = Inr (None, s)"
| "mysql_loop (Suc n) my cmd s =
     (let (h, w) = s in
      if \<not> connection_set h then Inl NullDeref
      else let (failed, w1) = mysql_query my cmd w in
        if failed then mysql_loop n my cmd (snd (MysqlHandler_connect my (MysqlHandler_freeConnection (h, w1))))
        else let (res, w2) = mysql_use_result my w1 in Inr (Some res, h\<lparr>result := res\<rparr>, w2))"

definition MysqlHandler_command ::
  "'w mysql \<Rightarrow> string \<Rightarrow> mysql_handler \<times> 'w \<Rightarrow>
   (string list option option \<times> mysql_handler \<times> 'w) ub_or" where
  "MysqlHandler_command my cmd s = mysql_loop 3 my cmd s"

definition freeResult :: "mysql_handler \<times> 'w \<Rightarrow> mysql_handler \<times> 'w" where
  "freeResult s = (let (h, w) = s in (h\<lparr>result := None\<rparr>, w))"

section \<open>A query that succeeds at once\<close>

lemma mysql_command_prompt:
  assumes "connection_set h" and "mysql_query my cmd w = (False, w1)" and "mysql_use_result my w1 = (res, w2)"
  shows "MysqlHandler_command my cmd (h, w) = Inr (Some res, h\<lparr>result := res\<rparr>, w2)"
proof -
  have "mysql_loop (Suc n) my cmd (h, w) = Inr (Some res, h\<lparr>result := res\<rparr>, w2)" for n
    using assms by (simp add: Let_def)
  from this [of 2] show ?thesis by (simp add: MysqlHandler_command_def)
qed

declare mysql_loop.simps [simp del]

end
