(* ===== verification/UserInfoUpdate.thy ===== *)
theory UserInfoUpdate
  imports RedisServer MysqlHandler Binary64
begin

text \<open>
  \<^verbatim>\<open>userInfoUpdate/userInfoUpdate.cpp\<close>: the process that copies the user tables of MySQL into
  bitmaps in Redis, once a day for each of the three tables (tags 0, 1, 2). Bit \<open>u\<close> of the
  bitmap, the most significant bit of a byte first, is the user \<open>u\<close>.
\<close>

section \<open>Constants and statements\<close>

definition COUNTS_PER_LOOP :: u32 where "COUNTS_PER_LOOP = 10240"
definition END_UID :: u64 where "END_UID = 100000000"
definition DIFF_PERCENTAGE :: u32 where "DIFF_PERCENTAGE = 100"

definition tableNames :: "string list" where
  "tableNames = [''official_fans'', ''month_active_users'', ''push_switch'']"

text \<open>\<^verbatim>\<open>beginUid\<close> is signed, and so is the sum, which does not overflow for the values it is called with.\<close>

definition GenSQL :: "nat \<Rightarrow> int \<Rightarrow> string" where
  "GenSQL tag beginUid = ''SELECT uid FROM '' @ tableNames ! tag @ '' WHERE uid >= '' @ show_int beginUid
     @ '' AND uid < '' @ show_int (beginUid + int (unat COUNTS_PER_LOOP))
     @ (if tag = 2 then '' AND opened = 1'' else [])"

definition last_update_sql :: "nat \<Rightarrow> string" where
  "last_update_sql tag = ''SELECT last_update_time FROM user_info_update_record WHERE type = '' @ show_nat tag"

definition update_sql :: "nat \<Rightarrow> u64 \<Rightarrow> string" where
  "update_sql tag now = ''UPDATE user_info_update_record SET last_update_time = '' @ show_nat (unat now)
     @ '' WHERE type = '' @ show_nat tag"

definition insert_sql :: "nat \<Rightarrow> u64 \<Rightarrow> string" where
  "insert_sql tag now = ''INSERT INTO user_info_update_record(type, last_update_time) VALUES('' @ show_nat tag
     @ '','' @ show_nat (unat now) @ '')''"

section \<open>The state of the process\<close>

record 'w updater =
  redis_h :: redis_handler
  mysql_h :: mysql_handler
  world :: 'w

text \<open>The two handlers on this state; the code calls them as globals.\<close>

definition redis_cmd ::
  "'w hiredis \<Rightarrow> string \<Rightarrow> bytes option \<Rightarrow> 'w updater \<Rightarrow> (redis_reply option \<times> 'w updater) ub_or" where
  "redis_cmd cl cmd val s =
     (case (case val of None \<Rightarrow> RedisHandler_command cl cmd None (redis_h s, world s)
            | Some v \<Rightarrow> RedisHandler_command_value cl cmd v (redis_h s, world s)) of
        Inl e \<Rightarrow> Inl e
      | Inr (r, h, w) \<Rightarrow> Inr (r, s\<lparr>redis_h := h, world := w\<rparr>))"

definition redis_free :: "'w updater \<Rightarrow> 'w updater" where
  "redis_free s = s\<lparr>redis_h := fst (freeReply (redis_h s, world s))\<rparr>"

definition mysql_cmd ::
  "'w mysql \<Rightarrow> string \<Rightarrow> 'w updater \<Rightarrow> (string list option option \<times> 'w updater) ub_or" where
  "mysql_cmd my cmd s =
     (case MysqlHandler_command my cmd (mysql_h s, world s) of
        Inl e \<Rightarrow> Inl e
      | Inr (r, h, w) \<Rightarrow> Inr (r, s\<lparr>mysql_h := h, world := w\<rparr>))"

definition mysql_free :: "'w updater \<Rightarrow> 'w updater" where
  "mysql_free s = s\<lparr>mysql_h := fst (freeResult (mysql_h s, world s))\<rparr>"

section \<open>One page of a table\<close>

text \<open>
  \<^verbatim>\<open>bitmap[offset / 8] |= (1 << (7 - offset % 8))\<close>: beyond the end of the string the access is
  out of bounds. The offset is the difference of unsigned numbers.
\<close>

definition set_bit_of :: "u64 \<Rightarrow> bytes \<Rightarrow> bytes ub_or" where
  "set_bit_of offset bitmap =
     (if unat (offset div 8) < length bitmap then
        Inr (bitmap[unat (offset div 8) := set_bit (7 - unat (offset mod 8)) (bitmap ! unat (offset div 8))])
      else Inl OutOfBounds)"

fun fill_bitmap :: "u64 \<Rightarrow> string list \<Rightarrow> bytes \<Rightarrow> bytes ub_or" where
  "fill_bitmap uid [] bitmap = Inr bitmap"
| "fill_bitmap uid (row # rows) bitmap =
     (case set_bit_of (parse_u64 row - uid) bitmap of
        Inl e \<Rightarrow> Inl e | Inr b \<Rightarrow> fill_bitmap uid rows b)"

text \<open>\<^verbatim>\<open>string bitmap(COUNTS_PER_LOOP / 8, 0)\<close>\<close>

definition empty_bitmap :: bytes where
  "empty_bitmap = replicate (unat COUNTS_PER_LOOP div 8) 0"

text \<open>
  The body of the loop: \<open>False\<close> is the return out of it. Fetching a row of a null result, which
  \<^verbatim>\<open>MysqlHandler::command\<close> passes on as a success, dereferences it.
\<close>

definition copy_page ::
  "'w hiredis \<Rightarrow> 'w mysql \<Rightarrow> nat \<Rightarrow> u64 \<Rightarrow> 'w updater \<Rightarrow> (bool \<times> 'w updater) ub_or" where
  "copy_page cl my tag uid s =
     (case mysql_cmd my (GenSQL tag (uint uid)) s of
        Inl e \<Rightarrow> Inl e
      | Inr (None, s1) \<Rightarrow> Inr (False, s1)
      | Inr (Some None, s1) \<Rightarrow> Inl NullDeref
      | Inr (Some (Some rows), s1) \<Rightarrow>
          (case fill_bitmap uid rows empty_bitmap of
             Inl e \<Rightarrow> Inl e
           | Inr bitmap \<Rightarrow>
               (case redis_cmd cl (''SETRANGE '' @ genTempKey (USER_INFO_KEY ! tag) @ '' ''
                     @ show_nat (unat (uid div 8)) @ '' %b'') (Some bitmap) s1 of
                  Inl e \<Rightarrow> Inl e
                | Inr (None, s2) \<Rightarrow> Inr (False, s2)
                | Inr (Some _, s2) \<Rightarrow> Inr (True, redis_free s2))))"

text \<open>The loop, with \<^verbatim>\<open>mysqlHandler.freeResult()\<close> in its step.\<close>

definition next_uid :: "u64 \<Rightarrow> u64" where
  "next_uid uid = uid + ucast COUNTS_PER_LOOP"

lemma next_uid_unat: "uid \<le> END_UID \<Longrightarrow> unat (next_uid uid) = unat uid + 10240"
proof -
  assume "uid \<le> END_UID"
  then have "unat uid \<le> 100000000" by (simp add: END_UID_def word_le_nat_alt)
  then have "unat uid + unat (10240 :: u64) < 2 ^ 64" by simp
  from unat_add_no_wrap64 [OF this] show ?thesis by (simp add: next_uid_def COUNTS_PER_LOOP_def)
qed

function copy_pages ::
  "'w hiredis \<Rightarrow> 'w mysql \<Rightarrow> nat \<Rightarrow> u64 \<Rightarrow> 'w updater \<Rightarrow> (bool \<times> 'w updater) ub_or" where
  "copy_pages cl my tag uid s =
     (if uid \<le> END_UID then
        (case copy_page cl my tag uid s of
           Inl e \<Rightarrow> Inl e
         | Inr (False, s1) \<Rightarrow> Inr (False, s1)
         | Inr (True, s1) \<Rightarrow> copy_pages cl my tag (next_uid uid) (mysql_free s1))
      else Inr (True, s))"
  by pat_completeness auto

termination copy_pages
proof (relation "measure (\<lambda>(cl, my, tag, uid, s). 100020000 - unat uid)")
  fix uid :: u64
  assume "uid \<le> END_UID"
  then have "unat uid \<le> 100000000" "unat (next_uid uid) = unat uid + 10240"
    by (simp_all add: next_uid_unat) (simp add: END_UID_def word_le_nat_alt)
  then show "((cl, my, tag, next_uid uid, mysql_free s1), cl, my, tag, uid, s)
      \<in> measure (\<lambda>(cl, my, tag, uid, s). 100020000 - unat uid)" for cl my tag s s1
    by simp
qed simp

declare copy_pages.simps [simp del]

section \<open>Accepting the new bitmap\<close>

text \<open>
  The decision: a missing release key accepts at once, else the bits that differ are counted. The
  number of a reply is stored in an \<^verbatim>\<open>int\<close>, the count in a \<^verbatim>\<open>uint32_t\<close>. \<open>None\<close>: the return.
\<close>

definition diff_percentage :: "u32 \<Rightarrow> double" where
  "diff_percentage bitcounts = ddiv (dmul (of_nat (unat bitcounts)) 100) (of_nat (unat END_UID))"

definition check_diff :: "'w hiredis \<Rightarrow> nat \<Rightarrow> 'w updater \<Rightarrow> (bool option \<times> 'w updater) ub_or" where
  "check_diff cl tag s =
     (let key = USER_INFO_KEY ! tag in
      case redis_cmd cl (''EXISTS '' @ genReleaseKey key) None s of
        Inl e \<Rightarrow> Inl e
      | Inr (None, s1) \<Rightarrow> Inr (None, s1)
      | Inr (Some r1, s1) \<Rightarrow>
          if take_bit 32 (reply_integer r1) = 0 then Inr (Some True, redis_free s1)
          else
            (case redis_cmd cl (''BITOP XOR '' @ genDiffKey key @ '' '' @ genReleaseKey key @ '' '' @ genTempKey key)
                    None (redis_free s1) of
               Inl e \<Rightarrow> Inl e
             | Inr (None, s2) \<Rightarrow> Inr (None, s2)
             | Inr (Some _, s2) \<Rightarrow>
                 (case redis_cmd cl (''BITCOUNT '' @ genDiffKey key) None (redis_free s2) of
                    Inl e \<Rightarrow> Inl e
                  | Inr (None, s3) \<Rightarrow> Inr (None, s3)
                  | Inr (Some r3, s3) \<Rightarrow>
                      let ok = diff_percentage (word_of_int (reply_integer r3)) < of_nat (unat DIFF_PERCENTAGE) in
                      (case redis_cmd cl (''DEL '' @ genDiffKey key) None (redis_free s3) of
                         Inl e \<Rightarrow> Inl e
                       | Inr (_, s4) \<Rightarrow> Inr (Some ok, redis_free s4)))))"

text \<open>
  The release: rename, note the time in MySQL, drop the key the producers build. \<open>False\<close>: the return.
\<close>

definition release_update ::
  "'w hiredis \<Rightarrow> 'w mysql \<Rightarrow> nat \<Rightarrow> u64 \<Rightarrow> 'w updater \<Rightarrow> (bool \<times> 'w updater) ub_or" where
  "release_update cl my tag now s =
     (let key = USER_INFO_KEY ! tag;
          drop_tmp = (\<lambda>s. case redis_cmd cl (''DEL '' @ TMP_USER_INFO_KEY) None s of
                        Inl e \<Rightarrow> Inl e | Inr (_, s') \<Rightarrow> Inr (True, redis_free s'))
      in case redis_cmd cl (''RENAME '' @ genTempKey key @ '' '' @ genReleaseKey key) None s of
           Inl e \<Rightarrow> Inl e
         | Inr (None, s1) \<Rightarrow> Inr (False, s1)
         | Inr (Some _, s1) \<Rightarrow>
             (case mysql_cmd my (update_sql tag now) (redis_free s1) of
                Inl e \<Rightarrow> Inl e
              | Inr (None, s2) \<Rightarrow> Inr (False, s2)
              | Inr (Some _, s2) \<Rightarrow>
                  if signed_take_bit 31 (mysql_affected_rows my (world s2)) \<le> 0 then
                    (case mysql_cmd my (insert_sql tag now) (mysql_free s2) of
                       Inl e \<Rightarrow> Inl e
                     | Inr (None, s3) \<Rightarrow> Inr (False, s3)
                     | Inr (Some _, s3) \<Rightarrow> drop_tmp (mysql_free s3))
                  else drop_tmp (mysql_free s2)))"

section \<open>UpdateUserInfo\<close>

text \<open>
  What the function did, as its last log line tells: it stopped on the way, rejected the new
  bitmap, or finished with the new bitmap released.
\<close>

datatype update_outcome = Stopped | Refused | Released

definition UpdateUserInfo ::
  "'w hiredis \<Rightarrow> 'w mysql \<Rightarrow> nat \<Rightarrow> u64 \<Rightarrow> 'w updater \<Rightarrow> (update_outcome \<times> 'w updater) ub_or" where
  "UpdateUserInfo cl my tag now s =
     (case redis_cmd cl (''DEL '' @ genTempKey (USER_INFO_KEY ! tag)) None s of
        Inl e \<Rightarrow> Inl e
      | Inr (None, s1) \<Rightarrow> Inr (Stopped, s1)
      | Inr (Some _, s1) \<Rightarrow>
          (case copy_pages cl my tag 0 (redis_free s1) of
             Inl e \<Rightarrow> Inl e
           | Inr (False, s2) \<Rightarrow> Inr (Stopped, s2)
           | Inr (True, s2) \<Rightarrow>
               (case check_diff cl tag s2 of
                  Inl e \<Rightarrow> Inl e
                | Inr (None, s3) \<Rightarrow> Inr (Stopped, s3)
                | Inr (Some False, s3) \<Rightarrow> Inr (Refused, s3)
                | Inr (Some True, s3) \<Rightarrow>
                    (case release_update cl my tag now s3 of
                       Inl e \<Rightarrow> Inl e
                     | Inr (ok, s4) \<Rightarrow> Inr (if ok then Released else Stopped, s4)))))"

section \<open>CheckAndUpdateUserInfo\<close>

text \<open>
  The two fields of \<^verbatim>\<open>localtime\<close> the code reads; the time zone makes it a parameter. It returns
  null for a time it cannot represent.
\<close>

record tm =
  tm_mday :: int
  tm_mon :: int

definition same_day :: "tm \<Rightarrow> tm \<Rightarrow> bool" where
  "same_day a b = (tm_mday a = tm_mday b \<and> tm_mon a = tm_mon b)"

text \<open>\<open>now\<close>: the time of the check; \<open>now'\<close>: the time of the release. \<open>None\<close>: nothing was to do.\<close>

definition CheckAndUpdateUserInfo ::
  "'w hiredis \<Rightarrow> 'w mysql \<Rightarrow> (int \<Rightarrow> tm option) \<Rightarrow> nat \<Rightarrow> int \<Rightarrow> u64 \<Rightarrow> 'w updater \<Rightarrow>
   (update_outcome option \<times> 'w updater) ub_or" where
  "CheckAndUpdateUserInfo cl my localtime tag now now' s =
     (let update = (\<lambda>s. case UpdateUserInfo cl my tag now' (mysql_free s) of
                      Inl e \<Rightarrow> Inl e | Inr (out, s') \<Rightarrow> Inr (Some out, s'))
      in case mysql_cmd my (last_update_sql tag) s of
           Inl e \<Rightarrow> Inl e
         | Inr (None, s1) \<Rightarrow> Inr (None, s1)
         | Inr (Some None, s1) \<Rightarrow> Inl NullDeref
         | Inr (Some (Some rows), s1) \<Rightarrow>
             (case rows of
                [] \<Rightarrow> update s1
              | row # _ \<Rightarrow>
                  (case (localtime (sint (parse_u64 row)), localtime now) of
                     (Some t, Some n) \<Rightarrow> if same_day t n then Inr (None, mysql_free s1) else update s1
                   | _ \<Rightarrow> Inl NullDeref)))"

section \<open>The main loop\<close>

text \<open>
  One round of \<^verbatim>\<open>main\<close>, without the sleep after it; \<open>clock\<close> is what the two readings of the clock
  return for each tag.
\<close>

fun check_tags ::
  "'w hiredis \<Rightarrow> 'w mysql \<Rightarrow> (int \<Rightarrow> tm option) \<Rightarrow> (nat \<Rightarrow> int \<times> u64) \<Rightarrow> nat list \<Rightarrow> 'w updater \<Rightarrow> 'w updater ub_or" where
  "check_tags cl my localtime clock [] s = Inr s"
| "check_tags cl my localtime clock (tag # tags) s =
     (case CheckAndUpdateUserInfo cl my localtime tag (fst (clock tag)) (snd (clock tag)) s of
        Inl e \<Rightarrow> Inl e | Inr (_, s1) \<Rightarrow> check_tags cl my localtime clock tags s1)"

definition update_round ::
  "'w hiredis \<Rightarrow> 'w mysql \<Rightarrow> (int \<Rightarrow> tm option) \<Rightarrow> (nat \<Rightarrow> int \<times> u64) \<Rightarrow> 'w updater \<Rightarrow> 'w updater ub_or" where
  "update_round cl my localtime clock s = check_tags cl my localtime clock [0, 1, 2] s"

end
