(* ===== verification/UpdateFacts.thy ===== *)
theory UpdateFacts
  imports UserInfoUpdate
begin

text \<open>
  What an update of a user table computes, with a MySQL and a Redis that behave as documented:
  page by page, the bits of the temporary key become the users of the table.
\<close>

unbundle bit_operations_syntax

section \<open>Keys\<close>

lemma keys_differ:
  "genReleaseKey a \<noteq> genTempKey b" "genReleaseKey a \<noteq> genDiffKey b" "genTempKey a \<noteq> genDiffKey b"
  "genTempKey a \<noteq> genReleaseKey b" "genDiffKey a \<noteq> genReleaseKey b" "genDiffKey a \<noteq> genTempKey b"
  "genReleaseKey a \<noteq> TMP_USER_INFO_KEY" "genTempKey a \<noteq> TMP_USER_INFO_KEY" "genDiffKey a \<noteq> TMP_USER_INFO_KEY"
proof -
  note ends = genReleaseKey_def genTempKey_def genDiffKey_def TMP_USER_INFO_KEY_def
  have neq: "last x \<noteq> last y \<Longrightarrow> x \<noteq> y" for x y :: string by auto
  show "genReleaseKey a \<noteq> genTempKey b" "genReleaseKey a \<noteq> genDiffKey b" "genTempKey a \<noteq> genDiffKey b"
    "genTempKey a \<noteq> genReleaseKey b" "genDiffKey a \<noteq> genReleaseKey b" "genDiffKey a \<noteq> genTempKey b"
    "genReleaseKey a \<noteq> TMP_USER_INFO_KEY" "genTempKey a \<noteq> TMP_USER_INFO_KEY" "genDiffKey a \<noteq> TMP_USER_INFO_KEY"
    by (rule neq, simp add: ends)+
qed

lemma tag_cases: "tag < (3 :: nat) \<Longrightarrow> tag = 0 \<or> tag = 1 \<or> tag = 2"
  by auto

lemma tag_keys:
  assumes "tag < 3"
  shows "genReleaseKey (USER_INFO_KEY ! tag) \<in> set all_keys" "genTempKey (USER_INFO_KEY ! tag) \<in> set all_keys"
    "genDiffKey (USER_INFO_KEY ! tag) \<in> set all_keys" "TMP_USER_INFO_KEY \<in> set all_keys"
  using tag_cases [OF assms] by (auto simp: all_keys_def USER_INFO_KEY_def)

lemma release_keys_differ:
  "t < 3 \<Longrightarrow> t' < 3 \<Longrightarrow> genReleaseKey (USER_INFO_KEY ! t) = genReleaseKey (USER_INFO_KEY ! t') \<longleftrightarrow> t = t'"
  by (drule tag_cases, drule tag_cases) (auto simp: genReleaseKey_def USER_INFO_KEY_def)

section \<open>Filling a bitmap\<close>

lemma set_bit_of_ok:
  assumes "unat off < 8 * length b"
  shows "\<exists>b'. set_bit_of off b = Inr b' \<and> length b' = length b \<and> (\<forall>v. bit_at b' v \<longleftrightarrow> bit_at b v \<or> v = unat off)"
proof -
  let ?i = "unat off div 8" and ?j = "7 - unat off mod 8"
  have q: "unat (off div 8) = ?i" "unat (off mod 8) = unat off mod 8" by (simp_all add: unat_div unat_mod)
  have i: "?i < length b" using assms by (simp add: div_less_iff_less_mult mult.commute)
  let ?b = "b[?i := set_bit ?j (b ! ?i)]"
  have "bit_at ?b v \<longleftrightarrow> bit_at b v \<or> v = unat off" for v
  proof (cases "v div 8 = ?i")
    case True
    have "7 - v mod 8 = ?j \<longleftrightarrow> v mod 8 = unat off mod 8"
      using mod_less_divisor [of 8 v] mod_less_divisor [of 8 "unat off"] by (auto simp del: mod_less_divisor)
    also have "\<dots> \<longleftrightarrow> v = unat off" using True by (metis div_mod_decomp)
    finally have e: "7 - v mod 8 = ?j \<longleftrightarrow> v = unat off" .
    show ?thesis using i True e by (auto simp: bit_at_def bit_set_bit_iff)
  next
    case False
    then have "v \<noteq> unat off" by auto
    with False show ?thesis by (simp add: bit_at_def)
  qed
  then show ?thesis using i by (auto simp: set_bit_of_def q)
qed

lemma fill_bitmap_ok:
  "\<forall>u \<in> set uids. uid \<le> u \<and> unat u - unat uid < 8 * length b \<Longrightarrow>
    \<exists>b'. fill_bitmap uid (map (\<lambda>u. show_nat (unat u)) uids) b = Inr b' \<and> length b' = length b \<and>
      (\<forall>v. bit_at b' v \<longleftrightarrow> bit_at b v \<or> (\<exists>u \<in> set uids. unat u - unat uid = v))"
proof (induction uids arbitrary: b)
  case Nil
  then show ?case by simp
next
  case (Cons u uids)
  have o: "unat (u - uid) = unat u - unat uid" using Cons.prems by (simp add: unat_sub)
  then obtain b1 where b1: "set_bit_of (u - uid) b = Inr b1" "length b1 = length b"
    "\<forall>v. bit_at b1 v \<longleftrightarrow> bit_at b v \<or> v = unat u - unat uid"
    using set_bit_of_ok [of "u - uid" b] Cons.prems by auto
  then obtain b2 where "fill_bitmap uid (map (\<lambda>u. show_nat (unat u)) uids) b1 = Inr b2" "length b2 = length b1"
    "\<forall>v. bit_at b2 v \<longleftrightarrow> bit_at b1 v \<or> (\<exists>u \<in> set uids. unat u - unat uid = v)"
    using Cons.IH [of b1] Cons.prems by auto
  with b1 show ?case by (auto simp: parse_show_u64)
qed

lemma bit_at_replicate [simp]: "\<not> bit_at (replicate n 0) v"
  by (simp add: bit_at_def)

lemma bit_at_append: "bit_at (a @ b) v \<longleftrightarrow> bit_at a v \<or> 8 * length a \<le> v \<and> bit_at b (v - 8 * length a)"
proof (cases "v div 8 < length a")
  case True
  then have "v < 8 * length a" by (simp add: div_less_iff_less_mult mult.commute)
  with True show ?thesis by (simp add: bit_at_def nth_append)
next
  case False
  then have le: "8 * length a \<le> v" by (metis div_less_iff_less_mult mult.commute not_le zero_less_numeral)
  then obtain k where k: "v = 8 * length a + k" using le_Suc_ex by blast
  then have "v div 8 = length a + k div 8" "v mod 8 = k mod 8" by simp_all
  with False k show ?thesis by (simp add: bit_at_def nth_append)
qed

end
