(* ===== verification/UpdateRun.thy ===== *)
theory UpdateRun
  imports UpdateFacts
begin

text \<open>
  The whole of \<^verbatim>\<open>UpdateUserInfo\<close> against a reachable Redis and MySQL: its pages, its decision and
  its release, each as one lemma over the state \<open>serves\<close>.
\<close>

unbundle bit_operations_syntax

section \<open>The documented behaviour of MySQL\<close>

text \<open>
  The database: the users each table selects, and the recorded time of the last update of each,
  kept by \<^verbatim>\<open>user_info_update_record\<close>.
\<close>

record tables =
  users :: "nat \<Rightarrow> u64 set"
  last_update :: "nat \<Rightarrow> u64 option"

text \<open>
  A \<^verbatim>\<open>SELECT\<close> of \<^verbatim>\<open>GenSQL\<close> returns the decimal numbers of the users in its range, in any order. The
  recorded time of a table is no row or one. Statements that write return no result; an \<^verbatim>\<open>UPDATE\<close>
  affects the rows it changes, none when there is no row or when it holds the same time already;
  an \<^verbatim>\<open>INSERT\<close> is described for a table without a row. No statement touches Redis.
\<close>

definition mysql_answers ::
  "'w mysql \<Rightarrow> ('w \<Rightarrow> tables) \<Rightarrow> ('w \<Rightarrow> keyspace) \<Rightarrow> ('w \<Rightarrow> bool) \<Rightarrow> string \<Rightarrow> string list option \<Rightarrow> tables \<Rightarrow>
   'w \<Rightarrow> 'w \<Rightarrow> bool" where
  "mysql_answers my tbl db up cmd res T w w2 \<longleftrightarrow>
     (\<exists>w1. mysql_query my cmd w = (False, w1) \<and> mysql_use_result my w1 = (res, w2) \<and>
        up w2 \<and> tbl w2 = T \<and> db w2 = db w)"

definition mysql_documented ::
  "'w mysql \<Rightarrow> ('w \<Rightarrow> tables) \<Rightarrow> ('w \<Rightarrow> keyspace) \<Rightarrow> ('w \<Rightarrow> bool) \<Rightarrow> bool" where
  "mysql_documented my tbl db up \<longleftrightarrow> (\<forall>w tag. up w \<longrightarrow> tag < 3 \<longrightarrow>
     (\<forall>b \<ge> 0. \<exists>w2 uids. mysql_answers my tbl db up (GenSQL tag b) (Some (map (\<lambda>u. show_nat (unat u)) uids)) (tbl w) w w2 \<and>
        set uids = {u \<in> users (tbl w) tag. b \<le> uint u \<and> uint u < b + 10240}) \<and>
     (\<exists>w2. mysql_answers my tbl db up (last_update_sql tag)
        (Some (case last_update (tbl w) tag of None \<Rightarrow> [] | Some t \<Rightarrow> [show_nat (unat t)])) (tbl w) w w2) \<and>
     (\<forall>now. \<exists>w2. mysql_answers my tbl db up (update_sql tag now) None
        (if last_update (tbl w) tag = None then tbl w else (tbl w)\<lparr>last_update := (last_update (tbl w))(tag \<mapsto> now)\<rparr>) w w2 \<and>
        mysql_affected_rows my w2 = (if last_update (tbl w) tag \<in> {None, Some now} then 0 else 1)) \<and>
     (last_update (tbl w) tag = None \<longrightarrow> (\<forall>now. \<exists>w2. mysql_answers my tbl db up (insert_sql tag now) None
        ((tbl w)\<lparr>last_update := (last_update (tbl w))(tag \<mapsto> now)\<rparr>) w w2)))"

lemma mysql_select:
  "mysql_documented my tbl db up \<Longrightarrow> up w \<Longrightarrow> tag < 3 \<Longrightarrow> 0 \<le> b \<Longrightarrow>
    \<exists>w2 uids. mysql_answers my tbl db up (GenSQL tag b) (Some (map (\<lambda>u. show_nat (unat u)) uids)) (tbl w) w w2 \<and>
      set uids = {u \<in> users (tbl w) tag. b \<le> uint u \<and> uint u < b + 10240}"
  unfolding mysql_documented_def by blast

lemma mysql_last_update:
  "mysql_documented my tbl db up \<Longrightarrow> up w \<Longrightarrow> tag < 3 \<Longrightarrow>
    \<exists>w2. mysql_answers my tbl db up (last_update_sql tag)
      (Some (case last_update (tbl w) tag of None \<Rightarrow> [] | Some t \<Rightarrow> [show_nat (unat t)])) (tbl w) w w2"
  unfolding mysql_documented_def by blast

lemma mysql_update:
  "mysql_documented my tbl db up \<Longrightarrow> up w \<Longrightarrow> tag < 3 \<Longrightarrow>
    \<exists>w2. mysql_answers my tbl db up (update_sql tag now) None
      (if last_update (tbl w) tag = None then tbl w else (tbl w)\<lparr>last_update := (last_update (tbl w))(tag \<mapsto> now)\<rparr>) w w2 \<and>
      mysql_affected_rows my w2 = (if last_update (tbl w) tag \<in> {None, Some now} then 0 else 1)"
  unfolding mysql_documented_def by blast

lemma mysql_insert:
  "mysql_documented my tbl db up \<Longrightarrow> up w \<Longrightarrow> tag < 3 \<Longrightarrow> last_update (tbl w) tag = None \<Longrightarrow>
    \<exists>w2. mysql_answers my tbl db up (insert_sql tag now) None
      ((tbl w)\<lparr>last_update := (last_update (tbl w))(tag \<mapsto> now)\<rparr>) w w2"
  unfolding mysql_documented_def by blast

definition redis_frames :: "'w hiredis \<Rightarrow> ('w \<Rightarrow> tables) \<Rightarrow> bool" where
  "redis_frames cl tbl \<longleftrightarrow> (\<forall>cmd val w. tbl (snd (redisCommand cl cmd val w)) = tbl w)"

definition servers ::
  "'w hiredis \<Rightarrow> 'w mysql \<Rightarrow> ('w \<Rightarrow> tables) \<Rightarrow> ('w \<Rightarrow> keyspace) \<Rightarrow> ('w \<Rightarrow> bool) \<Rightarrow> bool" where
  "servers cl my tbl db up \<longleftrightarrow> redis_documented cl db up \<and> mysql_documented my tbl db up \<and> redis_frames cl tbl"

text \<open>Both handlers are connected, both servers reachable, with this key space and these tables.\<close>

definition serves ::
  "('w \<Rightarrow> tables) \<Rightarrow> ('w \<Rightarrow> keyspace) \<Rightarrow> ('w \<Rightarrow> bool) \<Rightarrow> keyspace \<Rightarrow> tables \<Rightarrow> 'w updater \<Rightarrow> bool" where
  "serves tbl db up ks T s \<longleftrightarrow> context_set (redis_h s) \<and> connection_set (mysql_h s) \<and>
     up (world s) \<and> db (world s) = ks \<and> tbl (world s) = T"

lemma serves_free [simp]:
  "serves tbl db up ks T (redis_free s) = serves tbl db up ks T s"
  "serves tbl db up ks T (mysql_free s) = serves tbl db up ks T s"
  by (simp_all add: serves_def redis_free_def mysql_free_def freeReply_def freeResult_def)

section \<open>Single commands\<close>

lemma redis_cmd_serves:
  assumes sv: "servers cl my tbl db up" and s: "serves tbl db up ks T s"
    and "set (redis_keys c) \<subseteq> set all_keys" and "reply_type (redis_answer c ks) \<noteq> REPLY_ERROR"
  obtains s' where "redis_cmd cl (redis_line c) (redis_value c) s = Inr (Some (redis_answer c ks), s')"
    "serves tbl db up (redis_effect c ks) T s'"
proof -
  obtain w' where w': "redisCommand cl (redis_line c) (redis_value c) (world s) = (Some (redis_answer c ks), w')"
    "up w'" "db w' = redis_effect c ks"
    using sv s assms(3) unfolding servers_def redis_documented_def serves_def by blast
  have "tbl w' = T"
    using sv s w'(1) unfolding servers_def redis_frames_def serves_def by (metis snd_conv)
  moreover have "RedisHandler_command cl (redis_line c) (redis_value c) (redis_h s, world s) =
      Inr (Some (redis_answer c ks), (redis_h s)\<lparr>reply := Some (redis_answer c ks)\<rparr>, w')"
    using s w'(1) assms(4) by (intro command_prompt) (simp_all add: serves_def)
  ultimately have "redis_cmd cl (redis_line c) (redis_value c) s = Inr (Some (redis_answer c ks),
      s\<lparr>redis_h := (redis_h s)\<lparr>reply := Some (redis_answer c ks)\<rparr>, world := w'\<rparr>)"
    by (cases "redis_value c") (simp_all add: redis_cmd_def RedisHandler_command_value_def)
  then show thesis
    using that s w'(2,3) \<open>tbl w' = T\<close> by (simp add: serves_def)
qed

lemma mysql_cmd_serves:
  assumes s: "serves tbl db up ks T s" and a: "mysql_answers my tbl db up cmd res T' (world s) w2"
  shows "\<exists>s'. mysql_cmd my cmd s = Inr (Some res, s') \<and> serves tbl db up ks T' s' \<and> world s' = w2"
proof -
  obtain w1 where w: "mysql_query my cmd (world s) = (False, w1)" "mysql_use_result my w1 = (res, w2)"
    "up w2" "tbl w2 = T'" "db w2 = ks"
    using a s unfolding mysql_answers_def serves_def by blast
  have "MysqlHandler_command my cmd (mysql_h s, world s) = Inr (Some res, (mysql_h s)\<lparr>result := res\<rparr>, w2)"
    using s by (intro mysql_command_prompt [OF _ w(1,2)]) (simp add: serves_def)
  with s w(3-5) show ?thesis by (simp add: mysql_cmd_def serves_def)
qed

lemma mysql_select_serves:
  assumes sv: "servers cl my tbl db up" and s: "serves tbl db up ks T s" and t: "tag < 3" "0 \<le> b"
  obtains uids s' where "mysql_cmd my (GenSQL tag b) s = Inr (Some (Some (map (\<lambda>u. show_nat (unat u)) uids)), s')"
    "set uids = {u \<in> users T tag. b \<le> uint u \<and> uint u < b + 10240}" "serves tbl db up ks T s'"
proof -
  have "mysql_documented my tbl db up" "up (world s)" "tbl (world s) = T" using sv s by (simp_all add: servers_def serves_def)
  from mysql_select [OF this(1,2) t] obtain w2 uids where
    "mysql_answers my tbl db up (GenSQL tag b) (Some (map (\<lambda>u. show_nat (unat u)) uids)) T (world s) w2"
    "set uids = {u \<in> users T tag. b \<le> uint u \<and> uint u < b + 10240}"
    unfolding \<open>tbl (world s) = T\<close> by blast
  with mysql_cmd_serves [OF s this(1)] that show thesis by blast
qed

lemma mysql_update_serves:
  assumes sv: "servers cl my tbl db up" and s: "serves tbl db up ks T s" and t: "tag < 3"
  obtains s' where "mysql_cmd my (update_sql tag now) s = Inr (Some None, s')"
    "serves tbl db up ks (if last_update T tag = None then T else T\<lparr>last_update := (last_update T)(tag \<mapsto> now)\<rparr>) s'"
    "mysql_affected_rows my (world s') = (if last_update T tag \<in> {None, Some now} then 0 else 1)"
proof -
  have "mysql_documented my tbl db up" "up (world s)" "tbl (world s) = T" using sv s by (simp_all add: servers_def serves_def)
  from mysql_update [OF this(1,2) t, of now] obtain w2 where
    a: "mysql_answers my tbl db up (update_sql tag now) None (if last_update T tag = None then T
      else T\<lparr>last_update := (last_update T)(tag \<mapsto> now)\<rparr>) (world s) w2"
    "mysql_affected_rows my w2 = (if last_update T tag \<in> {None, Some now} then 0 else 1)"
    unfolding \<open>tbl (world s) = T\<close> by blast
  from mysql_cmd_serves [OF s a(1)] a(2) that show thesis by blast
qed

lemma mysql_insert_serves:
  assumes sv: "servers cl my tbl db up" and s: "serves tbl db up ks T s" and t: "tag < 3" "last_update T tag = None"
  obtains s' where "mysql_cmd my (insert_sql tag now) s = Inr (Some None, s')"
    "serves tbl db up ks (T\<lparr>last_update := (last_update T)(tag \<mapsto> now)\<rparr>) s'"
proof -
  have "mysql_documented my tbl db up" "up (world s)" "tbl (world s) = T" using sv s by (simp_all add: servers_def serves_def)
  with mysql_insert [OF this(1,2) t(1), of now] t(2) obtain w2 where
    "mysql_answers my tbl db up (insert_sql tag now) None (T\<lparr>last_update := (last_update T)(tag \<mapsto> now)\<rparr>) (world s) w2"
    by auto
  from mysql_cmd_serves [OF s this] that show thesis by blast
qed

lemma mysql_last_update_serves:
  assumes sv: "servers cl my tbl db up" and s: "serves tbl db up ks T s" and t: "tag < 3"
  obtains s' where "mysql_cmd my (last_update_sql tag) s =
      Inr (Some (Some (case last_update T tag of None \<Rightarrow> [] | Some t \<Rightarrow> [show_nat (unat t)])), s')"
    "serves tbl db up ks T s'"
proof -
  have "mysql_documented my tbl db up" "up (world s)" "tbl (world s) = T" using sv s by (simp_all add: servers_def serves_def)
  from mysql_last_update [OF this(1,2) t] obtain w2 where "mysql_answers my tbl db up (last_update_sql tag)
      (Some (case last_update T tag of None \<Rightarrow> [] | Some t \<Rightarrow> [show_nat (unat t)])) T (world s) w2"
    unfolding \<open>tbl (world s) = T\<close> by blast
  from mysql_cmd_serves [OF s this] that show thesis by blast
qed

section \<open>The pages\<close>

text \<open>After the pages below \<open>n\<close>, the temporary key holds \<open>n / 8\<close> bytes: the users below \<open>n\<close>.\<close>

definition copied :: "u64 set \<Rightarrow> nat \<Rightarrow> bytes \<Rightarrow> bool" where
  "copied U n b \<longleftrightarrow> 8 * length b = n \<and> (\<forall>v. bit_at b v \<longleftrightarrow> v < n \<and> word_of_nat v \<in> U)"

lemma length_empty_bitmap: "length empty_bitmap = 1280"
  by (simp only: empty_bitmap_def length_replicate) (simp add: COUNTS_PER_LOOP_def)

lemma bit_at_empty_bitmap: "\<not> bit_at empty_bitmap v"
  by (simp only: empty_bitmap_def bit_at_replicate not_False_eq_True)

lemma copied_0: "copied U 0 []"
  by (simp add: copied_def bit_at_def)

lemma setrange_end: "setrange (length b) v b = b @ v"
  by (simp add: setrange_def pad_def)

lemma copied_page:
  assumes c: "copied U (unat uid) b" and p: "length p = 1280"
    and bits: "\<forall>v. bit_at p v \<longleftrightarrow> (\<exists>u \<in> U. unat uid \<le> unat u \<and> unat u < unat uid + 10240 \<and> unat u - unat uid = v)"
    and room: "unat uid + 10240 < 2 ^ 64"
  shows "copied U (unat uid + 10240) (b @ p)"
proof -
  have len: "8 * length b = unat uid" using c by (simp add: copied_def)
  have w: "unat (word_of_nat v :: u64) = v" if "v < unat uid + 10240" for v
    using that room by (simp add: unat_of_nat take_bit_nat_eq_self)
  have "bit_at (b @ p) v \<longleftrightarrow> v < unat uid + 10240 \<and> word_of_nat v \<in> U" for v
  proof (cases "v < unat uid")
    case True
    with c show ?thesis by (simp add: bit_at_append len copied_def)
  next
    case False
    have "bit_at p (v - unat uid) \<longleftrightarrow> v < unat uid + 10240 \<and> word_of_nat v \<in> U"
    proof
      assume "bit_at p (v - unat uid)"
      then obtain u where "u \<in> U" "unat uid \<le> unat u" "unat u < unat uid + 10240" "unat u - unat uid = v - unat uid"
        using bits by blast
      moreover from this False have "unat u = v" by simp
      moreover from this have "word_of_nat v = u" by auto
      ultimately show "v < unat uid + 10240 \<and> word_of_nat v \<in> U" by simp
    next
      assume "v < unat uid + 10240 \<and> word_of_nat v \<in> U"
      then show "bit_at p (v - unat uid)"
        using False w [of v] by (intro bits [rule_format, THEN iffD2] bexI [of _ "word_of_nat v"]) simp_all
    qed
    moreover have "\<not> bit_at b v" using c False by (simp add: copied_def)
    ultimately show ?thesis using False by (simp add: bit_at_append len)
  qed
  then show ?thesis using len p by (simp add: copied_def)
qed

lemma uint_page:
  "uint (a :: u64) \<le> uint (u :: u64) \<and> uint u < uint a + 10240 \<longleftrightarrow> unat a \<le> unat u \<and> unat u < unat a + 10240"
proof -
  have "int (unat w) = uint w" for w :: u64 by simp
  from this [of a] this [of u] show ?thesis by linarith
qed

lemma copy_page_serves:
  assumes sv: "servers cl my tbl db up" and s: "serves tbl db up ks T s" and t: "tag < 3"
    and u: "uid \<le> END_UID" and c: "copied (users T tag) (unat uid) (content ks (genTempKey (USER_INFO_KEY ! tag)))"
  shows "\<exists>s' b. copy_page cl my tag uid s = Inr (True, s') \<and> copied (users T tag) (unat uid + 10240) b \<and>
    serves tbl db up (ks(genTempKey (USER_INFO_KEY ! tag) \<mapsto> b)) T s'"
proof -
  let ?key = "genTempKey (USER_INFO_KEY ! tag)"
  obtain uids s1 where s1: "mysql_cmd my (GenSQL tag (uint uid)) s = Inr (Some (Some (map (\<lambda>u. show_nat (unat u)) uids)), s1)"
    "set uids = {u \<in> users T tag. uint uid \<le> uint u \<and> uint u < uint uid + 10240}" "serves tbl db up ks T s1"
    by (rule mysql_select_serves [OF sv s t uint_ge_0])
  have rng: "set uids = {u \<in> users T tag. unat uid \<le> unat u \<and> unat u < unat uid + 10240}"
    unfolding s1(2) uint_page ..
  have "\<forall>u \<in> set uids. uid \<le> u \<and> unat u - unat uid < 8 * length empty_bitmap"
    unfolding rng length_empty_bitmap by (auto simp: word_le_nat_alt)
  then obtain p where p: "fill_bitmap uid (map (\<lambda>u. show_nat (unat u)) uids) empty_bitmap = Inr p"
    "length p = 1280" "\<forall>v. bit_at p v \<longleftrightarrow> (\<exists>u \<in> set uids. unat u - unat uid = v)"
    using fill_bitmap_ok [of uids uid empty_bitmap] unfolding length_empty_bitmap
    by (simp only: bit_at_empty_bitmap simp_thms) blast
  have ne: "p \<noteq> []" using p(2) by auto
  have e: "unat uid = 8 * length (content ks ?key)" using c by (simp add: copied_def)
  have len: "unat (uid div 8) = length (content ks ?key)" by (simp add: unat_div e)
  obtain s2 where s2: "redis_cmd cl (''SETRANGE '' @ ?key @ '' '' @ show_nat (unat (uid div 8)) @ '' %b'') (Some p) s1 =
      Inr (Some (redis_answer (SETRANGE ?key (unat (uid div 8)) p) ks), s2)"
    "serves tbl db up (ks(?key \<mapsto> content ks ?key @ p)) T s2"
    using redis_cmd_serves [OF sv s1(3), of "SETRANGE ?key (unat (uid div 8)) p"] tag_keys [OF t] ne
    by (auto simp: len setrange_end)
  have "unat uid \<le> 100000000" using u by (simp add: END_UID_def word_le_nat_alt)
  then have "copied (users T tag) (unat uid + 10240) (content ks ?key @ p)"
    using p(3) by (intro copied_page [OF c p(2)]) (auto simp: rng)
  moreover have "copy_page cl my tag uid s = Inr (True, redis_free s2)"
    using s1(1) p(1) s2(1) by (simp add: copy_page_def)
  ultimately show ?thesis using s2(2) by fastforce
qed

text \<open>The last page begins at 99993600; the pages end at 100003840.\<close>

lemma page_bounds:
  assumes "n mod 10240 = (0 :: nat)"
  shows "100000000 < n \<Longrightarrow> n \<le> 100003840 \<Longrightarrow> n = 100003840" and "n \<le> 100000000 \<Longrightarrow> n + 10240 \<le> 100003840"
proof -
  obtain m where m: "n = 10240 * m" using assms by (auto simp: mod_eq_0_iff_dvd elim: dvdE)
  show "n = 100003840" if "100000000 < n" "n \<le> 100003840"
  proof -
    have "9765 < m" "m \<le> 9766" using that m by simp_all
    then have "m = 9766" by simp
    with m show ?thesis by simp
  qed
  show "n + 10240 \<le> 100003840" if "n \<le> 100000000"
  proof -
    have "m < 9766" using that m by simp
    with m show ?thesis by simp
  qed
qed

lemma copy_pages_serves:
  assumes sv: "servers cl my tbl db up" and t: "tag < 3"
  shows "serves tbl db up ks T s \<Longrightarrow> unat uid mod 10240 = 0 \<Longrightarrow> unat uid \<le> 100003840 \<Longrightarrow>
    copied (users T tag) (unat uid) (content ks (genTempKey (USER_INFO_KEY ! tag))) \<Longrightarrow>
    \<exists>s' b. copy_pages cl my tag uid s = Inr (True, s') \<and> copied (users T tag) 100003840 b \<and>
      serves tbl db up (if uid \<le> END_UID then ks(genTempKey (USER_INFO_KEY ! tag) \<mapsto> b) else ks) T s'"
proof (induction "100020000 - unat uid" arbitrary: uid ks s rule: less_induct)
  case less
  let ?key = "genTempKey (USER_INFO_KEY ! tag)"
  show ?case
  proof (cases "uid \<le> END_UID")
    case False
    then have "100000000 < unat uid" by (simp add: END_UID_def word_le_nat_alt)
    then have "unat uid = 100003840" using less.prems(3) by (rule page_bounds(1) [OF less.prems(2)])
    with False less.prems show ?thesis by (auto simp: copy_pages.simps [of cl my tag uid])
  next
    case True
    obtain s1 b where s1: "copy_page cl my tag uid s = Inr (True, s1)" "copied (users T tag) (unat uid + 10240) b"
      "serves tbl db up (ks(?key \<mapsto> b)) T s1"
      using copy_page_serves [OF sv less.prems(1) t True less.prems(4)] by blast
    have le: "unat uid \<le> 100000000" using True by (simp add: END_UID_def word_le_nat_alt)
    have last: "unat uid + 10240 \<le> 100003840" using le by (rule page_bounds(2) [OF less.prems(2)])
    note n = next_uid_unat [OF True]
    have less': "100020000 - unat (next_uid uid) < 100020000 - unat uid" using n le by simp
    have h: "serves tbl db up (ks(?key \<mapsto> b)) T (mysql_free s1)" "unat (next_uid uid) mod 10240 = 0"
      "unat (next_uid uid) \<le> 100003840" "copied (users T tag) (unat (next_uid uid)) (content (ks(?key \<mapsto> b)) ?key)"
      using s1(2,3) less.prems(2) last by (simp_all add: n content_def)
    obtain s' b' where s': "copy_pages cl my tag (next_uid uid) (mysql_free s1) = Inr (True, s')"
      "copied (users T tag) 100003840 b'"
      "serves tbl db up (if next_uid uid \<le> END_UID then (ks(?key \<mapsto> b))(?key \<mapsto> b') else ks(?key \<mapsto> b)) T s'"
      using less.hyps [OF less' h] by blast
    show ?thesis
    proof (cases "next_uid uid \<le> END_UID")
      case more: True
      with s' s1(1) True show ?thesis by (auto simp: copy_pages.simps [of cl my tag uid])
    next
      case no_more: False
      then have "100000000 < unat uid + 10240" using n by (simp add: END_UID_def word_le_nat_alt)
      then have "unat uid + 10240 = 100003840" using last less.prems(2) by (intro page_bounds(1)) simp_all
      with s' s1 True no_more show ?thesis by (auto simp: copy_pages.simps [of cl my tag uid])
    qed
  qed
qed

section \<open>The decision\<close>

text \<open>Less than 100 million differing bits are always accepted.\<close>

lemma diff_small:
  assumes "unat x < 100000000"
  shows "diff_percentage x < 100"
proof -
  let ?r = "of_nat (unat x) :: rat"
  have "?r \<le> of_nat 99999999" using assms by (intro of_nat_mono) simp
  then have x: "?r \<le> 99999999" by simp
  have r: "fl64 9999999900 = 9999999900" "fl64 (100 - 1 / 1048576) = 100 - 1 / 1048576" by code_simp+
  have "dmul ?r 100 \<le> fl64 9999999900"
    unfolding dmul_def by (rule b64.fl_mono) (use x in simp)
  then have d: "dmul ?r 100 \<le> 9999999900" unfolding r .
  have "unat END_UID = 100000000" by (simp add: END_UID_def)
  then have e: "(of_nat (unat END_UID) :: rat) = 100000000" by (simp only: of_nat_numeral)
  have "dmul ?r 100 / 100000000 \<le> 9999999900 / 100000000" using d by (rule divide_right_mono) simp
  then have "dmul ?r 100 / of_nat (unat END_UID) \<le> 100 - 1 / 1048576" unfolding e by simp
  then have "ddiv (dmul ?r 100) (of_nat (unat END_UID)) \<le> fl64 (100 - 1 / 1048576)"
    unfolding ddiv_def by (rule b64.fl_mono)
  then show ?thesis unfolding r(2) diff_percentage_def by simp
qed

definition accepts :: "nat \<Rightarrow> keyspace \<Rightarrow> bool" where
  "accepts tag ks \<longleftrightarrow> ks (genReleaseKey (USER_INFO_KEY ! tag)) = None \<or>
     diff_percentage (word_of_nat (bitcount (bitop (XOR) (content ks (genReleaseKey (USER_INFO_KEY ! tag)))
       (content ks (genTempKey (USER_INFO_KEY ! tag)))))) < 100"

definition without_diff :: "nat \<Rightarrow> keyspace \<Rightarrow> keyspace" where
  "without_diff tag ks = (if ks (genReleaseKey (USER_INFO_KEY ! tag)) = None then ks
     else ks(genDiffKey (USER_INFO_KEY ! tag) := None))"

lemma store_del [simp]: "(store k b db)(k := None) = db(k := None)"
  by (simp add: store_def)

lemma check_diff_serves:
  assumes sv: "servers cl my tbl db up" and s: "serves tbl db up ks T s" and t: "tag < 3"
  shows "\<exists>s'. check_diff cl tag s = Inr (Some (accepts tag ks), s') \<and> serves tbl db up (without_diff tag ks) T s'"
proof -
  let ?k = "USER_INFO_KEY ! tag"
  let ?R = "genReleaseKey ?k" and ?N = "genTempKey ?k" and ?D = "genDiffKey ?k"
  let ?x = "bitop (XOR) (content ks ?R) (content ks ?N)"
  note keys = tag_keys [OF t]
  obtain s1 where s1: "redis_cmd cl (''EXISTS '' @ ?R) None s = Inr (Some (int_reply (present ks ?R)), s1)"
    "serves tbl db up ks T s1"
    using redis_cmd_serves [OF sv s, of "EXISTS ?R"] keys by auto
  show ?thesis
  proof (cases "ks ?R = None")
    case True
    with s1 show ?thesis
      by (auto simp: check_diff_def Let_def present_def accepts_def without_diff_def)
  next
    case False
    have f1: "serves tbl db up ks T (redis_free s1)" using s1(2) by simp
    obtain s2 where s2: "redis_cmd cl (''BITOP XOR '' @ ?D @ '' '' @ ?R @ '' '' @ ?N) None (redis_free s1) =
        Inr (Some (int_reply (int (length ?x))), s2)" "serves tbl db up (store ?D ?x ks) T s2"
      using redis_cmd_serves [OF sv f1, of "BITOP_XOR ?D ?R ?N"] keys by auto
    have f2: "serves tbl db up (store ?D ?x ks) T (redis_free s2)" using s2(2) by simp
    obtain s3 where s3: "redis_cmd cl (''BITCOUNT '' @ ?D) None (redis_free s2) =
        Inr (Some (int_reply (int (bitcount ?x))), s3)" "serves tbl db up (store ?D ?x ks) T s3"
      using redis_cmd_serves [OF sv f2, of "BITCOUNT ?D"] keys by auto
    have f3: "serves tbl db up (store ?D ?x ks) T (redis_free s3)" using s3(2) by simp
    obtain s4 where s4: "redis_cmd cl (''DEL '' @ ?D) None (redis_free s3) =
        Inr (Some (int_reply (present (store ?D ?x ks) ?D)), s4)" "serves tbl db up (ks(?D := None)) T s4"
      using redis_cmd_serves [OF sv f3, of "DEL ?D"] keys by auto
    have "check_diff cl tag s = Inr (Some (accepts tag ks), redis_free s4)"
      using s1(1) s2(1) s3(1) s4(1) False
      by (auto simp: check_diff_def Let_def present_def accepts_def DIFF_PERCENTAGE_def)
    with s4(2) False show ?thesis by (auto simp: without_diff_def)
  qed
qed

section \<open>The release\<close>

definition released :: "nat \<Rightarrow> bytes \<Rightarrow> keyspace \<Rightarrow> keyspace" where
  "released tag b ks = ks(genTempKey (USER_INFO_KEY ! tag) := None,
     genReleaseKey (USER_INFO_KEY ! tag) \<mapsto> b, TMP_USER_INFO_KEY := None)"

definition noted :: "nat \<Rightarrow> u64 \<Rightarrow> tables \<Rightarrow> tables" where
  "noted tag now T = T\<lparr>last_update := (last_update T)(tag \<mapsto> now)\<rparr>"

lemma noted_simps [simp]:
  "users (noted tag now T) = users T" "last_update (noted tag now T) = (last_update T)(tag \<mapsto> now)"
  by (simp_all add: noted_def)

lemma release_update_serves:
  assumes sv: "servers cl my tbl db up" and s: "serves tbl db up ks T s" and t: "tag < 3"
    and b: "ks (genTempKey (USER_INFO_KEY ! tag)) = Some b" and now: "last_update T tag \<noteq> Some now"
  shows "\<exists>s'. release_update cl my tag now s = Inr (True, s') \<and>
    serves tbl db up (released tag b ks) (noted tag now T) s'"
proof -
  let ?k = "USER_INFO_KEY ! tag"
  let ?R = "genReleaseKey ?k" and ?N = "genTempKey ?k"
  let ?ks = "ks(?N := None, ?R \<mapsto> b)" and ?T = "noted tag now T"
  note keys = tag_keys [OF t]
  have drop: "\<exists>s'. redis_cmd cl (''DEL '' @ TMP_USER_INFO_KEY) None x = Inr (Some (int_reply (present ?ks TMP_USER_INFO_KEY)), s') \<and>
      serves tbl db up (released tag b ks) ?T (redis_free s')" if "serves tbl db up ?ks ?T x" for x
    using redis_cmd_serves [OF sv that, of "DEL TMP_USER_INFO_KEY"] keys by (auto simp: released_def)
  obtain s1 where s1: "redis_cmd cl (''RENAME '' @ ?N @ '' '' @ ?R) None s = Inr (Some ok_reply, s1)"
    "serves tbl db up ?ks T s1"
    using redis_cmd_serves [OF sv s, of "RENAME ?N ?R"] keys b by (auto simp: keys_differ)
  have f1: "serves tbl db up ?ks T (redis_free s1)" using s1(2) by simp
  obtain s2 where s2: "mysql_cmd my (update_sql tag now) (redis_free s1) = Inr (Some None, s2)"
    "serves tbl db up ?ks (if last_update T tag = None then T else ?T) s2"
    "mysql_affected_rows my (world s2) = (if last_update T tag \<in> {None, Some now} then 0 else 1)"
    unfolding noted_def by (rule mysql_update_serves [OF sv f1 t])
  show ?thesis
  proof (cases "last_update T tag = None")
    case True
    have f2: "serves tbl db up ?ks T (mysql_free s2)" using s2(2) True by simp
    obtain s3 where s3: "mysql_cmd my (insert_sql tag now) (mysql_free s2) = Inr (Some None, s3)" "serves tbl db up ?ks ?T s3"
      unfolding noted_def by (rule mysql_insert_serves [OF sv f2 t True])
    obtain s4 where "redis_cmd cl (''DEL '' @ TMP_USER_INFO_KEY) None (mysql_free s3) =
        Inr (Some (int_reply (present ?ks TMP_USER_INFO_KEY)), s4)" "serves tbl db up (released tag b ks) ?T (redis_free s4)"
      using drop [of "mysql_free s3"] s3(2) by auto
    with s1(1) s2(1,3) s3(1) True show ?thesis by (auto simp: release_update_def Let_def)
  next
    case False
    have one: "mysql_affected_rows my (world s2) = 1" "\<not> signed_take_bit 31 (1 :: int) \<le> 0"
      using s2(3) False now by (simp_all add: signed_take_bit_rec)
    obtain s4 where "redis_cmd cl (''DEL '' @ TMP_USER_INFO_KEY) None (mysql_free s2) =
        Inr (Some (int_reply (present ?ks TMP_USER_INFO_KEY)), s4)" "serves tbl db up (released tag b ks) ?T (redis_free s4)"
      using drop [of "mysql_free s2"] s2(2) False by auto
    with s1(1) s2(1) one show ?thesis by (auto simp: release_update_def Let_def)
  qed
qed

section \<open>The whole update\<close>

text \<open>The key space after an update that was accepted: the new bitmap, nothing temporary.\<close>

lemma update_serves:
  assumes sv: "servers cl my tbl db up" and s: "serves tbl db up ks T s" and t: "tag < 3"
    and now: "last_update T tag \<noteq> Some now"
  shows "\<exists>b. copied (users T tag) 100003840 b \<and>
    (let ks1 = ks(genTempKey (USER_INFO_KEY ! tag) \<mapsto> b) in
      if accepts tag ks1
      then \<exists>s'. UpdateUserInfo cl my tag now s = Inr (Released, s') \<and>
        serves tbl db up (released tag b (without_diff tag ks1)) (noted tag now T) s'
      else \<exists>s'. UpdateUserInfo cl my tag now s = Inr (Refused, s') \<and> serves tbl db up (without_diff tag ks1) T s')"
proof -
  let ?N = "genTempKey (USER_INFO_KEY ! tag)"
  obtain s1 where s1: "redis_cmd cl (''DEL '' @ ?N) None s = Inr (Some (int_reply (present ks ?N)), s1)"
    "serves tbl db up (ks(?N := None)) T s1"
    using redis_cmd_serves [OF sv s, of "DEL ?N"] tag_keys [OF t] by auto
  have f1: "serves tbl db up (ks(?N := None)) T (redis_free s1)" using s1(2) by simp
  have c: "copied (users T tag) (unat (0 :: u64)) (content (ks(?N := None)) ?N)"
    using copied_0 by (simp add: content_def)
  obtain s2 b where s2: "copy_pages cl my tag 0 (redis_free s1) = Inr (True, s2)" "copied (users T tag) 100003840 b"
    "serves tbl db up (ks(?N \<mapsto> b)) T s2"
    using copy_pages_serves [OF sv t f1 _ _ c] by auto
  obtain s3 where s3: "check_diff cl tag s2 = Inr (Some (accepts tag (ks(?N \<mapsto> b))), s3)"
    "serves tbl db up (without_diff tag (ks(?N \<mapsto> b))) T s3"
    using check_diff_serves [OF sv s2(3) t] by blast
  have "without_diff tag (ks(?N \<mapsto> b)) ?N = Some b" by (simp add: without_diff_def keys_differ)
  from release_update_serves [OF sv s3(2) t this now] obtain s4 where
    s4: "release_update cl my tag now s3 = Inr (True, s4)"
      "serves tbl db up (released tag b (without_diff tag (ks(?N \<mapsto> b)))) (noted tag now T) s4" by blast
  show ?thesis
    using s1(1) s2 s3 s4 by (intro exI [of _ b]) (auto simp: UpdateUserInfo_def Let_def)
qed

section \<open>The check before it\<close>

lemma check_skips:
  assumes sv: "servers cl my tbl db up" and s: "serves tbl db up ks T s" and t: "tag < 3"
    and last: "last_update T tag = Some prev" "localtime (sint prev) = Some l" "localtime now = Some n" "same_day l n"
  shows "\<exists>s'. CheckAndUpdateUserInfo cl my localtime tag now now' s = Inr (None, s') \<and> serves tbl db up ks T s'"
proof -
  obtain s1 where s1: "mysql_cmd my (last_update_sql tag) s = Inr (Some (Some [show_nat (unat prev)]), s1)" "serves tbl db up ks T s1"
    using mysql_last_update_serves [OF sv s t] last(1) by auto
  then show ?thesis
    using last(2-4) by (auto simp: CheckAndUpdateUserInfo_def Let_def parse_show_u64)
qed

lemma check_updates:
  assumes sv: "servers cl my tbl db up" and s: "serves tbl db up ks T s" and t: "tag < 3"
    and due: "\<And>prev. last_update T tag = Some prev \<Longrightarrow>
      \<exists>l n. localtime (sint prev) = Some l \<and> localtime now = Some n \<and> \<not> same_day l n"
  shows "\<exists>s1. CheckAndUpdateUserInfo cl my localtime tag now now' s =
      (case UpdateUserInfo cl my tag now' s1 of Inl e \<Rightarrow> Inl e | Inr (out, s') \<Rightarrow> Inr (Some out, s')) \<and>
    serves tbl db up ks T s1"
proof -
  obtain s1 where s1: "mysql_cmd my (last_update_sql tag) s =
      Inr (Some (Some (case last_update T tag of None \<Rightarrow> [] | Some t \<Rightarrow> [show_nat (unat t)])), s1)" "serves tbl db up ks T s1"
    by (rule mysql_last_update_serves [OF sv s t])
  have f: "serves tbl db up ks T (mysql_free s1)" using s1(2) by simp
  show ?thesis
  proof (cases "last_update T tag")
    case None
    with s1(1) f show ?thesis by (intro exI [of _ "mysql_free s1"]) (simp add: CheckAndUpdateUserInfo_def Let_def)
  next
    case (Some prev)
    with due [OF Some] s1(1) f show ?thesis
      by (intro exI [of _ "mysql_free s1"]) (auto simp: CheckAndUpdateUserInfo_def Let_def parse_show_u64)
  qed
qed

end
