(* ===== verification/ServersDemo.thy ===== *)
theory ServersDemo
  imports UpdateRun RedisDemo
begin

text \<open>
  A world with a small Redis and a small MySQL that meet \<open>servers\<close>: the key space, the users of
  each table, and the last statement, which \<^verbatim>\<open>mysql_use_result\<close> answers.
\<close>

record demo_db =
  demo_users :: "nat \<Rightarrow> u64 list"
  demo_times :: "nat \<Rightarrow> u64 option"
  last_statement :: string
  affected :: int

type_synonym demo_world = "keyspace \<times> demo_db"

definition world_redis :: "demo_world hiredis" where
  "world_redis = \<lparr>redisConnect = (\<lambda>w. (GoodContext, w)),
     redisCommand = (\<lambda>line val (ks, rest). case read_cmd line val of
        None \<Rightarrow> (Some no_such_key, ks, rest) | Some c \<Rightarrow> (Some (redis_answer c ks), redis_effect c ks, rest))\<rparr>"

definition table_tag :: "string \<Rightarrow> nat" where
  "table_tag name = (if name = tableNames ! 0 then 0 else if name = tableNames ! 1 then 1 else 2)"

definition number :: "string \<Rightarrow> nat" where
  "number s = nat_of_digits (takeWhile is_digit s)"

text \<open>The rows of a \<^verbatim>\<open>SELECT\<close>; \<open>None\<close> for a statement that writes.\<close>

definition select_rows :: "string \<Rightarrow> demo_db \<Rightarrow> string list option" where
  "select_rows cmd d =
     (case words cmd of
        sel # col # from # table # wher # col' # ge # b # rest \<Rightarrow>
          if sel = ''SELECT'' then
            (if col = ''uid'' then
               Some (map (\<lambda>u. show_nat (unat u)) (filter (\<lambda>u. int (number b) \<le> uint u \<and>
                 uint u < int (number b) + 10240) (demo_users d (table_tag table))))
             else Some (case demo_times d (number b) of None \<Rightarrow> [] | Some t \<Rightarrow> [show_nat (unat t)]))
          else None
      | _ \<Rightarrow> None)"

text \<open>What a statement does to the database, and the rows it affects.\<close>

definition execute :: "string \<Rightarrow> demo_db \<Rightarrow> demo_db" where
  "execute cmd d =
     (let ws = words cmd; d' = d\<lparr>last_statement := cmd, affected := 0\<rparr> in
      if hd ws = ''UPDATE'' then
        (let t = number (ws ! 9); now = word_of_nat (number (ws ! 5)) in
         if demo_times d t = None then d'
         else d'\<lparr>demo_times := (demo_times d)(t \<mapsto> now), affected := if demo_times d t = Some now then 0 else 1\<rparr>)
      else if hd ws = ''INSERT'' then
        (let vals = drop 7 (ws ! 4) in
         d'\<lparr>demo_times := (demo_times d)(number vals \<mapsto> word_of_nat (number (tl (dropWhile is_digit vals)))), affected := 1\<rparr>)
      else d')"

definition world_mysql :: "demo_world mysql" where
  "world_mysql = \<lparr>mysql_init = (\<lambda>w. (True, w)), mysql_real_connect = (\<lambda>w. (True, w)),
     mysql_query = (\<lambda>cmd (ks, d). (False, ks, execute cmd d)),
     mysql_use_result = (\<lambda>(ks, d). (select_rows (last_statement d) d, ks, d)),
     mysql_affected_rows = (\<lambda>(ks, d). affected d)\<rparr>"

definition world_tables :: "demo_world \<Rightarrow> tables" where
  "world_tables w = \<lparr>users = (\<lambda>t. set (demo_users (snd w) t)), last_update = demo_times (snd w)\<rparr>"

lemma no_space_tables: "tag < 3 \<Longrightarrow> no_space (tableNames ! tag)"
  by (drule tag_cases) (auto simp: tableNames_def no_space_def)

lemma table_tag_name: "tag < 3 \<Longrightarrow> table_tag (tableNames ! tag) = tag"
  by (drule tag_cases) (auto simp: tableNames_def table_tag_def)

section \<open>The words of the statements\<close>

lemma number_show:
  assumes "s = [] \<or> \<not> is_digit (hd s)"
  shows "number (show_nat n @ s) = n" and "dropWhile is_digit (show_nat n @ s) = s"
proof -
  have e: "takeWhile is_digit s = []" "dropWhile is_digit s = s" using assms by (cases s; simp)+
  have "\<And>c. c \<in> set (show_nat n) \<Longrightarrow> is_digit c" using show_nat_digits [of n] by blast
  then have "takeWhile is_digit (show_nat n @ s) = show_nat n @ takeWhile is_digit s"
    "dropWhile is_digit (show_nat n @ s) = dropWhile is_digit s"
    by (simp_all add: takeWhile_append2 dropWhile_append2)
  then show "number (show_nat n @ s) = n" "dropWhile is_digit (show_nat n @ s) = s"
    using e by (simp_all add: number_def)
qed

lemmas words_eval = words.simps words_append [OF no_space_show, simplified] words_single

lemma words_GenSQL:
  assumes "tag < 3" and "0 \<le> b"
  shows "\<exists>rest. words (GenSQL tag b) = ''SELECT'' # ''uid'' # ''FROM'' # tableNames ! tag # ''WHERE'' # ''uid''
    # ''>='' # show_nat (nat b) # rest"
  using assms(2) words_append [OF no_space_tables [OF assms(1)], simplified]
  by (simp add: GenSQL_def show_int_def words_eval)

lemma words_statements:
  "words (last_update_sql tag) = [''SELECT'', ''last_update_time'', ''FROM'', ''user_info_update_record'', ''WHERE'',
    ''type'', ''='', show_nat tag]"
  "words (update_sql tag now) = [''UPDATE'', ''user_info_update_record'', ''SET'', ''last_update_time'', ''='',
    show_nat (unat now), ''WHERE'', ''type'', ''='', show_nat tag]"
  by (simp_all add: last_update_sql_def update_sql_def words_eval)

lemma words_insert:
  "words (insert_sql tag now) = [''INSERT'', ''INTO'', ''user_info_update_record(type,'', ''last_update_time)'',
    ''VALUES('' @ show_nat tag @ '','' @ show_nat (unat now) @ '')'']"
proof -
  have "no_space (show_nat tag @ '','' @ show_nat (unat now) @ '')'')"
    using no_space_show [of tag] no_space_show [of "unat now"] by (simp add: no_space_def)
  from words_single [OF this] show ?thesis by (simp add: insert_sql_def words.simps)
qed

section \<open>The servers meet their documentation\<close>

lemma world_redis_documented: "redis_documented world_redis fst (\<lambda>_. True)"
  unfolding redis_documented_def
proof (intro allI impI)
  fix w :: demo_world and c assume "set (redis_keys c) \<subseteq> set all_keys"
  then have "list_all no_space (redis_keys c)" using all_keys_no_space by (auto simp: list_all_iff)
  from read_redis_line [OF this]
  show "\<exists>w'. redisCommand world_redis (redis_line c) (redis_value c) w = (Some (redis_answer c (fst w)), w') \<and>
      True \<and> fst w' = redis_effect c (fst w)"
    by (cases w) (simp add: world_redis_def)
qed

lemma world_mysql_documented: "mysql_documented world_mysql world_tables fst (\<lambda>_. True)"
  unfolding mysql_documented_def
proof (intro conjI allI impI)
  fix w :: demo_world and tag :: nat assume t: "tag < 3"
  obtain ks d where w: "w = (ks, d)" by (cases w)
  have n: "number (show_nat k) = k" for k using number_show(1) [of "[]" k] by simp
  show "\<exists>w2 uids. mysql_answers world_mysql world_tables fst (\<lambda>_. True) (GenSQL tag b)
      (Some (map (\<lambda>u. show_nat (unat u)) uids)) (world_tables w) w w2 \<and>
      set uids = {u \<in> users (world_tables w) tag. b \<le> uint u \<and> uint u < b + 10240}" if b: "0 \<le> b" for b
  proof -
    obtain rest where r: "words (GenSQL tag b) = ''SELECT'' # ''uid'' # ''FROM'' # tableNames ! tag # ''WHERE'' # ''uid''
      # ''>='' # show_nat (nat b) # rest" using words_GenSQL [OF t b] by blast
    let ?uids = "filter (\<lambda>u. b \<le> uint u \<and> uint u < b + 10240) (demo_users d tag)"
    let ?d = "d\<lparr>last_statement := GenSQL tag b, affected := 0\<rparr>"
    have "select_rows (GenSQL tag b) ?d = Some (map (\<lambda>u. show_nat (unat u)) ?uids)"
      using b by (simp add: select_rows_def r table_tag_name [OF t] n)
    moreover have "execute (GenSQL tag b) d = ?d" by (simp add: execute_def r)
    ultimately show ?thesis
      by (intro exI [of _ "(ks, ?d)"] exI [of _ ?uids])
        (auto simp: mysql_answers_def w world_mysql_def world_tables_def)
  qed
  show "\<exists>w2. mysql_answers world_mysql world_tables fst (\<lambda>_. True) (last_update_sql tag)
      (Some (case last_update (world_tables w) tag of None \<Rightarrow> [] | Some t \<Rightarrow> [show_nat (unat t)])) (world_tables w) w w2"
    by (intro exI [of _ "(ks, d\<lparr>last_statement := last_update_sql tag, affected := 0\<rparr>)"])
      (simp add: mysql_answers_def w world_mysql_def world_tables_def execute_def select_rows_def words_statements n
        split: option.split)
  show "\<exists>w2. mysql_answers world_mysql world_tables fst (\<lambda>_. True) (update_sql tag now) None
      (if last_update (world_tables w) tag = None then world_tables w
       else (world_tables w)\<lparr>last_update := (last_update (world_tables w))(tag \<mapsto> now)\<rparr>) w w2 \<and>
      mysql_affected_rows world_mysql w2 = (if last_update (world_tables w) tag \<in> {None, Some now} then 0 else 1)" for now
    by (intro exI [of _ "(ks, execute (update_sql tag now) d)"])
      (auto simp: mysql_answers_def w world_mysql_def world_tables_def execute_def select_rows_def words_statements n Let_def)
  show "\<exists>w2. mysql_answers world_mysql world_tables fst (\<lambda>_. True) (insert_sql tag now) None
      ((world_tables w)\<lparr>last_update := (last_update (world_tables w))(tag \<mapsto> now)\<rparr>) w w2" for now
  proof -
    have "\<not> is_digit (CHR '')'')" "\<not> is_digit (CHR '','')" by (simp_all add: is_digit_def)
    then have "number (show_nat tag @ '','' @ show_nat (unat now) @ '')'') = tag"
      "number (tl (dropWhile is_digit (show_nat tag @ '','' @ show_nat (unat now) @ '')''))) = unat now"
      by (simp_all add: number_show)
    then show ?thesis
      by (intro exI [of _ "(ks, execute (insert_sql tag now) d)"])
        (simp add: mysql_answers_def w world_mysql_def world_tables_def execute_def select_rows_def words_insert Let_def)
  qed
qed

lemma world_frames: "redis_frames world_redis world_tables"
  by (auto simp: redis_frames_def world_redis_def world_tables_def split: option.splits)

lemma world_servers: "servers world_redis world_mysql world_tables fst (\<lambda>_. True)"
  by (simp add: servers_def world_redis_documented world_mysql_documented world_frames)

definition world_updater :: "keyspace \<Rightarrow> (nat \<Rightarrow> u64 list) \<Rightarrow> (nat \<Rightarrow> u64 option) \<Rightarrow> demo_world updater" where
  "world_updater ks us ts = \<lparr>redis_h = connected, mysql_h = \<lparr>connection_set = True, result = None\<rparr>,
     world = (ks, \<lparr>demo_users = us, demo_times = ts, last_statement = [], affected = 0\<rparr>)\<rparr>"

lemma world_serves:
  "serves world_tables fst (\<lambda>_. True) ks \<lparr>users = (\<lambda>t. set (us t)), last_update = ts\<rparr> (world_updater ks us ts)"
  by (simp add: serves_def world_updater_def connected_def world_tables_def)

end
