(* ===== verification/UpdateProps.thy ===== *)
theory UpdateProps
  imports ServersDemo ProduceFacts
begin

text \<open>
  What an update of the user bitmaps achieves: which bitmap is released and when none is, that a
  table is updated once a day, and that the users a producer reads out of the released bitmaps
  are those of the tables.
\<close>

unbundle bit_operations_syntax

section \<open>The bits that differ\<close>

lemma bitcount_positions: "bitcount b = length (filter (bit_at b) [0..<8 * length b])"
proof (induction b)
  case Nil
  then show ?case by (simp add: bitcount_def)
next
  case (Cons w b)
  have e: "length (filter (\<lambda>j. bit w (7 - j)) [0..<8]) = length (filter (bit w) [0..<8])"
  proof -
    have "map ((-) 7) [0..<8] = rev [0..<8 :: nat]" by (simp add: upt_rec)
    then have "length (filter (bit w) (map ((-) 7) [0..<8])) = length (filter (bit w) [0..<8])"
      by (simp only: rev_filter [symmetric] length_rev)
    then show ?thesis by (simp add: filter_map comp_def)
  qed
  show ?case
    unfolding ones_Cons using Cons.IH e by (simp add: bitcount_def)
qed

lemma bitcount_card: "bitcount b = card {u. bit_at b u}"
proof -
  have "{u. bit_at b u} = set (filter (bit_at b) [0..<8 * length b])"
    by (auto simp: bit_at_def div_less_iff_less_mult mult.commute)
  also have "card \<dots> = length (filter (bit_at b) [0..<8 * length b])"
    by (rule distinct_card) simp
  finally show ?thesis by (simp add: bitcount_positions)
qed

lemma refused_differ:
  assumes "\<not> accepts tag ks"
  shows "\<exists>old. ks (genReleaseKey (USER_INFO_KEY ! tag)) = Some old \<and>
    100000000 \<le> card {u. bit_at old u \<noteq> bit_at (content ks (genTempKey (USER_INFO_KEY ! tag))) u}"
proof -
  let ?x = "\<lambda>old. bitop (XOR) old (content ks (genTempKey (USER_INFO_KEY ! tag)))"
  obtain old where old: "ks (genReleaseKey (USER_INFO_KEY ! tag)) = Some old"
    and ge: "\<not> diff_percentage (word_of_nat (bitcount (?x old))) < 100"
    using assms by (auto simp: accepts_def content_def)
  have "\<not> unat (word_of_nat (bitcount (?x old)) :: u32) < 100000000"
    using diff_small ge by blast
  moreover have "unat (word_of_nat (bitcount (?x old)) :: u32) \<le> bitcount (?x old)"
    by (simp add: unat_of_nat take_bit_nat_less_eq_self)
  ultimately have "100000000 \<le> bitcount (?x old)" by linarith
  with old show ?thesis by (simp add: bitcount_card bit_at_bitop_xor)
qed

section \<open>What is released\<close>

definition demo_tables :: "nat \<Rightarrow> u64 list" where
  "demo_tables = (\<lambda>t. [5, 3] @ [word_of_nat t])"

abbreviation demo_updater :: "demo_world updater" where
  "demo_updater \<equiv> world_updater (\<lambda>_. None) demo_tables (\<lambda>_. None)"

text \<open>
  C31: an update with both servers reachable ends with the new bitmap released or refused, never
  on the way. The released bitmap has the length of all pages and its bits are the users of the
  table; nothing temporary is left, and the key the producers build is dropped. A bitmap is refused
  only when it differs from the released one in 100 million bits or more, and then the released
  one stays. The bitmaps of the other tables are never touched.
\<close>

theorem update_outcome:
  assumes "servers cl my tbl db up" and "serves tbl db up ks T s" and "tag < 3"
    and "last_update T tag \<noteq> Some now"
  shows "\<exists>out s' ks' T'. UpdateUserInfo cl my tag now s = Inr (out, s') \<and> serves tbl db up ks' T' s' \<and>
    (\<forall>t < 3. t \<noteq> tag \<longrightarrow> ks' (genReleaseKey (USER_INFO_KEY ! t)) = ks (genReleaseKey (USER_INFO_KEY ! t))) \<and>
    (out = Released \<and> T' = noted tag now T \<and>
       ks' TMP_USER_INFO_KEY = None \<and> ks' (genTempKey (USER_INFO_KEY ! tag)) = None \<and>
       (\<exists>b. ks' (genReleaseKey (USER_INFO_KEY ! tag)) = Some b \<and> copied (users T tag) 100003840 b) \<or>
     out = Refused \<and> T' = T \<and>
       (\<exists>old new. ks (genReleaseKey (USER_INFO_KEY ! tag)) = Some old \<and> ks' (genReleaseKey (USER_INFO_KEY ! tag)) = Some old \<and>
         copied (users T tag) 100003840 new \<and> 100000000 \<le> card {u. bit_at old u \<noteq> bit_at new u}))"
proof -
  let ?N = "genTempKey (USER_INFO_KEY ! tag)"
  obtain b where b: "copied (users T tag) 100003840 b" and
    up: "let ks1 = ks(?N \<mapsto> b) in if accepts tag ks1
      then \<exists>s'. UpdateUserInfo cl my tag now s = Inr (Released, s') \<and>
        serves tbl db up (released tag b (without_diff tag ks1)) (noted tag now T) s'
      else \<exists>s'. UpdateUserInfo cl my tag now s = Inr (Refused, s') \<and> serves tbl db up (without_diff tag ks1) T s'"
    using update_serves [OF assms] by blast
  show ?thesis
  proof (cases "accepts tag (ks(?N \<mapsto> b))")
    case True
    then obtain s' where s': "UpdateUserInfo cl my tag now s = Inr (Released, s')"
      "serves tbl db up (released tag b (without_diff tag (ks(?N \<mapsto> b)))) (noted tag now T) s'"
      using up by (auto simp: Let_def)
    have "\<forall>t < 3. t \<noteq> tag \<longrightarrow> released tag b (without_diff tag (ks(?N \<mapsto> b))) (genReleaseKey (USER_INFO_KEY ! t)) =
        ks (genReleaseKey (USER_INFO_KEY ! t))"
      using assms(3) by (auto simp: released_def without_diff_def keys_differ release_keys_differ)
    with s' b show ?thesis
      by (intro exI [of _ Released] exI [of _ s'] exI [of _ "released tag b (without_diff tag (ks(?N \<mapsto> b)))"]
          exI [of _ "noted tag now T"] conjI) (auto simp: released_def keys_differ)
  next
    case False
    then obtain s' where s': "UpdateUserInfo cl my tag now s = Inr (Refused, s')"
      "serves tbl db up (without_diff tag (ks(?N \<mapsto> b))) T s'"
      using up by (auto simp: Let_def)
    obtain old where old: "ks (genReleaseKey (USER_INFO_KEY ! tag)) = Some old" "100000000 \<le> card {u. bit_at old u \<noteq> bit_at b u}"
      using refused_differ [OF False] by (auto simp: keys_differ content_def)
    have "\<forall>t < 3. without_diff tag (ks(?N \<mapsto> b)) (genReleaseKey (USER_INFO_KEY ! t)) = ks (genReleaseKey (USER_INFO_KEY ! t))"
      by (auto simp: without_diff_def keys_differ)
    with s' old b assms(3) show ?thesis
      by (intro exI [of _ Refused] exI [of _ s'] exI [of _ "without_diff tag (ks(?N \<mapsto> b))"] exI [of _ T] conjI) auto
  qed
qed

theorem update_outcome_witness:
  "\<exists>s' b. UpdateUserInfo world_redis world_mysql 0 1700000000 demo_updater = Inr (Released, s') \<and>
    fst (world s') (genReleaseKey (USER_INFO_KEY ! 0)) = Some b \<and> bit_at b 3 \<and> \<not> bit_at b 4"
proof -
  have *: "(word_of_nat 3 :: u64) = 3" "(word_of_nat 4 :: u64) = 4" by simp_all
  show ?thesis
    using update_outcome [OF world_servers world_serves [of "\<lambda>_. None" demo_tables "\<lambda>_. None"], of 0 1700000000]
    by (auto simp: serves_def copied_def demo_tables_def *)
qed

section \<open>Once a day\<close>

text \<open>
  C33: a table that is due is updated at once, and its first bitmap is released; after a release, a
  check on the same day of the month and in the same month changes neither Redis nor MySQL.
\<close>

theorem once_a_day:
  assumes "servers cl my tbl db up" and "serves tbl db up ks T s" and "tag < 3"
    and "\<forall>prev. last_update T tag = Some prev \<longrightarrow>
      (\<exists>l n. localtime (sint prev) = Some l \<and> localtime now = Some n \<and> \<not> same_day l n)"
    and "last_update T tag \<noteq> Some now'"
    and "localtime (sint now') = Some l" and "localtime later = Some n" and "same_day l n"
  shows "\<exists>out s1 ks1 T1. CheckAndUpdateUserInfo cl my localtime tag now now' s = Inr (Some out, s1) \<and>
    serves tbl db up ks1 T1 s1 \<and> out \<noteq> Stopped \<and>
    (ks (genReleaseKey (USER_INFO_KEY ! tag)) = None \<longrightarrow> out = Released) \<and>
    (out = Released \<longrightarrow> (\<exists>s2. CheckAndUpdateUserInfo cl my localtime tag later now'' s1 = Inr (None, s2) \<and>
       serves tbl db up ks1 T1 s2))"
proof -
  obtain s0 where s0: "CheckAndUpdateUserInfo cl my localtime tag now now' s =
      (case UpdateUserInfo cl my tag now' s0 of Inl e \<Rightarrow> Inl e | Inr (out, s') \<Rightarrow> Inr (Some out, s'))"
    "serves tbl db up ks T s0"
    using check_updates [OF assms(1-3)] assms(4) by blast
  obtain b where up: "let ks1 = ks(genTempKey (USER_INFO_KEY ! tag) \<mapsto> b) in if accepts tag ks1
      then \<exists>s'. UpdateUserInfo cl my tag now' s0 = Inr (Released, s') \<and>
        serves tbl db up (released tag b (without_diff tag ks1)) (noted tag now' T) s'
      else \<exists>s'. UpdateUserInfo cl my tag now' s0 = Inr (Refused, s') \<and> serves tbl db up (without_diff tag ks1) T s'"
    using update_serves [OF assms(1) s0(2) assms(3,5)] by blast
  show ?thesis
  proof (cases "accepts tag (ks(genTempKey (USER_INFO_KEY ! tag) \<mapsto> b))")
    case True
    then obtain s1 ks1 where s1: "UpdateUserInfo cl my tag now' s0 = Inr (Released, s1)"
      "serves tbl db up ks1 (noted tag now' T) s1" using up by (auto simp: Let_def)
    have "last_update (noted tag now' T) tag = Some now'" by simp
    from check_skips [OF assms(1) s1(2) assms(3) this assms(6-8)] s0(1) s1 show ?thesis by fastforce
  next
    case False
    then obtain s1 ks1 where s1: "UpdateUserInfo cl my tag now' s0 = Inr (Refused, s1)" "serves tbl db up ks1 T s1"
      using up by (auto simp: Let_def)
    have "ks (genReleaseKey (USER_INFO_KEY ! tag)) \<noteq> None" using False by (auto simp: accepts_def keys_differ)
    with s1 s0(1) show ?thesis by auto
  qed
qed

definition demo_clock :: "int \<Rightarrow> tm option" where
  "demo_clock t = Some \<lparr>tm_mday = t div 86400, tm_mon = 0\<rparr>"

theorem once_a_day_witness:
  "\<exists>s1 s2. CheckAndUpdateUserInfo world_redis world_mysql demo_clock 0 200 300 demo_updater = Inr (Some Released, s1) \<and>
    CheckAndUpdateUserInfo world_redis world_mysql demo_clock 0 2100 2200 s1 = Inr (None, s2)"
  using once_a_day [OF world_servers world_serves [of "\<lambda>_. None" demo_tables "\<lambda>_. None"], of 0 demo_clock 200 300
      "\<lparr>tm_mday = 0, tm_mon = 0\<rparr>" 2100 "\<lparr>tm_mday = 0, tm_mon = 0\<rparr>" 2200]
  by (auto simp: demo_clock_def same_day_def)

section \<open>From the rows of a page to user ids\<close>

lemma decode_sorted:
  assumes "unat start + 8 * length b \<le> 2 ^ 64"
  shows "sorted_wrt (<) (decode_uids start 0 b)"
    and "set (decode_uids start 0 b) = {u. start \<le> u \<and> bit_at b (unat u - unat start)}"
proof -
  let ?at = "\<lambda>v. start + word_of_nat v"
  have at: "unat (?at v) = unat start + v" if "v < 8 * length b" for v
  proof -
    have "unat (word_of_nat v :: u64) = v" using that assms by (simp add: unat_of_nat take_bit_nat_eq_self)
    with that assms show ?thesis by (subst unat_add_no_wrap64) simp_all
  qed
  have d: "decode_uids start 0 b = map ?at (filter (bit_at b) [0..<8 * length b])"
    by (simp add: decode_uids_eq)
  have "sorted_wrt (\<lambda>u v. ?at u < ?at v) (filter (bit_at b) [0..<8 * length b])"
    by (rule sorted_wrt_mono_rel [of _ "(<)"])
      (auto simp: at word_less_nat_alt intro: sorted_wrt_filter)
  then show "sorted_wrt (<) (decode_uids start 0 b)" by (simp add: d sorted_wrt_map)
  have bits: "bit_at b v \<Longrightarrow> v < 8 * length b" for v by (simp add: bit_at_def div_less_iff_less_mult mult.commute)
  show "set (decode_uids start 0 b) = {u. start \<le> u \<and> bit_at b (unat u - unat start)}"
  proof (intro equalityI subsetI)
    fix u assume "u \<in> set (decode_uids start 0 b)"
    then obtain v where "u = ?at v" "bit_at b v" "v < 8 * length b" by (auto simp: d)
    then show "u \<in> {u. start \<le> u \<and> bit_at b (unat u - unat start)}" by (simp add: at word_le_nat_alt)
  next
    fix u assume u: "u \<in> {u. start \<le> u \<and> bit_at b (unat u - unat start)}"
    then have v: "unat u - unat start < 8 * length b" using bits by simp
    have "unat (?at (unat u - unat start)) = unat u" using u at [OF v] by (simp add: word_le_nat_alt)
    then have "u = ?at (unat u - unat start)" by (simp only: word_unat_eq_iff)
    with u v show "u \<in> set (decode_uids start 0 b)" by (auto simp: d)
  qed
qed

text \<open>
  C34: writing the rows of a page into a bitmap and reading the bitmap as the producer does gives the
  users of the rows back, in ascending order and each once, in whatever order and however often
  the rows name them.
\<close>

theorem bitmap_roundtrip:
  assumes "start \<le> END_UID" and "\<forall>u \<in> set uids. start \<le> u \<and> unat u < unat start + unat COUNTS_PER_LOOP"
  shows "\<exists>b. fill_bitmap start (map (\<lambda>u. show_nat (unat u)) uids) empty_bitmap = Inr b \<and>
    decode_uids start 0 b = sorted_list_of_set (set uids)"
proof -
  have "\<forall>u \<in> set uids. start \<le> u \<and> unat u - unat start < 8 * length empty_bitmap"
    using assms(2) unfolding length_empty_bitmap by (auto simp: COUNTS_PER_LOOP_def)
  then obtain b where b: "fill_bitmap start (map (\<lambda>u. show_nat (unat u)) uids) empty_bitmap = Inr b"
    "length b = 1280" "\<forall>v. bit_at b v \<longleftrightarrow> (\<exists>u \<in> set uids. unat u - unat start = v)"
    using fill_bitmap_ok [of uids start empty_bitmap] unfolding length_empty_bitmap
    by (simp only: bit_at_empty_bitmap simp_thms) blast
  have "unat start \<le> 100000000" using assms(1) by (simp add: END_UID_def word_le_nat_alt)
  then have room: "unat start + 8 * length b \<le> 2 ^ 64" using b(2) by simp
  have inj: "unat u - unat start = unat v - unat start \<longleftrightarrow> u = v" if "start \<le> u" "start \<le> v" for u v :: u64
    using that unfolding word_le_nat_alt word_unat_eq_iff by linarith
  have "set (decode_uids start 0 b) = set uids"
    unfolding decode_sorted(2) [OF room] using b(3) inj assms(2) by blast
  with decode_sorted(1) [OF room] have "decode_uids start 0 b = sorted_list_of_set (set uids)"
    by (metis strict_sorted_iff sorted_list_of_set.idem_if_sorted_distinct)
  with b(1) show ?thesis by blast
qed

theorem bitmap_roundtrip_witness:
  "\<exists>b. fill_bitmap 10240 [''10250'', ''10241'', ''10250''] empty_bitmap = Inr b \<and> decode_uids 10240 0 b = [10241, 10250]"
proof -
  have "digit_char 0 = CHR ''0''" "digit_char 1 = CHR ''1''" "digit_char 2 = CHR ''2''" "digit_char 4 = CHR ''4''"
    "digit_char 5 = CHR ''5''" by code_simp+
  then have "show_nat 10250 = ''10250''" "show_nat 10241 = ''10241''" by (simp_all add: show_nat.simps)
  moreover have "sorted_list_of_set (set [10250, 10241, 10250 :: u64]) = [10241, 10250]" by code_simp
  moreover obtain b where "fill_bitmap 10240 (map (\<lambda>u :: u64. show_nat (unat u)) [10250, 10241, 10250]) empty_bitmap = Inr b"
    "decode_uids 10240 0 b = sorted_list_of_set (set [10250, 10241, 10250])"
    using bitmap_roundtrip [of 10240 "[10250, 10241, 10250]"]
    by (auto simp: END_UID_def COUNTS_PER_LOOP_def word_le_nat_alt simp del: fill_bitmap.simps)
  ultimately show ?thesis by (simp del: fill_bitmap.simps set_simps list.set)
qed

section \<open>From the tables to the users who get a message\<close>

lemma released_keys:
  "t < 3 \<Longrightarrow> tag < 3 \<Longrightarrow> released tag b (ks(genTempKey (USER_INFO_KEY ! tag) \<mapsto> b)) (genReleaseKey (USER_INFO_KEY ! t)) =
    (if t = tag then Some b else ks (genReleaseKey (USER_INFO_KEY ! t)))"
  "released tag b ks' TMP_USER_INFO_KEY = None"
  by (simp_all add: released_def keys_differ release_keys_differ)

lemma all_tags: "(\<forall>t < 3. P t) \<longleftrightarrow> P 0 \<and> P 1 \<and> P (2 :: nat)"
  by (auto dest!: tag_cases)

text \<open>The first update of a table.\<close>

lemma check_fresh:
  assumes sv: "servers cl my tbl db up" and s: "serves tbl db up ks T s" and t: "tag < 3"
    and n: "last_update T tag = None" "ks (genReleaseKey (USER_INFO_KEY ! tag)) = None"
  shows "\<exists>b s'. CheckAndUpdateUserInfo cl my localtime tag now now' s = Inr (Some Released, s') \<and>
    copied (users T tag) 100003840 b \<and>
    serves tbl db up (released tag b (ks(genTempKey (USER_INFO_KEY ! tag) \<mapsto> b))) (noted tag now' T) s'"
proof -
  let ?ks = "\<lambda>b. ks(genTempKey (USER_INFO_KEY ! tag) \<mapsto> b)"
  obtain s0 where s0: "CheckAndUpdateUserInfo cl my localtime tag now now' s =
      (case UpdateUserInfo cl my tag now' s0 of Inl e \<Rightarrow> Inl e | Inr (out, s') \<Rightarrow> Inr (Some out, s'))"
    "serves tbl db up ks T s0"
    using check_updates [OF sv s t] n(1) by (metis option.distinct(1))
  have "accepts tag (?ks b)" "without_diff tag (?ks b) = ?ks b" for b
    using n(2) by (simp_all add: accepts_def without_diff_def keys_differ)
  then obtain b s' where "UpdateUserInfo cl my tag now' s0 = Inr (Released, s')" "copied (users T tag) 100003840 b"
    "serves tbl db up (released tag b (?ks b)) (noted tag now' T) s'"
    using update_serves [OF sv s0(2) t, of now'] n(1) by (auto simp: Let_def)
  with s0(1) show ?thesis by auto
qed

lemma first_round:
  assumes sv: "servers cl my tbl db up" and s: "serves tbl db up ks T s"
    and n: "\<forall>t < 3. ks (genReleaseKey (USER_INFO_KEY ! t)) = None \<and> last_update T t = None"
  shows "\<exists>s' ks' T'. update_round cl my localtime clock s = Inr s' \<and> serves tbl db up ks' T' s' \<and>
    ks' TMP_USER_INFO_KEY = None \<and>
    (\<forall>t < 3. \<exists>b. ks' (genReleaseKey (USER_INFO_KEY ! t)) = Some b \<and> copied (users T t) 100003840 b)"
proof -
  have less: "(0 :: nat) < 3" "(1 :: nat) < 3" "(2 :: nat) < 3" by simp_all
  note first = n [unfolded all_tags]
  let ?ks = "\<lambda>tag b ks. released tag b (ks(genTempKey (USER_INFO_KEY ! tag) \<mapsto> b))"
  obtain b0 s1 where s1: "CheckAndUpdateUserInfo cl my localtime 0 (fst (clock 0)) (snd (clock 0)) s = Inr (Some Released, s1)"
    "copied (users T 0) 100003840 b0" "serves tbl db up (?ks 0 b0 ks) (noted 0 (snd (clock 0)) T) s1"
    using check_fresh [OF sv s less(1), of localtime "fst (clock 0)" "snd (clock 0)"] first by auto
  obtain b1 s2 where s2: "CheckAndUpdateUserInfo cl my localtime 1 (fst (clock 1)) (snd (clock 1)) s1 = Inr (Some Released, s2)"
    "copied (users T 1) 100003840 b1"
    "serves tbl db up (?ks 1 b1 (?ks 0 b0 ks)) (noted 1 (snd (clock 1)) (noted 0 (snd (clock 0)) T)) s2"
    using check_fresh [OF sv s1(3) less(2), of localtime "fst (clock 1)" "snd (clock 1)"] first less
    by (auto simp: released_keys)
  obtain b2 s3 where s3: "CheckAndUpdateUserInfo cl my localtime 2 (fst (clock 2)) (snd (clock 2)) s2 = Inr (Some Released, s3)"
    "copied (users T 2) 100003840 b2" "serves tbl db up (?ks 2 b2 (?ks 1 b1 (?ks 0 b0 ks)))
      (noted 2 (snd (clock 2)) (noted 1 (snd (clock 1)) (noted 0 (snd (clock 0)) T))) s3"
    using check_fresh [OF sv s2(3) less(3), of localtime "fst (clock 2)" "snd (clock 2)"] first less
    by (auto simp: released_keys)
  let ?K = "?ks 2 b2 (?ks 1 b1 (?ks 0 b0 ks))"
  have "\<forall>t < 3. \<exists>b. ?K (genReleaseKey (USER_INFO_KEY ! t)) = Some b \<and> copied (users T t) 100003840 b"
    unfolding all_tags using s1(2) s2(2) s3(2) less by (simp add: released_keys)
  moreover have "?K TMP_USER_INFO_KEY = None" by (simp add: released_keys)
  moreover have "update_round cl my localtime clock s = Inr s3"
    using s1(1) s2(1) s3(1) by (simp add: update_round_def)
  ultimately show ?thesis using s3(3) by blast
qed

text \<open>
  After the first round of \<^verbatim>\<open>main\<close>, which updates the three tables, a producer sends a message to
  exactly the users who are in all three tables, those of the range it is asked for, up to the
  end of its last byte.
\<close>

theorem update_then_push:
  assumes "servers cl my tbl db up" and "serves tbl db up ks T s"
    and "\<forall>t < 3. ks (genReleaseKey (USER_INFO_KEY ! t)) = None \<and> last_update T t = None"
    and "context_set h" and "startUid \<le> endUid" and "unat startUid mod 8 = 0" and "unat endUid < 100003840"
  shows "\<exists>s' uids r. update_round cl my localtime clock s = Inr s' \<and>
    uids_to_send cl startUid endUid (h, world s') = Inr (Some uids, r) \<and>
    map unat uids = filter (\<lambda>u. \<forall>t < 3. word_of_nat u \<in> users T t) [unat startUid..<8 * (unat endUid div 8) + 8]"
proof -
  obtain s' K T' where s': "update_round cl my localtime clock s = Inr s'" "serves tbl db up K T' s'" "K TMP_USER_INFO_KEY = None"
    and bits: "\<forall>t < 3. \<exists>b. K (genReleaseKey (USER_INFO_KEY ! t)) = Some b \<and> copied (users T t) 100003840 b"
    using first_round [OF assms(1-3), of localtime clock] by blast
  have cont: "\<forall>t < 3. copied (users T t) 100003840 (content K (genReleaseKey (USER_INFO_KEY ! t)))"
    using bits by (auto simp: content_def split: option.split)
  have len: "8 * length (push_set K) = 100003840"
    using cont by (simp add: push_set_def copied_def all_tags)
  then have inside: "unat endUid div 8 < length (push_set K)" using assms(7) by (simp add: div_less_iff_less_mult mult.commute)
  have doc: "redis_documented cl db up" using assms(1) by (simp add: servers_def)
  have holds: "holds db up K (h, world s')" using s'(2) assms(4) by (simp add: holds_def serves_def)
  have room: "unat endUid < 2 ^ 64 - 16" using assms(7) by simp
  obtain uids r where u: "uids_to_send cl startUid endUid (h, world s') = Inr (Some uids, r)"
    "map unat uids = filter (\<lambda>u. \<forall>t < 3. bit_at (content K (genReleaseKey (USER_INFO_KEY ! t))) u)
      [unat startUid..<8 * (unat endUid div 8) + 8]"
    using uids_to_send_push_set [OF doc holds s'(3) assms(5) inside room assms(6)] by blast
  have "8 * (unat endUid div 8) + 8 \<le> 100003840" using inside len by linarith
  then have "filter (\<lambda>u. \<forall>t < 3. bit_at (content K (genReleaseKey (USER_INFO_KEY ! t))) u)
      [unat startUid..<8 * (unat endUid div 8) + 8] =
    filter (\<lambda>u. \<forall>t < 3. word_of_nat u \<in> users T t) [unat startUid..<8 * (unat endUid div 8) + 8]"
    using cont by (intro filter_cong [OF refl]) (auto simp: copied_def)
  with s'(1) u show ?thesis by auto
qed

theorem update_then_push_witness:
  "\<exists>s' uids r. update_round world_redis world_mysql demo_clock (\<lambda>_. (0, 200)) demo_updater = Inr s' \<and>
    uids_to_send world_redis 0 7 (connected, world s') = Inr (Some uids, r) \<and> map unat uids = [3, 5]"
proof -
  have "filter (\<lambda>u. \<forall>t < 3. word_of_nat u \<in> set (demo_tables t)) [0..<8] = [3, 5]"
    by (simp add: demo_tables_def upt_rec all_tags)
  moreover have "context_set connected" by (simp add: connected_def)
  ultimately show ?thesis
    using update_then_push [OF world_servers world_serves [of "\<lambda>_. None" demo_tables "\<lambda>_. None"], of connected 0 7]
    by simp
qed

end
