(* ===== verification/DaemonClient.thy ===== *)
theory DaemonClient
  imports DaemonSystem
begin

text \<open>
  \<^verbatim>\<open>common/daemonClient/daemonClient.cpp\<close>: how a server process keeps itself registered with the
  daemon. Two threads share the client: \<^verbatim>\<open>ClientStatusHandler\<close>, which every two seconds sends a
  registration or a heart beat, and \<^verbatim>\<open>AsyncCompleteRpc\<close>, which handles the answers. The model
  composes them with the whole daemon and with the calls on their way.
\<close>

section \<open>The client\<close>

datatype client_status = NO_SERVER | REGISTERED

text \<open>\<^verbatim>\<open>serverId_\<close> has no initial value: \<open>None\<close>.\<close>

record daemon_client =
  serverId :: "u64 option"
  listeningPort :: string
  clientProcName :: string
  clientGroupId :: u32
  clientStatus :: client_status

definition DaemonClientImpl :: "string \<Rightarrow> string \<Rightarrow> u32 \<Rightarrow> daemon_client" where
  "DaemonClientImpl port proc grp = \<lparr>serverId = None, listeningPort = port, clientProcName = proc,
     clientGroupId = grp, clientStatus = NO_SERVER\<rparr>"

definition SetClientStatus :: "client_status \<Rightarrow> daemon_client \<Rightarrow> daemon_client" where
  "SetClientStatus st c = c\<lparr>clientStatus := st\<rparr>"

text \<open>\<^verbatim>\<open>SetServerId\<close> writes the id outside of the lock and the status inside: two steps.\<close>

definition SetServerId_write :: "u64 \<Rightarrow> daemon_client \<Rightarrow> daemon_client" where
  "SetServerId_write i c = c\<lparr>serverId := Some i\<rparr>"

definition SetServerId_publish :: "daemon_client \<Rightarrow> daemon_client" where
  "SetServerId_publish c = c\<lparr>clientStatus := REGISTERED\<rparr>"

text \<open>\<open>Inr None\<close>: the function returns \<^verbatim>\<open>false\<close>.\<close>

definition GetServerId :: "daemon_client \<Rightarrow> u64 option ub_or" where
  "GetServerId c =
     (if clientStatus c = REGISTERED then (case serverId c of None \<Rightarrow> Inl Indeterminate | Some i \<Rightarrow> Inr (Some i))
      else Inr None)"

section \<open>Its calls\<close>

text \<open>A call is on its way to the daemon, or its answer is on its way back, or it failed.\<close>

datatype client_call =
    RegisterSent register_request
  | RegisterAnswered register_reply
  | BeatSent u64
  | BeatAnswered err_code
  | CallFailed

text \<open>The call \<^verbatim>\<open>ClientStatusHandler\<close> makes for the status it has read.\<close>

definition status_call :: "client_status \<Rightarrow> daemon_client \<Rightarrow> client_call ub_or" where
  "status_call status c =
     (if status = NO_SERVER then
        Inr (RegisterSent \<lparr>listening_port = listeningPort c, proc_name = clientProcName c, group_id = clientGroupId c\<rparr>)
      else (case serverId c of None \<Rightarrow> Inl Indeterminate | Some i \<Rightarrow> Inr (BeatSent i)))"

text \<open>
  The two \<^verbatim>\<open>OnGetResponse\<close> methods; \<open>True\<close>: \<^verbatim>\<open>SetServerId\<close> still has to write the status. For a
  call whose status is not good nothing is done but a log line.
\<close>

definition register_OnGetResponse :: "register_reply \<Rightarrow> daemon_client \<Rightarrow> bool \<times> daemon_client" where
  "register_OnGetResponse reply c =
     (if reg_err reply = SUCCESS then (True, SetServerId_write (reg_server_id reply) c)
      else (False, SetClientStatus NO_SERVER c))"

definition heart_beat_OnGetResponse :: "err_code \<Rightarrow> daemon_client \<Rightarrow> daemon_client" where
  "heart_beat_OnGetResponse err c = (if err = ERR then SetClientStatus NO_SERVER c else c)"

text \<open>One turn of the loop of \<^verbatim>\<open>AsyncCompleteRpc\<close>; \<open>None\<close>: the call is not complete.\<close>

definition complete_call :: "client_call \<Rightarrow> daemon_client \<Rightarrow> (bool \<times> daemon_client) option" where
  "complete_call call c =
     (case call of
        RegisterAnswered reply \<Rightarrow> Some (register_OnGetResponse reply c)
      | BeatAnswered err \<Rightarrow> Some (False, heart_beat_OnGetResponse err c)
      | CallFailed \<Rightarrow> Some (False, c)
      | _ \<Rightarrow> None)"

section \<open>The client with the daemon\<close>

text \<open>
  \<open>woken\<close>: the status \<^verbatim>\<open>ClientStatusHandler\<close> has read and not yet acted on. \<open>publishing\<close>: the other
  thread is inside \<^verbatim>\<open>SetServerId\<close>, between its two writes.
\<close>

record client_sys =
  the_client :: daemon_client
  woken :: "client_status option"
  publishing :: bool
  calls :: "client_call multiset"
  the_daemon :: system

definition client_init :: "daemon_client \<Rightarrow> client_sys" where
  "client_init c = \<lparr>the_client = c, woken = None, publishing = False, calls = {#}, the_daemon = system_init\<rparr>"

text \<open>
  What happens: the handler thread wakes and sends, a call arrives at the daemon and is answered
  (with this id), a call is lost, an answer is handled, the status is written, the daemon does
  anything else, or it is started anew.
\<close>

datatype client_event =
    Wake
  | SendCall
  | ArriveRegister register_request register_env u64
  | ArriveBeat int u64
  | Lose client_call
  | Answer client_call
  | Publish
  | Daemon event
  | Restart

definition move_call :: "client_call \<Rightarrow> client_call \<Rightarrow> client_sys \<Rightarrow> client_sys" where
  "move_call a b s = s\<lparr>calls := add_mset b (calls s - {#a#})\<rparr>"

definition in_tables :: "(daemon \<Rightarrow> daemon) \<Rightarrow> client_sys \<Rightarrow> client_sys" where
  "in_tables f s = s\<lparr>the_daemon := (the_daemon s)\<lparr>tables := f (tables (the_daemon s))\<rparr>\<rparr>"

inductive client_step :: "(string \<Rightarrow> string list) \<Rightarrow> client_event \<Rightarrow> client_sys \<Rightarrow> client_sys \<Rightarrow> bool" for sp where
  wake: "woken s = None \<Longrightarrow> client_step sp Wake s (s\<lparr>woken := Some (clientStatus (the_client s))\<rparr>)"
| send_call: "woken s = Some st \<Longrightarrow> status_call st (the_client s) = Inr call \<Longrightarrow>
    client_step sp SendCall s (s\<lparr>woken := None, calls := add_mset call (calls s)\<rparr>)"
| arrive_register: "RegisterSent req \<in># calls s \<Longrightarrow>
    ClientRegister sp req env (tables (the_daemon s)) = (reply, d) \<Longrightarrow> reg_server_id reply = i \<Longrightarrow>
    client_step sp (ArriveRegister req env i) s
      (in_tables (\<lambda>_. d) (move_call (RegisterSent req) (RegisterAnswered reply) s))"
| arrive_beat: "BeatSent i \<in># calls s \<Longrightarrow> HeartBeat now i (tables (the_daemon s)) = (err, d) \<Longrightarrow>
    client_step sp (ArriveBeat now i) s (in_tables (\<lambda>_. d) (move_call (BeatSent i) (BeatAnswered err) s))"
| lose: "call \<in># calls s \<Longrightarrow> client_step sp (Lose call) s (move_call call CallFailed s)"
| answer: "call \<in># calls s \<Longrightarrow> \<not> publishing s \<Longrightarrow> complete_call call (the_client s) = Some (p, c) \<Longrightarrow>
    client_step sp (Answer call) s (s\<lparr>the_client := c, publishing := p, calls := calls s - {#call#}\<rparr>)"
| publish: "publishing s \<Longrightarrow>
    client_step sp Publish s (s\<lparr>the_client := SetServerId_publish (the_client s), publishing := False\<rparr>)"
| daemon: "sys_step sp ev (the_daemon s) t \<Longrightarrow> client_step sp (Daemon ev) s (s\<lparr>the_daemon := t\<rparr>)"
| restart: "client_step sp Restart s (s\<lparr>the_daemon := system_init\<rparr>)"

inductive_cases client_step_elims:
  "client_step sp Wake s s'" "client_step sp SendCall s s'" "client_step sp (ArriveRegister req env i) s s'"
  "client_step sp (ArriveBeat now i) s s'" "client_step sp (Lose call) s s'" "client_step sp (Answer call) s s'"
  "client_step sp Publish s s'" "client_step sp (Daemon ev) s s'" "client_step sp Restart s s'"

definition exec_client :: "(string \<Rightarrow> string list) \<Rightarrow> client_event \<Rightarrow> client_sys \<Rightarrow> client_sys option" where
  "exec_client sp ev s =
     (case ev of
        Wake \<Rightarrow> if woken s = None then Some (s\<lparr>woken := Some (clientStatus (the_client s))\<rparr>) else None
      | SendCall \<Rightarrow>
          (case woken s of None \<Rightarrow> None
           | Some st \<Rightarrow> (case status_call st (the_client s) of Inl _ \<Rightarrow> None
               | Inr call \<Rightarrow> Some (s\<lparr>woken := None, calls := add_mset call (calls s)\<rparr>)))
      | ArriveRegister req env i \<Rightarrow>
          (let (reply, d) = ClientRegister sp req env (tables (the_daemon s)) in
           if RegisterSent req \<in># calls s \<and> reg_server_id reply = i then
             Some (in_tables (\<lambda>_. d) (move_call (RegisterSent req) (RegisterAnswered reply) s))
           else None)
      | ArriveBeat now i \<Rightarrow>
          (let (err, d) = HeartBeat now i (tables (the_daemon s)) in
           if BeatSent i \<in># calls s then
             Some (in_tables (\<lambda>_. d) (move_call (BeatSent i) (BeatAnswered err) s))
           else None)
      | Lose call \<Rightarrow> if call \<in># calls s then Some (move_call call CallFailed s) else None
      | Answer call \<Rightarrow>
          if call \<in># calls s \<and> \<not> publishing s then
            (case complete_call call (the_client s) of None \<Rightarrow> None
             | Some (p, c) \<Rightarrow> Some (s\<lparr>the_client := c, publishing := p, calls := calls s - {#call#}\<rparr>))
          else None
      | Publish \<Rightarrow>
          if publishing s then Some (s\<lparr>the_client := SetServerId_publish (the_client s), publishing := False\<rparr>) else None
      | Daemon dev \<Rightarrow> map_option (\<lambda>t. s\<lparr>the_daemon := t\<rparr>) (exec_event sp dev (the_daemon s))
      | Restart \<Rightarrow> Some (s\<lparr>the_daemon := system_init\<rparr>))"

lemma exec_client_iff: "exec_client sp ev s = Some s' \<longleftrightarrow> client_step sp ev s s'"
  by (cases ev) (auto simp: exec_client_def exec_event_iff Let_def intro: client_step.intros elim!: client_step_elims
      split: if_splits sum.splits option.splits prod.splits)

interpretation client_exec: executable_steps "client_step sp" "exec_client sp" for sp
  by unfold_locales (rule exec_client_iff)

end
