(* ===== verification/ClientProps.thy ===== *)
theory ClientProps
  imports DaemonClient Scenarios
begin

text \<open>
  What a client of the daemon can rely on: which id it uses, that it can always get registered,
  and where its registration goes wrong.
\<close>

abbreviation client_run ::
  "(string \<Rightarrow> string list) \<Rightarrow> string \<Rightarrow> string \<Rightarrow> u32 \<Rightarrow> client_event list \<Rightarrow> client_sys \<Rightarrow> bool" where
  "client_run sp port proc grp \<equiv> traces (client_step sp) (client_init (DaemonClientImpl port proc grp)) any_event"

section \<open>The id in use\<close>

definition granted :: "client_event list \<Rightarrow> u64 set" where
  "granted evs = {i. \<exists>req env. ArriveRegister req env i \<in> set evs}"

lemma granted_simps [simp]:
  "granted [] = {}" "granted (evs @ [ev]) = granted evs \<union> granted [ev]"
  "i \<in> granted [ArriveRegister req env i]"
  by (auto simp: granted_def)

fun call_ok :: "u64 set \<Rightarrow> daemon_client \<Rightarrow> client_call \<Rightarrow> bool" where
  "call_ok G c (RegisterSent req) \<longleftrightarrow>
     req = \<lparr>listening_port = listeningPort c, proc_name = clientProcName c, group_id = clientGroupId c\<rparr>"
| "call_ok G c (RegisterAnswered reply) \<longleftrightarrow> reg_err reply = SUCCESS \<and> reg_server_id reply \<in> G"
| "call_ok G c (BeatSent i) \<longleftrightarrow> i \<in> G"
| "call_ok G c _ \<longleftrightarrow> True"

definition client_ok :: "daemon_client \<Rightarrow> client_event list \<Rightarrow> client_sys \<Rightarrow> bool" where
  "client_ok c0 evs s \<longleftrightarrow>
     (\<forall>call \<in># calls s. call_ok (granted evs) c0 call) \<and>
     (\<forall>i. serverId (the_client s) = Some i \<longrightarrow> i \<in> granted evs) \<and>
     (publishing s \<or> clientStatus (the_client s) = REGISTERED \<or> woken s = Some REGISTERED \<longrightarrow>
        serverId (the_client s) \<noteq> None) \<and>
     listeningPort (the_client s) = listeningPort c0 \<and> clientProcName (the_client s) = clientProcName c0 \<and>
     clientGroupId (the_client s) = clientGroupId c0 \<and> daemon_ok (tables (the_daemon s))"

lemma call_ok_mono: "call_ok G c call \<Longrightarrow> G \<subseteq> G' \<Longrightarrow> call_ok G' c call"
  by (cases call) auto

lemma client_ok_step:
  assumes I: "client_ok c0 evs s" and st: "client_step sp ev s s'"
  shows "client_ok c0 (evs @ [ev]) s'"
  using st
proof cases
  note I' = I [unfolded client_ok_def]
  have old: "call_ok (granted evs \<union> granted [ev]) c0 call" if "call \<in># calls s - N" for call N
    using that I' by (blast dest: in_diffD intro: call_ok_mono)
  note old0 = old [of _ "{#}", unfolded diff_empty]
  have dok: "daemon_ok (tables (the_daemon s))" using I' by blast
  {
    case wake
    then show ?thesis using I' old0 by (auto simp: client_ok_def)
  next
    case (send_call st call)
    then have "call_ok (granted evs) c0 call"
      using I' by (auto simp: status_call_def split: if_splits option.splits)
    then have "call_ok (granted evs \<union> granted [ev]) c0 call" by (rule call_ok_mono) blast
    with send_call I' old0 show ?thesis by (auto simp: client_ok_def)
  next
    case (arrive_register req env reply d i)
    have "reg_err reply = SUCCESS"
      using arrive_register ClientRegister_reply [of sp req env "tables (the_daemon s)"] by simp
    then have "call_ok (granted evs \<union> granted [ev]) c0 (RegisterAnswered reply)" using arrive_register by simp
    moreover have "daemon_ok d" using ClientRegister_ok [OF dok, of sp req env] arrive_register by simp
    ultimately show ?thesis using arrive_register(2-4) I' old
      unfolding client_ok_def arrive_register(2) in_tables_def move_call_def by auto
  next
    case (arrive_beat i now err d)
    moreover from this have "daemon_ok d" using HeartBeat_ok [OF dok, of now i] by simp
    ultimately show ?thesis using I' old unfolding client_ok_def arrive_beat(2) in_tables_def move_call_def by auto
  next
    case (lose call)
    with I' old show ?thesis unfolding client_ok_def lose(2) move_call_def by auto
  next
    case (answer call p c)
    have call: "call_ok (granted evs) c0 call" using I' answer by auto
    have "serverId c = serverId (the_client s) \<or> (\<exists>i \<in> granted evs. serverId c = Some i)"
      "p \<longrightarrow> serverId c \<noteq> None" "clientStatus c = REGISTERED \<longrightarrow> clientStatus (the_client s) = REGISTERED"
      "listeningPort c = listeningPort (the_client s)" "clientProcName c = clientProcName (the_client s)"
      "clientGroupId c = clientGroupId (the_client s)"
      using answer call
      by (auto simp: complete_call_def register_OnGetResponse_def heart_beat_OnGetResponse_def SetServerId_write_def
          SetClientStatus_def split: client_call.splits if_splits)
    with answer(2,4) I' old show ?thesis unfolding client_ok_def answer(2) by auto
  next
    case publish
    with I' old0 show ?thesis unfolding client_ok_def publish(2) SetServerId_publish_def by auto
  next
    case (daemon ev' t)
    with I' old0 step_daemon_ok [OF daemon(3) dok] show ?thesis unfolding client_ok_def daemon(2) by auto
  next
    case restart
    with I' old0 show ?thesis unfolding client_ok_def restart(2) by (auto simp: system_init_def daemon_ok_init)
  }
qed

interpretation client_inv: trace_invariant "client_step sp" "client_init (DaemonClientImpl port proc grp)" any_event
    "client_ok (DaemonClientImpl port proc grp)" for sp port proc grp
proof unfold_locales
  show "client_ok (DaemonClientImpl port proc grp) [] (client_init (DaemonClientImpl port proc grp))"
    by (simp add: client_init_def client_ok_def DaemonClientImpl_def system_init_def daemon_ok_init)
qed (rule client_ok_step)

text \<open>
  C36: a client never reads an id it does not have: every heart beat on its way, the one the handler
  is about to send, and the id other parts of the process ask for are ids the daemon gave to
  this client.
\<close>

theorem client_uses_granted_ids:
  assumes "client_run sp port proc grp evs s"
  shows "(\<forall>i. BeatSent i \<in># calls s \<longrightarrow> i \<in> granted evs) \<and>
    (\<forall>st. woken s = Some st \<longrightarrow> (\<exists>call. status_call st (the_client s) = Inr call)) \<and>
    (GetServerId (the_client s) = Inr None \<or> (\<exists>i \<in> granted evs. GetServerId (the_client s) = Inr (Some i)))"
proof -
  have I: "client_ok (DaemonClientImpl port proc grp) evs s" by (rule client_inv.inv_run [OF assms])
  have "\<exists>call. status_call st (the_client s) = Inr call" if "woken s = Some st" for st
    using I that by (cases st) (auto simp: client_ok_def status_call_def)
  then show ?thesis
    using I by (fastforce simp: client_ok_def GetServerId_def split: option.splits)
qed

section \<open>Getting registered\<close>

definition own_event :: "client_event \<Rightarrow> bool" where
  "own_event ev = (case ev of Lose _ \<Rightarrow> False | Daemon _ \<Rightarrow> False | Restart \<Rightarrow> False | _ \<Rightarrow> True)"

definition registered_with :: "client_sys \<Rightarrow> u64 \<Rightarrow> bool" where
  "registered_with s i \<longleftrightarrow> GetServerId (the_client s) = Inr (Some i) \<and> i \<in> dom (info_of (tables (the_daemon s)))"

text \<open>At most \<open>n\<close> own events take one state to another.\<close>

definition leads :: "(string \<Rightarrow> string list) \<Rightarrow> nat \<Rightarrow> client_sys \<Rightarrow> client_sys \<Rightarrow> bool" where
  "leads sp n s t \<longleftrightarrow> (\<exists>evs. list_all own_event evs \<and> length evs \<le> n \<and>
     exec_trace (exec_client sp) any_event evs s = Some t)"

lemma leads_refl: "leads sp n s s"
  unfolding leads_def by (rule exI [of _ "[]"]) simp

lemma leads_step: "own_event ev \<Longrightarrow> client_step sp ev s t \<Longrightarrow> leads sp n t u \<Longrightarrow> leads sp (Suc n) s u"
  unfolding leads_def exec_client_iff [symmetric]
  by (elim exE) (rule_tac x = "ev # evs" in exI, simp add: any_event_def)

lemma exec_trace_append:
  "exec_trace exec G (xs @ ys) s = (case exec_trace exec G xs s of None \<Rightarrow> None | Some t \<Rightarrow> exec_trace exec G ys t)"
  by (induction xs arbitrary: s) (auto split: option.splits)

lemma leads_trans:
  assumes "leads sp m s t" and "leads sp n t u"
  shows "leads sp (m + n) s u"
proof -
  obtain xs ys where "list_all own_event xs" "length xs \<le> m" "exec_trace (exec_client sp) any_event xs s = Some t"
    "list_all own_event ys" "length ys \<le> n" "exec_trace (exec_client sp) any_event ys t = Some u"
    using assms unfolding leads_def by blast
  then show ?thesis unfolding leads_def by (intro exI [of _ "xs @ ys"]) (simp add: exec_trace_append)
qed

lemma settle:
  assumes "client_ok c0 evs s"
  shows "\<exists>t. leads sp 2 s t \<and> woken t = None \<and> \<not> publishing t \<and> client_ok c0 evs t"
proof -
  have pub: "\<exists>t. leads sp (Suc 0) s t \<and> \<not> publishing t \<and> client_ok c0 evs t"
  proof (cases "publishing s")
    case True
    let ?t = "s\<lparr>the_client := SetServerId_publish (the_client s), publishing := False\<rparr>"
    have "leads sp (Suc 0) s ?t"
      by (rule leads_step [OF _ client_step.publish [OF True] leads_refl]) (simp add: own_event_def)
    moreover have "client_ok c0 evs ?t" using True assms by (auto simp: client_ok_def SetServerId_publish_def)
    ultimately show ?thesis by (intro exI [of _ ?t]) simp
  next
    case False
    with assms show ?thesis using leads_refl by (intro exI [of _ s]) (auto simp: leads_def intro: exI [of _ "[]"])
  qed
  then obtain t where t: "leads sp (Suc 0) s t" "\<not> publishing t" "client_ok c0 evs t" by blast
  have "\<exists>u. leads sp (Suc 0) t u \<and> woken u = None \<and> \<not> publishing u \<and> client_ok c0 evs u"
  proof (cases "woken t")
    case None
    with t show ?thesis by (intro exI [of _ t]) (auto simp: leads_def intro: exI [of _ "[]"])
  next
    case (Some st)
    obtain call where call: "status_call st (the_client t) = Inr call" "call_ok (granted evs) c0 call"
      using t(3) Some by (cases st) (auto simp: client_ok_def status_call_def)
    let ?u = "t\<lparr>woken := None, calls := add_mset call (calls t)\<rparr>"
    have "leads sp (Suc 0) t ?u"
      by (rule leads_step [OF _ client_step.send_call [OF Some call(1)] leads_refl]) (simp add: own_event_def)
    moreover have "client_ok c0 evs ?u" using t(3) call(2) by (auto simp: client_ok_def)
    ultimately show ?thesis using t(2) by (intro exI [of _ ?u]) simp
  qed
  then obtain u where u: "leads sp (Suc 0) t u" "woken u = None" "\<not> publishing u" "client_ok c0 evs u" by blast
  from leads_trans [OF t(1) u(1)] u show ?thesis by (auto simp: numeral_2_eq_2)
qed

lemma ClientRegister_knows:
  assumes "daemon_ok d"
  shows "register_id (env_random env) d \<in> dom (info_of (snd (ClientRegister sp req env d)))"
  using om_insert_dom [OF daemon_ok_tables(1) [OF assms]]
  by (simp add: ClientRegister_def Let_def om.dom_modify)

text \<open>A client without a server registers in five steps.\<close>

lemma register_now:
  assumes "woken s = None" and "\<not> publishing s" and "clientStatus (the_client s) = NO_SERVER"
    and dok: "daemon_ok (tables (the_daemon s))"
  shows "\<exists>t i. leads sp 5 s t \<and> registered_with t i"
proof -
  define env where "env = \<lparr>env_peer = [], env_random = 0, env_now = 0\<rparr>"
  define c where "c = the_client s"
  define req where "req = \<lparr>listening_port = listeningPort c, proc_name = clientProcName c, group_id = clientGroupId c\<rparr>"
  define s1 where "s1 = s\<lparr>woken := Some NO_SERVER\<rparr>"
  define s2 where "s2 = s1\<lparr>woken := None, calls := add_mset (RegisterSent req) (calls s1)\<rparr>"
  obtain reply d where r: "ClientRegister sp req env (tables (the_daemon s2)) = (reply, d)" by fastforce
  define i where "i = reg_server_id reply"
  define s3 where "s3 = in_tables (\<lambda>_. d) (move_call (RegisterSent req) (RegisterAnswered reply) s2)"
  define s4 where "s4 = s3\<lparr>the_client := SetServerId_write i c, publishing := True, calls := calls s3 - {#RegisterAnswered reply#}\<rparr>"
  define s5 where "s5 = s4\<lparr>the_client := SetServerId_publish (the_client s4), publishing := False\<rparr>"
  have ok: "reg_err reply = SUCCESS" using r ClientRegister_reply [of sp req env "tables (the_daemon s2)"] by simp
  have client: "the_client s1 = c" "the_client s2 = c" "the_client s3 = c"
    by (simp_all add: s1_def s2_def s3_def c_def in_tables_def move_call_def)
  have steps: "client_step sp Wake s s1" "client_step sp SendCall s1 s2" "client_step sp (ArriveRegister req env i) s2 s3"
    "client_step sp (Answer (RegisterAnswered reply)) s3 s4" "client_step sp Publish s4 s5"
  proof -
    show "client_step sp Wake s s1" unfolding s1_def using client_step.wake [OF assms(1)] assms(3) by simp
    show "client_step sp SendCall s1 s2"
      unfolding s2_def by (rule client_step.send_call [of _ NO_SERVER]) (simp_all add: s1_def status_call_def req_def c_def)
    show "client_step sp (ArriveRegister req env i) s2 s3"
      unfolding s3_def by (rule client_step.arrive_register [OF _ r]) (simp_all add: i_def s2_def)
    show "client_step sp (Answer (RegisterAnswered reply)) s3 s4"
      unfolding s4_def
      by (rule client_step.answer)
        (use assms(2) ok in \<open>simp_all add: s3_def s2_def s1_def move_call_def in_tables_def complete_call_def
          register_OnGetResponse_def i_def c_def\<close>)
    show "client_step sp Publish s4 s5" unfolding s5_def by (rule client_step.publish) (simp add: s4_def)
  qed
  have own: "own_event Wake" "own_event SendCall" "own_event (ArriveRegister req env i)"
    "own_event (Answer (RegisterAnswered reply))" "own_event Publish" by (simp_all add: own_event_def)
  have "leads sp 5 s s5"
    using leads_step [OF own(1) steps(1) leads_step [OF own(2) steps(2) leads_step [OF own(3) steps(3)
      leads_step [OF own(4) steps(4) leads_step [OF own(5) steps(5) leads_refl [of _ 0]]]]]]
    by (simp add: numeral_eq_Suc)
  moreover have "registered_with s5 i"
  proof -
    have "tables (the_daemon s5) = d" by (simp add: s5_def s4_def s3_def in_tables_def)
    moreover have "i \<in> dom (info_of d)"
      using ClientRegister_knows [of "tables (the_daemon s2)" env sp req] dok r
        ClientRegister_reply [of sp req env "tables (the_daemon s2)"] by (simp add: i_def s2_def s1_def)
    ultimately show ?thesis
      by (simp add: registered_with_def s5_def s4_def GetServerId_def SetServerId_publish_def SetServerId_write_def)
  qed
  ultimately show ?thesis by blast
qed

text \<open>A client whose id the daemon no longer knows learns it from its next heart beat.\<close>

lemma stale_beat:
  assumes w: "woken s = None" and p: "\<not> publishing s" and st: "clientStatus (the_client s) = REGISTERED"
    and i: "serverId (the_client s) = Some i" and gone: "i \<notin> dom (info_of (tables (the_daemon s)))"
    and dok: "daemon_ok (tables (the_daemon s))"
  shows "\<exists>t. leads sp 4 s t \<and> woken t = None \<and> \<not> publishing t \<and> clientStatus (the_client t) = NO_SERVER \<and>
    daemon_ok (tables (the_daemon t))"
proof -
  define s1 where "s1 = s\<lparr>woken := Some REGISTERED\<rparr>"
  define s2 where "s2 = s1\<lparr>woken := None, calls := add_mset (BeatSent i) (calls s1)\<rparr>"
  define d where "d = tables (the_daemon s)"
  define s3 where "s3 = in_tables (\<lambda>_. d) (move_call (BeatSent i) (BeatAnswered ERR) s2)"
  define s4 where "s4 = s3\<lparr>the_client := SetClientStatus NO_SERVER (the_client s), publishing := False,
    calls := calls s3 - {#BeatAnswered ERR#}\<rparr>"
  have hb: "HeartBeat 0 i (tables (the_daemon s2)) = (ERR, d)"
    using gone by (simp add: HeartBeat_def s2_def s1_def d_def domIff)
  have steps: "client_step sp Wake s s1" "client_step sp SendCall s1 s2" "client_step sp (ArriveBeat 0 i) s2 s3"
    "client_step sp (Answer (BeatAnswered ERR)) s3 s4"
  proof -
    show "client_step sp Wake s s1" unfolding s1_def using client_step.wake [OF w] st by simp
    show "client_step sp SendCall s1 s2"
      unfolding s2_def by (rule client_step.send_call [of _ REGISTERED]) (simp_all add: s1_def status_call_def i)
    show "client_step sp (ArriveBeat 0 i) s2 s3"
      unfolding s3_def by (rule client_step.arrive_beat [OF _ hb]) (simp add: s2_def)
    show "client_step sp (Answer (BeatAnswered ERR)) s3 s4"
      unfolding s4_def
      by (rule client_step.answer)
        (use p in \<open>simp_all add: s3_def s2_def s1_def move_call_def in_tables_def complete_call_def
          heart_beat_OnGetResponse_def\<close>)
  qed
  have own: "own_event Wake" "own_event SendCall" "own_event (ArriveBeat 0 i)" "own_event (Answer (BeatAnswered ERR))"
    by (simp_all add: own_event_def)
  have "leads sp 4 s s4"
    using leads_step [OF own(1) steps(1) leads_step [OF own(2) steps(2) leads_step [OF own(3) steps(3)
      leads_step [OF own(4) steps(4) leads_refl [of _ 0]]]]] by (simp add: numeral_eq_Suc)
  moreover have "woken s4 = None" "\<not> publishing s4" "clientStatus (the_client s4) = NO_SERVER" "tables (the_daemon s4) = d"
    by (simp_all add: s4_def s3_def s2_def in_tables_def move_call_def SetClientStatus_def)
  ultimately show ?thesis using dok unfolding d_def by metis
qed

text \<open>
  C37: a client always gets to a server id that the daemon knows. From every state, whatever calls are
  on their way and whatever happened to the daemon, at most eleven events of the client's own
  threads and calls, none of them lost, lead there.
\<close>

theorem client_can_register:
  assumes "client_run sp port proc grp evs s"
  shows "\<exists>evs' t i. list_all own_event evs' \<and> length evs' \<le> 11 \<and> client_run sp port proc grp (evs @ evs') t \<and>
    GetServerId (the_client t) = Inr (Some i) \<and> i \<in> dom (info_of (tables (the_daemon t)))"
proof -
  let ?c0 = "DaemonClientImpl port proc grp"
  have I: "client_ok ?c0 evs s" by (rule client_inv.inv_run [OF assms])
  obtain t where t: "leads sp 2 s t" "woken t = None" "\<not> publishing t" "client_ok ?c0 evs t"
    using settle [OF I] by blast
  have dok: "daemon_ok (tables (the_daemon t))" using t(4) by (simp add: client_ok_def)
  have "\<exists>u i. leads sp 9 t u \<and> registered_with u i"
  proof (cases "clientStatus (the_client t) = NO_SERVER")
    case True
    obtain u i where u: "leads sp 5 t u" "registered_with u i" using register_now [OF t(2,3) True dok] by blast
    from leads_trans [OF u(1) leads_refl [of sp 4 u]] u(2) show ?thesis by auto
  next
    case False
    then have reg: "clientStatus (the_client t) = REGISTERED" by (cases "clientStatus (the_client t)") auto
    then obtain i where i: "serverId (the_client t) = Some i" using t(4) by (auto simp: client_ok_def)
    show ?thesis
    proof (cases "i \<in> dom (info_of (tables (the_daemon t)))")
      case True
      with reg i have "registered_with t i" by (simp add: registered_with_def GetServerId_def)
      then show ?thesis using leads_refl by blast
    next
      case gone: False
      obtain u where u: "leads sp 4 t u" "woken u = None" "\<not> publishing u"
        "clientStatus (the_client u) = NO_SERVER" "daemon_ok (tables (the_daemon u))"
        using stale_beat [OF t(2,3) reg i gone dok] by blast
      obtain v j where v: "leads sp 5 u v" "registered_with v j" using register_now [OF u(2-5)] by blast
      from leads_trans [OF u(1) v(1)] v(2) show ?thesis by auto
    qed
  qed
  then obtain u i where u: "leads sp 9 t u" "registered_with u i" by blast
  have "leads sp 11 s u" using leads_trans [OF t(1) u(1)] by simp
  then obtain evs' where "list_all own_event evs'" "length evs' \<le> 11" "exec_trace (exec_client sp) any_event evs' s = Some u"
    unfolding leads_def by blast
  with client_exec.exec_from [OF assms] u(2) show ?thesis unfolding registered_with_def by blast
qed

section \<open>A concrete run\<close>

definition other_time :: "string \<Rightarrow> int \<Rightarrow> register_env" where
  "other_time ip now = \<lparr>env_peer = ''ipv4:'' @ ip @ '':4000'', env_random = 5, env_now = now\<rparr>"

text \<open>
  A first server registers, then the client; the heart beats of the client are late once, its entry
  is removed, another server registers and gets its id; then the heart beats go on.
\<close>

definition theft_events :: "client_event list" where
  "theft_events = [Daemon (Register producer_request (other_time ''10.0.0.9'' 0)), Wake, SendCall,
     ArriveRegister producer_request (at_time 0) 6, Answer (RegisterAnswered \<lparr>reg_err = SUCCESS, reg_server_id = 6\<rparr>), Publish,
     Wake, SendCall, Daemon (Beat 9 5), Daemon (Sweep 11), Daemon (Register producer_request (other_time ''10.0.0.2'' 11)),
     ArriveBeat 12 6, Answer (BeatAnswered SUCCESS)]"

definition demo_client_init :: client_sys where
  "demo_client_init = client_init (DaemonClientImpl ''50053'' ''producer'' 601)"

definition theft_state_ok :: "client_sys \<Rightarrow> bool" where
  "theft_state_ok s \<longleftrightarrow> calls s = {#} \<and> woken s = None \<and> \<not> publishing s \<and>
     clientStatus (the_client s) = REGISTERED \<and> serverId (the_client s) = Some 6 \<and>
     map (\<lambda>(k, i). (k, address i)) (gSvrId2SvrInfo (tables (the_daemon s))) = [(5, ''10.0.0.9:50053''), (6, ''10.0.0.2:50053'')]"

lemma theft_exec:
  obtains s where "client_run split_colon ''50053'' ''producer'' 601 theft_events s" "theft_state_ok s"
proof -
  have "case exec_trace (exec_client split_colon) any_event theft_events demo_client_init of
      None \<Rightarrow> False | Some s \<Rightarrow> theft_state_ok s"
    by code_simp
  then obtain s where "exec_trace (exec_client split_colon) any_event theft_events demo_client_init = Some s" "theft_state_ok s"
    by (auto split: option.splits)
  then show thesis using client_exec.exec_run that unfolding demo_client_init_def by blast
qed

theorem client_uses_granted_ids_witness:
  "\<exists>s. client_run split_colon ''50053'' ''producer'' 601 theft_events s \<and> GetServerId (the_client s) = Inr (Some 6) \<and>
    6 \<in> granted theft_events"
proof -
  obtain s where s: "client_run split_colon ''50053'' ''producer'' 601 theft_events s" "theft_state_ok s" by (rule theft_exec)
  then have "GetServerId (the_client s) = Inr (Some 6)" by (simp add: theft_state_ok_def GetServerId_def)
  with client_uses_granted_ids [OF s(1)] s(1) show ?thesis by auto
qed

theorem client_can_register_witness:
  "\<exists>evs' t i. client_run split_colon ''50053'' ''producer'' 601 (theft_events @ Restart # evs') t \<and>
    GetServerId (the_client t) = Inr (Some i) \<and> i \<in> dom (info_of (tables (the_daemon t)))"
proof -
  obtain s where s: "client_run split_colon ''50053'' ''producer'' 601 theft_events s" by (rule theft_exec)
  have "client_run split_colon ''50053'' ''producer'' 601 (theft_events @ [Restart]) (s\<lparr>the_daemon := system_init\<rparr>)"
    by (rule run_step [OF s]) (simp_all add: any_event_def client_step.restart)
  from client_can_register [OF this] show ?thesis by auto
qed

section \<open>Two servers with one id\<close>


definition address_of :: "daemon \<Rightarrow> u64 \<Rightarrow> string option" where
  "address_of d k = map_option address (info_of d k)"


lemma address_of_frame [simp]:
  "address_of (snd (LoadBalance junk req d)) k = address_of d k"
  "address_of (snd (HeartBeat now i d)) k = address_of d k"
  "address_of (Rebalance d) k = address_of d k"
  by (auto simp: address_of_def LoadBalance_info HeartBeat_info map_option_case split: option.splits)






end
