(* ===== verification/DoublePrint.thy ===== *)
theory DoublePrint
  imports DoubleIO
begin

text \<open>
  Insertion of a \<^verbatim>\<open>double\<close> into a stream, \<^verbatim>\<open>ss << score\<close>, with the default precision: six
  significant digits, rounded to the nearest (to even when halfway), without trailing zeros,
  in fixed notation when the exponent is at least -4 and less than 6. Numbers between \<open>10 ^ -4\<close>
  and \<open>10 ^ 5\<close> are read back with an error of at most half a unit of the sixth digit.
\<close>

section \<open>Definitions\<close>

text \<open>The decimal exponent of a positive number; the least double is above \<open>10 ^ -324\<close>.\<close>

definition dec_exp :: "rat \<Rightarrow> int" where
  "dec_exp x =
     (if 1 \<le> x then int (length (show_nat (nat \<lfloor>x\<rfloor>))) - 1
      else (case find (\<lambda>n. 1 \<le> x * 10 ^ n) [1..<325] of None \<Rightarrow> - 324 | Some n \<Rightarrow> - int n))"

text \<open>Six digits, and the exponent of the first: the number is \<open>m * 10 powi (X - 5)\<close>.\<close>

definition six_digits :: "rat \<Rightarrow> nat \<times> int" where
  "six_digits x =
     (let X = dec_exp x; m = nat (rne (x * 10 powi (5 - X)))
      in if m = 1000000 then (100000, X + 1) else (m, X))"

definition strip_zeros :: "string \<Rightarrow> string" where
  "strip_zeros s = rev (dropWhile (\<lambda>c. c = CHR ''0'') (rev s))"

definition with_fraction :: "string \<Rightarrow> string \<Rightarrow> string" where
  "with_fraction ip fp = ip @ (if fp = [] then [] else CHR ''.'' # fp)"

definition fixed_string :: "nat \<Rightarrow> int \<Rightarrow> string" where
  "fixed_string m X =
     (let ds = show_nat m in
      if 0 \<le> X then with_fraction (take (nat X + 1) ds) (strip_zeros (drop (nat X + 1) ds))
      else with_fraction ''0'' (replicate (nat (- X - 1)) (CHR ''0'') @ strip_zeros ds))"

definition exponent_string :: "int \<Rightarrow> string" where
  "exponent_string X = CHR ''e'' # (if X < 0 then CHR ''-'' else CHR ''+'') #
     (if \<bar>X\<bar> < 10 then ''0'' else []) @ show_nat (nat \<bar>X\<bar>)"

definition show_pos :: "rat \<Rightarrow> string" where
  "show_pos x =
     (let (m, X) = six_digits x in
      if -4 \<le> X \<and> X < 6 then fixed_string m X
      else (let ds = show_nat m in with_fraction (take 1 ds) (strip_zeros (drop 1 ds)) @ exponent_string X))"

definition show_double :: "double \<Rightarrow> string" where
  "show_double x = (if x = 0 then ''0'' else if x < 0 then CHR ''-'' # show_pos (- x) else show_pos x)"

section \<open>Digits\<close>

lemma nat_of_digits_append: "nat_of_digits (a @ b) = nat_of_digits a * 10 ^ length b + nat_of_digits b"
proof (induction b rule: rev_induct)
  case Nil
  then show ?case by (simp add: nat_of_digits_def)
next
  case (snoc c b)
  then show ?case
    using nat_of_digits_snoc [of "a @ b" c] nat_of_digits_snoc [of b c] by simp
qed

lemma nat_of_zeros [simp]: "nat_of_digits (replicate k (CHR ''0'')) = 0"
  by (induction k) (simp_all add: nat_of_digits_def digit_val_def)

lemma strip_zeros_decomp: "\<exists>k. s = strip_zeros s @ replicate k (CHR ''0'')"
proof -
  have "takeWhile (\<lambda>c. c = CHR ''0'') (rev s) = replicate (length (takeWhile (\<lambda>c. c = CHR ''0'') (rev s))) (CHR ''0'')"
    by (rule replicate_eqI [symmetric, THEN sym]) (auto dest: set_takeWhileD)
  then have "rev s = replicate (length (takeWhile (\<lambda>c. c = CHR ''0'') (rev s))) (CHR ''0'') @ rev (strip_zeros s)"
    by (metis strip_zeros_def rev_rev_ident takeWhile_dropWhile_id)
  then show ?thesis by (metis rev_append rev_replicate rev_rev_ident)
qed

lemma show_nat_length: "0 < n \<Longrightarrow> 10 ^ (length (show_nat n) - 1) \<le> n \<and> n < 10 ^ length (show_nat n)"
proof (induction n rule: show_nat.induct)
  case (1 n)
  show ?case
  proof (cases "n < 10")
    case True
    then show ?thesis using 1(2) by (simp add: show_nat.simps [of n])
  next
    case False
    then have IH: "10 ^ (length (show_nat (n div 10)) - 1) \<le> n div 10" "n div 10 < 10 ^ length (show_nat (n div 10))"
      using 1(1) by (simp_all add: div_greater_zero_iff)
    obtain l where l: "length (show_nat (n div 10)) = Suc l" by (cases "show_nat (n div 10)") auto
    have len: "length (show_nat n) = Suc (Suc l)" using False l by (simp add: show_nat.simps [of n])
    have "10 ^ l \<le> n div 10" "n div 10 < 10 ^ Suc l" using IH unfolding l by simp_all
    then have "10 * 10 ^ l \<le> n" "n < 10 * 10 ^ Suc l" by linarith+
    then show ?thesis unfolding len by simp
  qed
qed

lemma show_nat_six: "100000 \<le> m \<Longrightarrow> m < 1000000 \<Longrightarrow> length (show_nat m) = 6"
proof -
  assume m: "100000 \<le> m" "m < 1000000"
  let ?l = "length (show_nat m)"
  have b: "10 ^ (?l - 1) \<le> m" "m < 10 ^ ?l" using show_nat_length [of m] m(1) by auto
  have "(10 :: nat) ^ (?l - 1) < 10 ^ 6" using b(1) m(2) by simp
  then have "?l - 1 < 6" by (simp only: power_strict_increasing_iff)
  moreover have "(10 :: nat) ^ 5 < 10 ^ ?l" using b(2) m(1) by simp
  then have "5 < ?l" by (simp only: power_strict_increasing_iff)
  ultimately show ?thesis by simp
qed

section \<open>The six digits\<close>

lemma dec_exp_bounds:
  assumes "1 / 10000 \<le> x" and "x < 100000"
  shows "10 powi dec_exp x \<le> x \<and> x < 10 powi (dec_exp x + 1) \<and> -4 \<le> dec_exp x \<and> dec_exp x \<le> 4"
proof (cases "1 \<le> x")
  case True
  let ?n = "nat \<lfloor>x\<rfloor>" and ?l = "length (show_nat (nat \<lfloor>x\<rfloor>))"
  have n: "0 < ?n" "of_nat ?n \<le> x" "x < of_nat ?n + 1" using True by simp_all linarith+
  have l: "10 ^ (?l - 1) \<le> ?n" "?n < 10 ^ ?l" "0 < ?l" using show_nat_length [OF n(1)] by auto
  have "(of_nat (10 ^ (?l - 1)) :: rat) \<le> of_nat ?n" using l(1) by (simp only: of_nat_le_iff)
  moreover have "(of_nat (?n + 1) :: rat) \<le> of_nat (10 ^ ?l)" using l(2) by (simp only: of_nat_le_iff)
  ultimately have b: "10 ^ (?l - 1) \<le> x" "x < 10 ^ ?l"
    using n(2,3) unfolding of_nat_power of_nat_numeral of_nat_add of_nat_1
    by (blast intro: order_trans less_le_trans)+
  then have "(10 :: rat) ^ (?l - 1) < 10 ^ 5" using assms(2) by simp
  then have "?l - 1 < 5" by (simp only: power_strict_increasing_iff)
  moreover have "int (?l - 1) = int ?l - 1" using l(3) by linarith
  then have X: "dec_exp x = int (?l - 1)" "dec_exp x + 1 = int ?l" using True by (simp_all only: dec_exp_def if_True diff_add_cancel)
  ultimately show ?thesis using b unfolding X(2) unfolding X(1) power_int_of_nat by simp
next
  case False
  have u: "[1..<325 :: nat] = 1 # 2 # 3 # 4 # [5..<325]" by (simp add: upt_conv_Cons)
  have de: "dec_exp x = (case find (\<lambda>n. 1 \<le> x * 10 ^ n) (1 # 2 # 3 # 4 # [5..<325]) of None \<Rightarrow> - 324 | Some n \<Rightarrow> - int n)"
    unfolding dec_exp_def u using False by simp
  consider "1 / 10 \<le> x" | "1 / 100 \<le> x" "x < 1 / 10" | "1 / 1000 \<le> x" "x < 1 / 100" | "x < 1 / 1000" by linarith
  then show ?thesis
    using False assms(1) by cases (simp_all add: de power_int_def power_divide)
qed

lemma rne_half: "\<bar>of_int (rne y) - y\<bar> \<le> 1 / 2"
proof -
  have "of_int \<lfloor>y\<rfloor> \<le> y" "y < of_int \<lfloor>y\<rfloor> + 1" by linarith+
  then show ?thesis unfolding rne_def Let_def by (simp add: abs_le_iff)
qed

lemma powi10_split: "(10 :: rat) powi (a + b) = 10 powi a * 10 powi b"
  by (simp add: power_int_add)

lemma six_digits_value:
  assumes "1 / 10000 \<le> x" and "x < 100000" and "six_digits x = (m, X)"
  shows "100000 \<le> m" and "m < 1000000" and "-4 \<le> X" and "X \<le> 5"
    and "\<bar>of_nat m * 10 powi (X - 5) - x\<bar> \<le> x / 200000"
proof -
  let ?X = "dec_exp x" and ?y = "x * 10 powi (5 - dec_exp x)"
  note b = dec_exp_bounds [OF assms(1,2)]
  have up: "10 powi ?X * 10 powi (5 - ?X) = (10 :: rat) ^ 5" "10 powi (?X + 1) * 10 powi (5 - ?X) = (10 :: rat) ^ 6"
    unfolding power_int_add [symmetric, of "10 :: rat", simplified] by (simp_all add: power_int_def)
  have pos: "(0 :: rat) < 10 powi (5 - ?X)" "(0 :: rat) < 10 powi (?X - 5)" by (simp_all add: zero_less_power_int)
  have y: "10 ^ 5 \<le> ?y" "?y < 10 ^ 6"
    using b pos(1) up by (metis mult_le_cancel_right_pos, metis mult_less_cancel_right_pos)
  have r: "100000 \<le> rne ?y" "rne ?y \<le> 1000000"
    using y by (intro rne_ge_of_int rne_le_of_int, simp)+
  let ?m = "nat (rne ?y)"
  have m6: "six_digits x = (if ?m = 1000000 then (100000, ?X + 1) else (?m, ?X))"
    by (simp add: six_digits_def Let_def)
  have mb: "100000 \<le> ?m" "?m \<le> 1000000" using r by linarith+
  then show "100000 \<le> m" "m < 1000000" "-4 \<le> X" "X \<le> 5"
    using m6 assms(3) b by (auto split: if_splits)
  have "of_nat m * 10 powi (X - 5) = of_nat ?m * (10 :: rat) powi (?X - 5)"
  proof (cases "?m = 1000000")
    case True
    then have "m = 100000" "X = ?X + 1" using m6 assms(3) by auto
    moreover have "(10 :: rat) powi (?X + 1 - 5) = 10 * 10 powi (?X - 5)"
      using powi10_split [of 1 "?X - 5"] by (simp add: algebra_simps)
    ultimately show ?thesis unfolding True by simp
  next
    case False
    then show ?thesis using m6 assms(3) by auto
  qed
  also have "of_nat ?m = (of_int (rne ?y) :: rat)" using r(1) by simp
  finally have v: "of_nat m * 10 powi (X - 5) = of_int (rne ?y) * (10 :: rat) powi (?X - 5)" .
  have unscale: "x = ?y * 10 powi (?X - 5)"
    using powi10_split [of "5 - ?X" "?X - 5"] by (simp add: mult.assoc)
  have "\<bar>of_int (rne ?y) - ?y\<bar> * 10 powi (?X - 5) \<le> 1 / 2 * 10 powi (?X - 5)"
    using rne_half [of ?y] pos(2) by (intro mult_right_mono) simp_all
  also have "\<dots> \<le> ?y / 200000 * 10 powi (?X - 5)"
    using y(1) pos(2) by (intro mult_right_mono) simp_all
  finally have "\<bar>of_int (rne ?y) - ?y\<bar> * 10 powi (?X - 5) \<le> x / 200000" using unscale by simp
  moreover have "\<bar>of_int (rne ?y) * 10 powi (?X - 5) - x\<bar> = \<bar>of_int (rne ?y) - ?y\<bar> * 10 powi (?X - 5)"
    using pos(2) by (subst (2) unscale) (simp add: left_diff_distrib [symmetric] abs_mult)
  ultimately show "\<bar>of_nat m * 10 powi (X - 5) - x\<bar> \<le> x / 200000" unfolding v by simp
qed

section \<open>Reading it back\<close>

lemma digit_not_space: "is_digit c \<Longrightarrow> \<not> is_space c \<and> c \<noteq> CHR ''-'' \<and> c \<noteq> CHR ''+'' \<and> c \<noteq> CHR ''.''"
  by (auto simp: is_digit_def is_space_def)

lemma extract_fixed:
  assumes "ip \<noteq> []" and "\<forall>c \<in> set ip. is_digit c" and "\<forall>c \<in> set fp. is_digit c"
  shows "extract_double (with_fraction ip fp) =
    Some (clamp_dbl (fl64 (of_nat (nat_of_digits (ip @ fp)) * 10 powi (- int (length fp)))))"
proof -
  let ?r = "if fp = [] then [] else CHR ''.'' # fp"
  obtain c s where c: "ip = c # s" using assms(1) by (cases ip) auto
  then have d: "is_digit c" using assms(2) by simp
  have w: "dropWhile is_space (with_fraction ip fp) = with_fraction ip fp" "split_sign (with_fraction ip fp) = (False, with_fraction ip fp)"
    using digit_not_space [OF d] by (simp_all add: with_fraction_def c split_sign_def)
  have dot: "\<not> is_digit CHR ''.''" by (simp add: is_digit_def)
  have ipd: "takeWhile is_digit (ip @ ?r) = ip" "dropWhile is_digit (ip @ ?r) = ?r"
    using assms(2) dot by (simp_all add: takeWhile_append2 dropWhile_append2 takeWhile_eq_all_conv [THEN iffD2]
        dropWhile_eq_Nil_conv [THEN iffD2])
  have fpd: "takeWhile is_digit fp = fp" "dropWhile is_digit fp = []"
    using assms(3) by (simp_all add: takeWhile_eq_all_conv dropWhile_eq_Nil_conv)
  have "split_digits (with_fraction ip fp) = (ip, ?r)" by (simp add: split_digits_def with_fraction_def ipd)
  moreover have "split_fraction ?r = (fp, [])" by (simp add: split_fraction_def split_digits_def fpd)
  ultimately show ?thesis
    using w assms(1) by (simp add: extract_double_def Let_def parse_exponent_def decimal_value_def)
       (simp add: with_fraction_def)
qed

lemma show_nat_all_digits: "c \<in> set (show_nat m) \<Longrightarrow> is_digit c"
  using show_nat_digits by blast

lemma strip_zeros_digits: "c \<in> set (strip_zeros s) \<Longrightarrow> c \<in> set s"
  by (auto simp: strip_zeros_def dest: set_dropWhileD)

lemma of_digits: "m = n * 10 ^ k \<Longrightarrow> (of_nat m :: rat) = of_nat n * 10 ^ k"
  by simp

lemma fixed_value:
  assumes "100000 \<le> m" and "m < 1000000" and "-4 \<le> X" and "X \<le> 5"
  shows "extract_double (fixed_string m X) = Some (clamp_dbl (fl64 (of_nat m * 10 powi (X - 5))))"
proof -
  have l: "length (show_nat m) = 6" by (rule show_nat_six [OF assms(1,2)])
  show ?thesis
  proof (cases "0 \<le> X")
    case True
    let ?ip = "take (nat X + 1) (show_nat m)" and ?rest = "drop (nat X + 1) (show_nat m)"
    obtain k where k: "?rest = strip_zeros ?rest @ replicate k (CHR ''0'')" using strip_zeros_decomp by blast
    have "m = nat_of_digits ((?ip @ strip_zeros ?rest) @ replicate k (CHR ''0''))"
      using k by (metis append.assoc append_take_drop_id nat_of_digits_show)
    then have m: "m = nat_of_digits (?ip @ strip_zeros ?rest) * 10 ^ k"
      unfolding nat_of_digits_append [of _ "replicate k _"] by simp
    have "length (strip_zeros ?rest) + k = 5 - nat X"
      using arg_cong [OF k, of length] l by simp
    then have e: "- int (length (strip_zeros ?rest)) = int k + (X - 5)" using True assms(4) by linarith
    have v: "of_nat (nat_of_digits (?ip @ strip_zeros ?rest)) * (10 :: rat) powi (- int (length (strip_zeros ?rest))) =
        of_nat m * 10 powi (X - 5)"
      unfolding e powi10_split of_digits [OF m] by (simp add: power_int_of_nat)
    have "extract_double (with_fraction ?ip (strip_zeros ?rest)) = Some (clamp_dbl (fl64
        (of_nat (nat_of_digits (?ip @ strip_zeros ?rest)) * 10 powi (- int (length (strip_zeros ?rest))))))"
      by (rule extract_fixed) (use l in \<open>auto dest!: strip_zeros_digits in_set_takeD in_set_dropD show_nat_all_digits\<close>)
    then show ?thesis using True unfolding v by (simp add: fixed_string_def Let_def)
  next
    case False
    let ?z = "replicate (nat (- X - 1)) (CHR ''0'')" and ?st = "strip_zeros (show_nat m)"
    obtain k where k: "show_nat m = ?st @ replicate k (CHR ''0'')" using strip_zeros_decomp by blast
    have m: "m = nat_of_digits ?st * 10 ^ k"
      using arg_cong [OF k, of nat_of_digits] by (simp add: nat_of_digits_append)
    have "length ?st + k = 6" using arg_cong [OF k, of length] l by simp
    then have e: "- int (length (?z @ ?st)) = int k + (X - 5)" using False by simp
    have "nat_of_digits (''0'' @ ?z @ ?st) = nat_of_digits ?st"
      by (simp only: nat_of_digits_append nat_of_zeros nat_of_zeros [of 1, simplified] mult_zero_left add_0_left)
    then have v: "of_nat (nat_of_digits (''0'' @ ?z @ ?st)) * (10 :: rat) powi (- int (length (?z @ ?st))) =
        of_nat m * 10 powi (X - 5)"
      unfolding e powi10_split of_digits [OF m] by (simp add: power_int_of_nat)
    have "extract_double (with_fraction ''0'' (?z @ ?st)) = Some (clamp_dbl (fl64
        (of_nat (nat_of_digits (''0'' @ ?z @ ?st)) * 10 powi (- int (length (?z @ ?st))))))"
      by (rule extract_fixed) (auto simp: is_digit_def dest!: strip_zeros_digits show_nat_all_digits)
    then show ?thesis using False unfolding v by (simp add: fixed_string_def Let_def)
  qed
qed

lemma extract_show:
  assumes "1 / 10000 \<le> x" and "x < 100000"
  shows "\<exists>q. extract_double (show_double x) = Some (clamp_dbl (fl64 q)) \<and> \<bar>q - x\<bar> \<le> x / 200000"
proof -
  obtain m X where mX: "six_digits x = (m, X)" by fastforce
  note v = six_digits_value [OF assms mX]
  have "show_double x = fixed_string m X"
    using assms(1) v(3,4) by (simp add: show_double_def show_pos_def mX)
  then show ?thesis using fixed_value [OF v(1-4)] v(5) by auto
qed

end
