(* ===== verification/LoadReport.thy ===== *)
theory LoadReport
  imports DaemonClient RocketMq DoublePrint
begin

text \<open>
  \<^verbatim>\<open>ProducerImpl::SendLoadBalanceInfo\<close> in \<^verbatim>\<open>producer/producer.cpp\<close>: the load report a producer sends to
  the daemon every ten seconds.
\<close>

text \<open>
  A producer that sent nothing in the last interval and has tasks may be stuck: it gets the least
  score. \<^verbatim>\<open>taskCount\<close> counts in 32 bits.
\<close>

definition report_score :: "double \<Rightarrow> u32 \<Rightarrow> double" where
  "report_score avgTime tasks_now =
     (if avgTime < fl64 (1 / 10000) \<and> tasks_now \<noteq> 0 then fl64 (1 / 10000) else calLoadBalanceScore avgTime)"

text \<open>One turn of the loop: the report that is sent, if any (\<^verbatim>\<open>continue\<close> otherwise).\<close>

definition SendLoadBalanceInfo ::
  "daemon_client option \<Rightarrow> tps \<Rightarrow> u32 \<Rightarrow> load_balance_request option ub_or" where
  "SendLoadBalanceInfo pDaemonClientImpl gTps tasks_now =
     (case pDaemonClientImpl of
        None \<Rightarrow> Inr None
      | Some c \<Rightarrow>
          (case GetServerId c of
             Inl e \<Rightarrow> Inl e
           | Inr None \<Rightarrow> Inr None
           | Inr (Some own_id) \<Rightarrow>
               Inr (Some \<lparr>lb_server_id = own_id,
                          lb_score = show_double (report_score (GetAvgSpeed gTps) tasks_now)\<rparr>)))"

section \<open>The average time\<close>

definition tps_ok :: "tps \<Rightarrow> bool" where
  "tps_ok t \<longleftrightarrow> 0 \<le> tpsCount t \<and> 0 \<le> avgSpeed t \<and> avgSpeed t \<le> 10000"

lemma fl64_10000: "fl64 10000 = 10000" by code_simp

lemma dmul_interval: "dmul 1000 (unsigned TPS_INTERVAL) = 10000"
  by (simp add: dmul_def TPS_INTERVAL_def fl64_10000)

lemma fl64_ge_1: "1 \<le> c \<Longrightarrow> 1 \<le> fl64 (of_int c)"
  by (rule b64.fl_ge_repr [OF fl64_one]) simp

lemma tps_ok_sum: "tps_ok t \<Longrightarrow> tps_ok (TpsReport_sum t)"
proof -
  assume t: "tps_ok t"
  show ?thesis
  proof (cases "tpsCount t = 0")
    case True
    with t show ?thesis by (simp add: tps_ok_def TpsReport_sum_def)
  next
    case False
    then have c: "1 \<le> fl64 (of_int (tpsCount t))" using t by (intro fl64_ge_1) (simp add: tps_ok_def)
    then have "10000 / fl64 (of_int (tpsCount t)) \<le> 10000" by (simp add: divide_le_eq)
    then have "fl64 (10000 / fl64 (of_int (tpsCount t))) \<le> 10000" by (rule b64.fl_le_repr [OF fl64_10000])
    moreover have "0 \<le> fl64 (10000 / fl64 (of_int (tpsCount t)))" using c by (intro b64.fl_nonneg) simp
    ultimately show ?thesis using t False by (simp add: tps_ok_def TpsReport_sum_def Let_def ddiv_def dmul_interval)
  qed
qed

lemma tps_ok_ops:
  "set ops \<subseteq> {Increment, TpsReport_sum, TpsReport_reset} \<Longrightarrow> tps_ok t \<Longrightarrow> tps_ok (fold (\<lambda>f. f) ops t)"
proof (induction ops arbitrary: t)
  case (Cons f ops)
  then have "tps_ok (f t)" by (auto simp: tps_ok_sum) (simp_all add: tps_ok_def Increment_def TpsReport_reset_def)
  with Cons show ?case by simp
qed simp

section \<open>The score\<close>

lemma least_score: "1 / 10000 \<le> fl64 (1 / 10000)" "fl64 (1 / 10000) \<le> 10" by code_simp+

lemma score_10000: "1 / 10000 \<le> calLoadBalanceScore 10000" by code_simp

lemma report_score_bounds:
  assumes "0 \<le> avg" and "avg \<le> 10000"
  shows "1 / 10000 \<le> report_score avg n" and "report_score avg n \<le> 10"
  using least_score score_10000 score_zero score_antitone_pos [OF assms] score_antitone_pos [of 0 avg] assms
  by (auto simp: report_score_def)

text \<open>What the daemon reads of such a score.\<close>

lemma score_read:
  assumes "1 / 10000 \<le> x" and "x \<le> 10"
  shows "\<exists>q. extract_double (show_double x) = Some (fl64 q) \<and> \<bar>q - x\<bar> \<le> x / 200000 \<and> 0 < fl64 q"
proof -
  obtain q where q: "extract_double (show_double x) = Some (clamp_dbl (fl64 q))" "\<bar>q - x\<bar> \<le> x / 200000"
    using extract_show [OF assms(1)] assms(2) by auto
  have r: "fl64 16 = 16" "fl64 (1 / 16384) = 1 / 16384" by code_simp+
  have "q - x \<le> x / 200000" "x - q \<le> x / 200000" using q(2) by linarith+
  then have "q \<le> 16" "1 / 16384 \<le> q" using assms by linarith+
  then have b: "fl64 q \<le> 16" "1 / 16384 \<le> fl64 q"
    using b64.fl_le_repr [OF r(1)] b64.fl_ge_repr [OF r(2)] by blast+
  have "(16 :: rat) \<le> dbl_max" by code_simp
  with b have "clamp_dbl (fl64 q) = fl64 q" by (auto simp: clamp_dbl_def)
  with q b show ?thesis by auto
qed

end
