(* ===== verification/ReportProps.thy ===== *)
theory ReportProps
  imports LoadReport DaemonInvariants
begin

text \<open>
  The load reports of the producers, as the daemon gets them, and the command line options of the
  RocketMQ processes.
\<close>

section \<open>Load reports\<close>

text \<open>
  C39: the load reports of a producer keep the dispatch of the daemon alive. Whatever was counted, the
  score is between 0.0001 and 10, the printed score is one the daemon reads with an error of at
  most one part in 200000, rounded to a double, and greater than 0; so the report is one of those
  for which the dispatch has no undefined behaviour.
\<close>

theorem load_report_accepted:
  assumes "set ops \<subseteq> {Increment, TpsReport_sum, TpsReport_reset}" and "t = fold (\<lambda>f. f) ops TpsReportService"
    and "SendLoadBalanceInfo (Some c) t n = Inr (Some req)"
  shows "GetServerId c = Inr (Some (lb_server_id req)) \<and>
    1 / 10000 \<le> report_score (GetAvgSpeed t) n \<and> report_score (GetAvgSpeed t) n \<le> 10 \<and>
    (\<exists>q. extract_double (lb_score req) = Some (fl64 q) \<and> 0 < fl64 q \<and>
       \<bar>q - report_score (GetAvgSpeed t) n\<bar> \<le> report_score (GetAvgSpeed t) n / 200000) \<and>
    fleet_event (Load junk req) s"
proof -
  have "tps_ok t"
    unfolding assms(2) by (rule tps_ok_ops [OF assms(1)]) (simp add: tps_ok_def TpsReportService_def)
  then have avg: "0 \<le> GetAvgSpeed t" "GetAvgSpeed t \<le> 10000" by (simp_all add: tps_ok_def GetAvgSpeed_def)
  note sc = report_score_bounds [OF avg]
  have req: "GetServerId c = Inr (Some (lb_server_id req))" "lb_score req = show_double (report_score (GetAvgSpeed t) n)"
    using assms(3) by (auto simp: SendLoadBalanceInfo_def split: sum.splits option.splits)
  obtain q where "extract_double (lb_score req) = Some (fl64 q)" "0 < fl64 q"
    "\<bar>q - report_score (GetAvgSpeed t) n\<bar> \<le> report_score (GetAvgSpeed t) n / 200000"
    using score_read [OF sc] unfolding req(2) by blast
  then show ?thesis using req(1) sc by (auto simp: fleet_event_def)
qed

definition registered_client :: daemon_client where
  "registered_client = (DaemonClientImpl ''50053'' ''producer'' 601)\<lparr>serverId := Some 5, clientStatus := REGISTERED\<rparr>"

theorem load_report_accepted_witness:
  "\<exists>req q. SendLoadBalanceInfo (Some registered_client) (TpsReport_reset (TpsReport_sum (Increment TpsReportService))) 3 =
      Inr (Some req) \<and> lb_server_id req = 5 \<and> extract_double (lb_score req) = Some (fl64 q) \<and> 0 < fl64 q"
proof -
  let ?t = "TpsReport_reset (TpsReport_sum (Increment TpsReportService))"
  obtain req where req: "SendLoadBalanceInfo (Some registered_client) ?t 3 = Inr (Some req)" "lb_server_id req = 5"
    by (simp add: SendLoadBalanceInfo_def GetServerId_def registered_client_def)
  have t: "?t = fold (\<lambda>f. f) [Increment, TpsReport_sum, TpsReport_reset] TpsReportService" by simp
  obtain q where "extract_double (lb_score req) = Some (fl64 q)" "0 < fl64 q"
    using load_report_accepted [OF _ t req(1), of 0 undefined] by auto
  with req show ?thesis by blast
qed

section \<open>Command line options\<close>

definition option_args :: "char \<Rightarrow> (char \<times> string) list \<Rightarrow> string" where
  "option_args ch opts = concat (rev (map snd (filter (\<lambda>p. fst p = ch) opts)))"

lemma option_args_simps [simp]:
  "option_args ch [] = []"
  "option_args ch (p # opts) = option_args ch opts @ (if fst p = ch then snd p else [])"
  by (simp_all add: option_args_def)

definition known_option :: "char \<Rightarrow> bool" where
  "known_option ch \<longleftrightarrow> ch \<in> set ''nigtmcbsruTv''"

lemma set_option_known: "set_option ch a s \<noteq> None \<longleftrightarrow> known_option ch"
  by (auto simp: set_option_def known_option_def split: prod.splits)

text \<open>Each option goes to the front of its field.\<close>

lemma set_option_fields:
  assumes "set_option ch a (info, n) = Some (info', n')"
  shows "namesrv info' = (if ch = CHR ''n'' then a else []) @ namesrv info"
    "namesrv_domain info' = (if ch = CHR ''i'' then a else []) @ namesrv_domain info"
    "groupname info' = (if ch = CHR ''g'' then a else []) @ groupname info"
    "topic info' = (if ch = CHR ''t'' then a else []) @ topic info"
    "body info' = (if ch = CHR ''c'' then a else []) @ body info"
    "PrintMoreInfo info' = (PrintMoreInfo info \<or> ch = CHR ''v'')"
  using assms by (auto simp: set_option_def split: if_splits)

lemma parse_options_fields:
  "parse_options opts (info, n) = (ok, info', n') \<Longrightarrow>
    (ok \<longleftrightarrow> (\<forall>p \<in> set opts. known_option (fst p))) \<and>
    (PrintMoreInfo info' \<longrightarrow> PrintMoreInfo info \<or> (\<exists>p \<in> set opts. fst p = CHR ''v'')) \<and>
    (ok \<longrightarrow> namesrv info' = option_args (CHR ''n'') opts @ namesrv info \<and>
      namesrv_domain info' = option_args (CHR ''i'') opts @ namesrv_domain info \<and>
      groupname info' = option_args (CHR ''g'') opts @ groupname info \<and>
      topic info' = option_args (CHR ''t'') opts @ topic info \<and> body info' = option_args (CHR ''c'') opts @ body info)"
proof (induction opts arbitrary: info n)
  case Nil
  then show ?case by simp
next
  case (Cons p opts)
  obtain ch a where p: "p = (ch, a)" by fastforce
  show ?case
  proof (cases "set_option ch a (info, n)")
    case None
    then have "\<not> known_option ch" using set_option_known [of ch a "(info, n)"] by simp
    with None Cons.prems show ?thesis by (auto simp: p)
  next
    case (Some s)
    obtain info1 n1 where s: "s = (info1, n1)" by fastforce
    have k: "known_option ch" using Some set_option_known [of ch a "(info, n)"] by simp
    have "parse_options opts (info1, n1) = (ok, info', n')" using Cons.prems Some by (simp add: p s)
    from Cons.IH [OF this] set_option_fields [OF Some [unfolded s]] k show ?thesis by (auto simp: p)
  qed
qed

text \<open>
  What \<^verbatim>\<open>ParseArgs\<close> makes of the command line. It succeeds when every option is one it knows and
  a group, a topic and a name server or domain are given; then each field holds the arguments
  of its option, the last one first, and the body keeps its default text behind them. It never
  turns on \<^verbatim>\<open>PrintMoreInfo\<close>: \<^verbatim>\<open>-v\<close> is not in the option string, so \<^verbatim>\<open>getopt\<close> reports it as unknown.
\<close>

theorem parse_args_result:
  assumes "getopt_documented getopt"
    and "ParseArgs getopt argv (RocketmqSendAndConsumerArgs cores, n) = (ok, info, n')"
  shows "(ok \<longleftrightarrow> (\<forall>p \<in> set (getopt argv). fst p \<in> set ''nigtmcbsruT'') \<and>
      option_args (CHR ''g'') (getopt argv) \<noteq> [] \<and> option_args (CHR ''t'') (getopt argv) \<noteq> [] \<and>
      (option_args (CHR ''i'') (getopt argv) \<noteq> [] \<or> option_args (CHR ''n'') (getopt argv) \<noteq> [])) \<and>
    (ok \<longrightarrow> groupname info = option_args (CHR ''g'') (getopt argv) \<and> topic info = option_args (CHR ''t'') (getopt argv) \<and>
      namesrv info = option_args (CHR ''n'') (getopt argv) \<and> namesrv_domain info = option_args (CHR ''i'') (getopt argv) \<and>
      body info = option_args (CHR ''c'') (getopt argv) @ ''msgbody for test'') \<and>
    \<not> PrintMoreInfo info"
proof -
  let ?opts = "getopt argv"
  obtain ok1 info1 n1 where p: "parse_options ?opts (RocketmqSendAndConsumerArgs cores, n) = (ok1, info1, n1)"
    using prod_cases3 by blast
  have info: "info1 = info" using assms(2) by (auto simp: ParseArgs_def p split: if_splits)
  have no_v: "fst q \<noteq> CHR ''v''" if "q \<in> set ?opts" for q
    using that assms(1) by (fastforce simp: getopt_documented_def option_string_def)
  have known: "known_option (fst q) \<longleftrightarrow> fst q \<in> set ''nigtmcbsruT''" if "q \<in> set ?opts" for q
    using no_v [OF that] by (auto simp: known_option_def)
  note f = parse_options_fields [OF p]
  have ok1: "ok1 \<longleftrightarrow> (\<forall>q \<in> set ?opts. fst q \<in> set ''nigtmcbsruT'')"
    using f known by blast
  have ok: "ok \<longleftrightarrow> ok1 \<and> groupname info \<noteq> [] \<and> topic info \<noteq> [] \<and> (namesrv_domain info \<noteq> [] \<or> namesrv info \<noteq> [])"
    using assms(2) unfolding ParseArgs_def p info by (auto split: if_splits)
  have start: "namesrv (RocketmqSendAndConsumerArgs cores) = []" "namesrv_domain (RocketmqSendAndConsumerArgs cores) = []"
    "groupname (RocketmqSendAndConsumerArgs cores) = []" "topic (RocketmqSendAndConsumerArgs cores) = []"
    "body (RocketmqSendAndConsumerArgs cores) = ''msgbody for test''" "\<not> PrintMoreInfo (RocketmqSendAndConsumerArgs cores)"
    by (simp_all add: RocketmqSendAndConsumerArgs_def)
  have m: "\<not> PrintMoreInfo info" using f no_v start(6) info by blast
  show ?thesis
    using f m unfolding ok1 [symmetric] ok info start append_Nil2 by (cases ok1) simp_all
qed

text \<open>A \<^verbatim>\<open>getopt\<close> for arguments of the form \<^verbatim>\<open>-xvalue\<close>.\<close>

definition demo_getopt :: "string list \<Rightarrow> (char \<times> string) list" where
  "demo_getopt argv = map (\<lambda>s. case s of
       d # ch # a \<Rightarrow> if ch \<in> set option_string \<and> ch \<noteq> CHR '':'' then (ch, a) else (CHR ''?'', [])
     | _ \<Rightarrow> (CHR ''?'', [])) argv"

theorem parse_args_result_witness:
  "\<exists>info n. ParseArgs demo_getopt [''-gpush'', ''-tpush'', ''-nhost'', ''-chello''] (RocketmqSendAndConsumerArgs 4, 1) =
      (True, info, n) \<and> groupname info = ''push'' \<and> body info = ''hellomsgbody for test''"
proof -
  have doc: "getopt_documented demo_getopt"
    by (auto simp: getopt_documented_def demo_getopt_def split: list.splits)
  let ?argv = "[''-gpush'', ''-tpush'', ''-nhost'', ''-chello'']"
  have o: "demo_getopt ?argv = [(CHR ''g'', ''push''), (CHR ''t'', ''push''), (CHR ''n'', ''host''), (CHR ''c'', ''hello'')]"
    by (simp add: demo_getopt_def option_string_def)
  obtain ok info n where p: "ParseArgs demo_getopt ?argv (RocketmqSendAndConsumerArgs 4, 1) = (ok, info, n)"
    using prod_cases3 by blast
  from parse_args_result [OF doc p] p show ?thesis by (auto simp: o)
qed

end
