(* ===== verification/Membership.thy ===== *)
theory Membership
  imports Scenarios
begin

text \<open>
  What the daemon promises of its registry, without its tables, ranks and threads: a group of
  members that join, are seen, time out and are expelled. Every run of the daemon is a run of
  this specification.
\<close>

section \<open>The specification\<close>

record member =
  member_address :: string
  member_name :: string
  last_seen :: int

type_synonym members = "u64 \<Rightarrow> member option"

datatype member_event =
    Join u64 member
  | Seen u64 int
  | Expire int
  | Leave u64
  | Same

text \<open>A member joins under an id above all others.\<close>

fun member_step :: "member_event \<Rightarrow> members \<Rightarrow> members \<Rightarrow> bool" where
  "member_step (Join k m) M M' \<longleftrightarrow> (\<forall>j \<in> dom M. j < k) \<and> M' = M(k \<mapsto> m)"
| "member_step (Seen k t) M M' \<longleftrightarrow> M' = M(k := map_option (\<lambda>m. m\<lparr>last_seen := t\<rparr>) (M k))"
| "member_step (Expire now) M M' \<longleftrightarrow>
     M' = (\<lambda>k. case M k of None \<Rightarrow> None | Some m \<Rightarrow> if now - last_seen m > ALIVE_DURATION then None else Some m)"
| "member_step (Leave k) M M' \<longleftrightarrow> M' = M(k := None)"
| "member_step Same M M' \<longleftrightarrow> M' = M"

section \<open>The abstraction\<close>

definition member_of :: "server_info \<Rightarrow> member" where
  "member_of i = \<lparr>member_address = address i, member_name = procName i, last_seen = timestamp i\<rparr>"

definition members_of :: "daemon \<Rightarrow> members" where
  "members_of d = (\<lambda>k. map_option member_of (info_of d k))"

text \<open>Which step of the specification explains an event; \<open>sp\<close> splits the peer's name.\<close>

fun explains :: "(string \<Rightarrow> string list) \<Rightarrow> event \<Rightarrow> member_event \<Rightarrow> bool" where
  "explains sp (Register req env) l \<longleftrightarrow> (\<exists>k. l = Join k
     \<lparr>member_address = parseAndGetIp sp (env_peer env) @ '':'' @ listening_port req,
      member_name = proc_name req, last_seen = env_now env\<rparr>)"
| "explains sp (Beat now k) l \<longleftrightarrow> l = Seen k now"
| "explains sp (Sweep now) l \<longleftrightarrow> l = Expire now"
| "explains sp (Complete c ok st err) l \<longleftrightarrow> l = Same \<or> \<not> st \<and> l = Leave (call_svrId c)"
| "explains sp ev l \<longleftrightarrow> l = Same"

section \<open>Simulation\<close>

lemma members_of_frame: "gSvrId2SvrInfo d' = gSvrId2SvrInfo d \<Longrightarrow> members_of d' = members_of d"
  by (simp add: members_of_def)

lemma members_register:
  assumes "daemon_ok d" and "- 1 \<notin> dom (info_of d)"
  shows "\<exists>l. explains sp (Register req env) l \<and> member_step l (members_of d) (members_of (snd (ClientRegister sp req env d)))"
proof -
  let ?k = "register_id (env_random env) d"
  note ok = daemon_ok_tables(1) [OF assms(1)]
  have "members_of (snd (ClientRegister sp req env d)) = (members_of d)(?k \<mapsto> member_of (registered_info sp req env))"
    using ClientRegister_info [OF ok register_id_fresh [OF ok assms(2)]] by (auto simp: members_of_def)
  moreover have "\<forall>j \<in> dom (members_of d). j < ?k"
    using register_id_greatest [OF ok assms(2)] by (auto simp: members_of_def)
  ultimately show ?thesis by (auto simp: member_of_def registered_info_def)
qed

lemma members_beat: "member_step (Seen k now) (members_of d) (members_of (snd (HeartBeat now k d)))"
  by (auto simp: members_of_def HeartBeat_info member_of_def map_option_case fun_eq_iff split: option.splits)

lemma members_sweep:
  "daemon_ok d \<Longrightarrow> member_step (Expire now) (members_of d) (members_of (CheckProcAlive_pass now d))"
  by (auto simp: members_of_def CheckProcAlive_info member_of_def late_def fun_eq_iff split: option.splits)

lemma members_load: "members_of (snd (LoadBalance junk req d)) = members_of d"
  by (auto simp: members_of_def LoadBalance_info member_of_def map_option_case fun_eq_iff split: option.splits)

lemma members_decrease [simp]: "members_of (DecreaseProducerTask k d) = members_of d"
  by (rule members_of_frame) (simp add: DecreaseProducerTask_eq split: option.splits)

lemma members_breaker:
  "members_of (circuit_breaker k d) = members_of d \<or> members_of (circuit_breaker k d) = (members_of d)(k := None)"
  by (auto simp: circuit_breaker_eq members_of_def drop_producer_def om.find_erase fun_eq_iff split: option.splits)

lemma explained:
  "explains sp ev l \<Longrightarrow> member_step l M M' \<Longrightarrow> \<exists>l. explains sp ev l \<and> member_step l M M'"
  by blast

lemma explained_same:
  "explains sp ev Same \<Longrightarrow> M' = M \<Longrightarrow> \<exists>l. explains sp ev l \<and> member_step l M M'"
  by (rule explained [of _ _ Same]) simp_all

lemma step_members:
  assumes st: "sys_step sp ev s s'" and ok: "daemon_ok (tables s)" and no_top: "- 1 \<notin> dom (info_of (tables s))"
  shows "\<exists>l. explains sp ev l \<and> member_step l (members_of (tables s)) (members_of (tables s'))"
  using st
proof (cases rule: sys_step.cases)
  case (register req env)
  with members_register [OF ok no_top] show ?thesis by simp
next
  case (load junk lreq)
  then show ?thesis by (intro explained_same) (simp_all add: members_load)
next
  case (beat now k)
  have "explains sp ev (Seen k now)" by (simp add: beat(1))
  moreover have "member_step (Seen k now) (members_of (tables s)) (members_of (tables s'))"
    using members_beat [of k now "tables s"] beat(2) by simp
  ultimately show ?thesis by (rule explained)
next
  case (sweep now)
  have "explains sp ev (Expire now)" by (simp add: sweep(1))
  moreover have "member_step (Expire now) (members_of (tables s)) (members_of (tables s'))"
    using members_sweep [OF ok, of now] sweep(2) by simp
  ultimately show ?thesis by (rule explained)
next
  case timer
  then show ?thesis by (intro explained_same members_of_frame) simp_all
next
  case (begin_push r)
  then show ?thesis by (intro explained_same) simp_all
next
  case (select who r cur draw)
  have "gSvrId2SvrInfo (tables s') = gSvrId2SvrInfo (tables s)"
    using select(4) by (cases rule: select_turn_cases)
      (use ok in \<open>auto dest: select_step_None select_step_call(5)\<close>)
  with select(1) show ?thesis by (intro explained_same members_of_frame) simp_all
next
  case (complete c ok' st' err)
  from complete(3) show ?thesis
  proof (cases rule: HandleAsyncCall_cases)
    case response
    with complete(1) show ?thesis by (intro explained_same) simp_all
  next
    case fail
    then have t: "tables s' = circuit_breaker (call_svrId c) (tables s)" by simp
    from members_breaker [of "call_svrId c" "tables s"] show ?thesis
    proof
      assume "members_of (circuit_breaker (call_svrId c) (tables s)) = members_of (tables s)"
      with t complete(1) show ?thesis by (intro explained_same) simp_all
    next
      assume "members_of (circuit_breaker (call_svrId c) (tables s)) = (members_of (tables s))(call_svrId c := None)"
      with t complete(1) fail(2) show ?thesis by (intro explained [of _ _ "Leave (call_svrId c)"]) simp_all
    qed
  qed
next
  case (resume c)
  then show ?thesis by (intro explained_same) simp_all
qed

interpretation membership: trace_simulation "sys_step sp" system_init "\<lambda>_ s. - 1 \<notin> dom (info_of (tables s))"
  "\<lambda>s. daemon_ok (tables s)" member_step "\<lambda>s. members_of (tables s)" "explains sp" for sp
  by unfold_locales (auto simp: system_init_def daemon_ok_init intro: step_daemon_ok step_members)

lemma members_init: "members_of (tables system_init) = Map.empty"
  by (simp add: system_init_def daemon_init_def members_of_def fun_eq_iff)

text \<open>
  C7: the daemon implements a membership service. Every run in which no server has the greatest id
  \<open>2 ^ 64 - 1\<close> is, event by event, a run of the specification from the empty group: a registration
  is a member that joins under an id above all others, a heart beat is a member seen, a pass of
  \<^verbatim>\<open>CheckProcAlive\<close> expires the members not seen for more than ten seconds, only a failed call may
  expel the producer it went to, and nothing else changes the members.
\<close>

theorem registry_refines_membership:
  assumes "run sp (\<lambda>_ s. - 1 \<notin> dom (info_of (tables s))) evs s"
  shows "\<exists>ls. list_all2 (explains sp) evs ls \<and> traces member_step Map.empty any_event ls (members_of (tables s))"
  using membership.simulated [OF assms] by (simp add: members_init)

theorem registry_refines_membership_witness:
  "\<exists>ls. list_all2 (explains split_colon) demo_events ls \<and>
    traces member_step Map.empty any_event ls (members_of (tables demo_state)) \<and>
    dom (members_of (tables demo_state)) = {5, 6}"
proof -
  have "exec_events split_colon (\<lambda>_ s. - 1 \<notin> set (map fst (gSvrId2SvrInfo (tables s)))) demo_events system_init = Some demo_state"
    by code_simp
  then have "run split_colon (\<lambda>_ s. - 1 \<notin> set (map fst (gSvrId2SvrInfo (tables s)))) demo_events demo_state" by (rule exec_run)
  moreover have "dom (members_of (tables demo_state)) = {5, 6}"
    by (auto simp: members_of_def demo_state_def split: if_splits)
  ultimately show ?thesis using registry_refines_membership [of split_colon demo_events demo_state] by (simp add: om_dom)
qed

end
