(* ===== verification/KeepAlive.thy ===== *)
theory KeepAlive
  imports Membership DispatchFacts
begin

text \<open>
  What a server has to do to stay registered, whatever the others do: a judge watches the events
  that concern it, and as long as the judge is content the server is a member. The first pass
  of the liveness thread after more than ten seconds of silence removes it.
\<close>

section \<open>The judge\<close>

text \<open>What the judge remembers: the last heart beat, and the failures since the last pass.\<close>

record watched =
  beat_at :: int
  failures :: nat

fun watch_event :: "u64 \<Rightarrow> event \<Rightarrow> watched \<Rightarrow> watched option" where
  "watch_event k (Beat now j) w = Some (if j = k then w\<lparr>beat_at := now\<rparr> else w)"
| "watch_event k (Sweep now) w = (if now - beat_at w > 10 then None else Some (w\<lparr>failures := 0\<rparr>))"
| "watch_event k (Complete c ok st err) w =
     (if st \<or> call_svrId c \<noteq> k then Some w
      else if failures w < 50 then Some (w\<lparr>failures := Suc (failures w)\<rparr>) else None)"
| "watch_event k ev w = Some w"

fun watch :: "u64 \<Rightarrow> event list \<Rightarrow> watched \<Rightarrow> watched option" where
  "watch k [] w = Some w"
| "watch k (ev # evs) w = Option.bind (watch_event k ev w) (watch k evs)"

lemma watch_snoc: "watch k (evs @ [ev]) w = Option.bind (watch k evs w) (watch_event k ev)"
proof (induction evs arbitrary: w)
  case Nil
  show ?case by (cases "watch_event k ev w") simp_all
next
  case (Cons a evs)
  then show ?case by (cases "watch_event k a w") simp_all
qed

definition failures_of :: "daemon \<Rightarrow> u64 \<Rightarrow> nat" where
  "failures_of d k = (case prod_of d k of None \<Rightarrow> 0 | Some p \<Rightarrow> unat (failCount p))"

definition watch_start :: "daemon \<Rightarrow> u64 \<Rightarrow> member \<Rightarrow> watched" where
  "watch_start d k m = \<lparr>beat_at = last_seen m, failures = failures_of d k\<rparr>"

section \<open>The count of failures\<close>

lemma failures_frame: "prod_of d' k = prod_of d k \<Longrightarrow> failures_of d' k = failures_of d k"
  by (simp add: failures_of_def)

lemma failures_Rebalance: "om_ok (gSvrId2ProducerState d) \<Longrightarrow> failures_of (Rebalance d) k = failures_of d k"
  by (simp add: failures_of_def Rebalance_prod default_producer_state_def split: option.splits)

lemma failures_modify:
  "(\<And>p. failCount (f p) = failCount p) \<Longrightarrow> gSvrId2ProducerState d' = om_modify j f (gSvrId2ProducerState d) \<Longrightarrow>
    failures_of d' k = failures_of d k"
  by (simp add: failures_of_def om.find_modify split: option.splits)

lemma failures_register:
  assumes "daemon_ok d" and "k \<noteq> register_id (env_random env) d"
  shows "failures_of (snd (ClientRegister sp req env d)) k = failures_of d k"
  using assms(2) daemon_ok_tables [OF assms(1)]
  by (simp add: ClientRegister_def Let_def failures_Rebalance om.ok_assign)
    (simp add: failures_of_def om.find_assign)

lemma failures_sweep: "failures_of (CheckProcAlive_pass now d) k = 0"
  by (simp add: failures_of_def CheckProcAlive_pass_def map_of_reset split: option.splits)

lemma failures_decrease: "failures_of (DecreaseProducerTask j d) k = failures_of d k"
proof (cases "prod_of d j")
  case None
  then show ?thesis by (intro failures_frame) (simp add: DecreaseProducerTask_eq)
next
  case (Some p)
  then show ?thesis
    by (intro failures_modify [where j = j and f = "\<lambda>q. q\<lparr>curTaskCount := curTaskCount p - 1\<rparr>"])
      (simp_all add: DecreaseProducerTask_eq)
qed

text \<open>The circuit breaker counts for its server only, and removes nobody up to the limit.\<close>

lemma failures_breaker_other:
  assumes "daemon_ok d" and "j \<noteq> k"
  shows "failures_of (circuit_breaker j d) k = failures_of d k"
    and "members_of (circuit_breaker j d) k = members_of d k"
proof -
  note ok = daemon_ok_tables [OF assms(1)]
  show "failures_of (circuit_breaker j d) k = failures_of d k"
    using ok assms(2)
    by (simp add: circuit_breaker_eq failures_Rebalance drop_producer_def om.ok_erase split: option.splits)
      (simp add: failures_of_def om.find_erase om.find_modify)
  show "members_of (circuit_breaker j d) k = members_of d k"
    using members_breaker [of j d] assms(2) by auto
qed

lemma failures_breaker:
  assumes "failures_of d k < 50"
  shows "failures_of (circuit_breaker k d) k \<le> Suc (failures_of d k)"
    and "members_of (circuit_breaker k d) = members_of d"
proof -
  have "failures_of (circuit_breaker k d) k \<le> Suc (failures_of d k) \<and>
    members_of (circuit_breaker k d) = members_of d"
  proof (cases "prod_of d k")
    case None
    then show ?thesis by (simp add: circuit_breaker_eq)
  next
    case (Some p)
    with assms have f: "unat (failCount p) < 50" by (simp add: failures_of_def)
    then have s: "unat (failCount p + 1) = Suc (unat (failCount p))"
      by (simp add: unat_word_ariths)
    with f have "failCount p + 1 \<le> FAIL_COUNT_LIMIT"
      by (simp add: word_le_nat_alt FAIL_COUNT_LIMIT_def)
    with Some have e: "circuit_breaker k d = d\<lparr>gSvrId2ProducerState :=
        om_modify k (\<lambda>p. p\<lparr>failCount := failCount p + 1\<rparr>) (gSvrId2ProducerState d)\<rparr>"
      by (rule breaker_counts)
    show ?thesis
      unfolding e using Some s by (simp add: failures_of_def om.find_modify members_of_def)
  qed
  then show "failures_of (circuit_breaker k d) k \<le> Suc (failures_of d k)"
    "members_of (circuit_breaker k d) = members_of d" by simp_all
qed

section \<open>As long as the judge is content, the server is registered\<close>

definition in_favour :: "u64 \<Rightarrow> member \<Rightarrow> watched \<Rightarrow> system \<Rightarrow> bool" where
  "in_favour k m w s \<longleftrightarrow> members_of (tables s) k = Some (m\<lparr>last_seen := beat_at w\<rparr>) \<and>
     failures_of (tables s) k \<le> failures w"

lemma in_favour_frame:
  assumes "in_favour k m w s" and "members_of (tables s') k = members_of (tables s) k"
    and "failures_of (tables s') k = failures_of (tables s) k"
  shows "in_favour k m w s'"
  using assms by (simp add: in_favour_def)

lemma select_turn_favour:
  assumes "daemon_ok (tables s)" and "select_turn draw who r cur s = Inr s'"
  shows "members_of (tables s') = members_of (tables s)" and "failures_of (tables s') k = failures_of (tables s) k"
proof -
  from assms(2) have "members_of (tables s') = members_of (tables s) \<and> failures_of (tables s') k = failures_of (tables s) k"
  proof (cases rule: select_turn_cases)
    case leave
    then show ?thesis by simp
  next
    case (wait d)
    with select_step_None [OF assms(1) wait(2)] show ?thesis by simp
  next
    case (send call d)
    note c = select_step_call [OF assms(1) send(2)]
    have "failures_of d k = failures_of (tables s) k" by (rule failures_modify [OF _ c(4)]) simp
    with send(3) members_of_frame [OF c(5)] show ?thesis by simp
  qed
  then show "members_of (tables s') = members_of (tables s)" "failures_of (tables s') k = failures_of (tables s) k"
    by simp_all
qed

lemma register_favour:
  assumes ok: "daemon_ok (tables s)" and no_top: "- 1 \<notin> dom (info_of (tables s))" and fav: "in_favour k m w s"
  shows "in_favour k m w (s\<lparr>tables := snd (ClientRegister sp req env (tables s))\<rparr>)"
proof -
  from fav have "k \<in> dom (info_of (tables s))" by (auto simp: in_favour_def members_of_def)
  then have k: "k \<noteq> register_id (env_random env) (tables s)"
    using register_id_greatest [OF daemon_ok_tables(1) [OF ok] no_top] by blast
  obtain l where "explains sp (Register req env) l"
    "member_step l (members_of (tables s)) (members_of (snd (ClientRegister sp req env (tables s))))"
    using members_register [OF ok no_top] by blast
  then have "members_of (snd (ClientRegister sp req env (tables s))) k = members_of (tables s) k"
    using fav by (fastforce simp: in_favour_def)
  then show ?thesis
    by (intro in_favour_frame [OF fav]) (simp_all add: failures_register [OF ok k])
qed

lemma step_favour:
  assumes st: "sys_step sp ev s s'" and ok: "daemon_ok (tables s)" and no_top: "- 1 \<notin> dom (info_of (tables s))"
    and fav: "in_favour k m w s" and w: "watch_event k ev w = Some w'"
  shows "in_favour k m w' s'"
  using st
proof (cases rule: sys_step.cases)
  case (register req env)
  with register_favour [OF ok no_top fav] w show ?thesis by simp
next
  case (load junk lreq)
  have "failures_of (snd (LoadBalance junk lreq (tables s))) k = failures_of (tables s) k"
    by (rule failures_frame) (simp add: LoadBalance_def split: option.splits)
  with load w in_favour_frame [OF fav, of s'] show ?thesis by (simp add: members_load)
next
  case (beat now j)
  have "failures_of (snd (HeartBeat now j (tables s))) k = failures_of (tables s) k"
    by (rule failures_frame) (simp add: HeartBeat_def split: option.splits)
  with beat w fav members_beat [of j now "tables s"] show ?thesis by (auto simp: in_favour_def)
next
  case (sweep now)
  from sweep(1) w have "now - beat_at w \<le> 10" "w' = w\<lparr>failures := 0\<rparr>" by (auto split: if_splits)
  with sweep(2) fav members_sweep [OF ok, of now] show ?thesis
    by (simp add: in_favour_def failures_sweep ALIVE_DURATION_def)
next
  case timer
  have "members_of (Rebalance (tables s)) = members_of (tables s)" by (rule members_of_frame) simp
  with timer w in_favour_frame [OF fav, of s'] daemon_ok_tables [OF ok] show ?thesis
    by (simp add: failures_Rebalance)
next
  case (begin_push r)
  with w in_favour_frame [OF fav, of s'] show ?thesis by simp
next
  case (select who r cur draw)
  have "w' = w" using w select(1) by simp
  with in_favour_frame [OF fav, of s'] select_turn_favour [OF _ select(4)] ok show ?thesis by simp
next
  case (complete c ok' st' err)
  from complete(3) show ?thesis
  proof (cases rule: HandleAsyncCall_cases)
    case response
    with complete(1) w have "w' = w" by simp
    with in_favour_frame [OF fav, of s'] response show ?thesis by (simp add: failures_decrease)
  next
    case fail
    show ?thesis
    proof (cases "call_svrId c = k")
      case True
      with w complete(1) fail(2) have "failures w < 50" "w' = w\<lparr>failures := Suc (failures w)\<rparr>"
        by (auto split: if_splits)
      with fav fail True failures_breaker [of "tables s" k] show ?thesis by (auto simp: in_favour_def)
    next
      case False
      with w complete(1) have "w' = w" by simp
      with in_favour_frame [OF fav, of s'] fail failures_breaker_other [OF ok False] show ?thesis by simp
    qed
  qed
next
  case (resume c)
  with w in_favour_frame [OF fav, of s'] show ?thesis by (simp add: failures_decrease)
qed

abbreviation top_id_free :: "event \<Rightarrow> system \<Rightarrow> bool" where
  "top_id_free \<equiv> \<lambda>_ s. - 1 \<notin> dom (info_of (tables s))"

text \<open>
  As an invariant of the runs that go on from a given state; the run up to that state is a run
  of the daemon.
\<close>

lemma judge_invariant:
  assumes "daemon_ok (tables s0)" and "in_favour k m w s0"
  shows "trace_invariant (sys_step sp) s0 top_id_free
    (\<lambda>evs s. daemon_ok (tables s) \<and> (\<forall>w'. watch k evs w = Some w' \<longrightarrow> in_favour k m w' s))"
  using assms by unfold_locales (auto simp: watch_snoc bind_eq_Some_conv intro: step_daemon_ok step_favour)

lemmas judged = trace_invariant.inv_run [OF judge_invariant]

lemma silent_removed:
  assumes "daemon_ok d" and "members_of d k = Some m" and "now - last_seen m > 10"
  shows "members_of (CheckProcAlive_pass now d) k = None"
  using assms members_sweep [OF assms(1), of now] by (simp add: ALIVE_DURATION_def)

text \<open>
  C8: heart beats keep a server registered. From any state of the daemon in which the server is
  registered, and whatever the other servers, pushes and threads do, it stays registered under
  its id, name and address as long as each pass of the liveness thread comes at most ten seconds after
  its last heart beat and at most 50 calls to it fail between two passes. The first pass that
  comes later removes it.
\<close>

theorem heart_beats_keep_alive:
  assumes "run sp top_id_free before s0" and "traces (sys_step sp) s0 top_id_free evs s"
    and "members_of (tables s0) k = Some m"
    and "watch k evs (watch_start (tables s0) k m) = Some w"
  shows "members_of (tables s) k = Some (m\<lparr>last_seen := beat_at w\<rparr>) \<and>
    (\<forall>now s'. sys_step sp (Sweep now) s s' \<longrightarrow>
       members_of (tables s') k = (if now - beat_at w > 10 then None else Some (m\<lparr>last_seen := beat_at w\<rparr>)))"
proof -
  have ok: "daemon_ok (tables s0)" by (rule ok_inv.inv_run [OF assms(1)])
  have "in_favour k m (watch_start (tables s0) k m) s0"
    using assms(3) by (simp add: in_favour_def watch_start_def)
  from judged [OF ok this assms(2)] assms(4)
  have s: "daemon_ok (tables s)" "members_of (tables s) k = Some (m\<lparr>last_seen := beat_at w\<rparr>)"
    by (auto simp: in_favour_def)
  have "members_of (tables s') k = (if now - beat_at w > 10 then None else Some (m\<lparr>last_seen := beat_at w\<rparr>))"
    if "sys_step sp (Sweep now) s s'" for now s'
    using that s(2) members_sweep [OF s(1), of now] by (elim sys_step_elims) (simp add: ALIVE_DURATION_def)
  with s(2) show ?thesis by blast
qed

text \<open>
  Two producers; the second beats and fails once, the first is silent: after twenty seconds only
  the second is there, and a pass after 26 seconds removes it too.
\<close>

definition alive_events :: "event list" where
  "alive_events = [Beat 8 6, Sweep 9, Complete (demo_call 6 4096) True False ERR, Beat 15 6, Sweep 20]"

definition alive_state :: system where
  "alive_state = (case exec_events split_colon any_event alive_events demo_state of Some s \<Rightarrow> s | None \<Rightarrow> system_init)"

theorem heart_beats_keep_alive_witness:
  "members_of (tables alive_state) 6 = Some \<lparr>member_address = ''10.0.0.1:50053'', member_name = ''producer'', last_seen = 15\<rparr> \<and>
    members_of (tables alive_state) 5 = None \<and>
    (\<exists>s'. sys_step split_colon (Sweep 26) alive_state s' \<and> members_of (tables s') 6 = None)"
proof -
  let ?G = "\<lambda>_ s. - 1 \<notin> set (map fst (gSvrId2SvrInfo (tables s)))"
  let ?m = "\<lparr>member_address = ''10.0.0.1:50053'', member_name = ''producer'', last_seen = 0\<rparr>"
  have "exec_events split_colon ?G demo_events system_init = Some demo_state"
    by code_simp
  then have 1: "run split_colon top_id_free demo_events demo_state" by (simp add: om_dom exec_run)
  have e: "exec_events split_colon ?G alive_events demo_state = Some alive_state"
    by code_simp
  from exec_events_run [OF run_start e]
  have 2: "traces (sys_step split_colon) demo_state top_id_free alive_events alive_state" by (simp add: om_dom)
  have 3: "members_of (tables demo_state) 6 = Some ?m" by code_simp
  have 4: "watch 6 alive_events (watch_start (tables demo_state) 6 ?m) = Some \<lparr>beat_at = 15, failures = 0\<rparr>"
    by code_simp
  have 5: "members_of (tables alive_state) 5 = None" by code_simp
  have "sys_step split_colon (Sweep 26) alive_state (alive_state\<lparr>tables := CheckProcAlive_pass 26 (tables alive_state)\<rparr>)"
    by (rule sweep)
  with heart_beats_keep_alive [OF 1 2 3 4] 5 show ?thesis by fastforce
qed

end
