(* ===== verification/Network.thy ===== *)
theory Network
  imports DaemonInvariants ProducerInvariants
begin

text \<open>
  The daemon, the producer processes and the RPCs between them as one step relation. Nothing of
  the two models changes: a call that the daemon started travels, is served by an object of a
  process, and its reply travels back, or it breaks at any of these stages. On the side of the
  daemon the completions are those that \<^verbatim>\<open>common::AsyncCompleteRpc\<close> takes out of its queue.
\<close>

section \<open>State\<close>

text \<open>The stages of an RPC of the daemon; objects are numbered within their process.\<close>

datatype rpc =
    Travelling async_call
  | Serving async_call nat nat
  | Replied async_call err_code

fun rpc_call :: "rpc \<Rightarrow> async_call" where
  "rpc_call (Travelling c) = c"
| "rpc_call (Serving c p n) = c"
| "rpc_call (Replied c err) = c"

definition serves_object :: "nat \<Rightarrow> nat \<Rightarrow> rpc \<Rightarrow> bool" where
  "serves_object p n w = (case w of Serving _ p' n' \<Rightarrow> p' = p \<and> n' = n | _ \<Rightarrow> False)"

text \<open>The processes are numbered; each has its connection to Redis.\<close>

record 'w network =
  net_daemon :: system
  net_producers :: "nat \<Rightarrow> 'w producer_sys"
  wire :: "rpc multiset"

definition network_init :: "(nat \<Rightarrow> redis_handler \<times> 'w) \<Rightarrow> 'w network" where
  "network_init r = \<lparr>net_daemon = system_init, net_producers = (\<lambda>p. producer_init (r p)), wire = {#}\<rparr>"

fun is_call :: "task \<Rightarrow> bool" where
  "is_call (InFlight c) = True"
| "is_call _ = False"

fun task_call :: "task \<Rightarrow> async_call" where
  "task_call (Selecting who r cur) = \<lparr>call_svrId = 0, call_request = r\<rparr>"
| "task_call (InFlight c) = c"
| "task_call (FailedCall c) = c"

definition calls_of :: "system \<Rightarrow> async_call multiset" where
  "calls_of s = image_mset task_call (filter_mset is_call (tasks s))"

section \<open>Steps\<close>

datatype net_event =
    Local event
  | Arrive async_call nat nat "u64 list option"
  | Work nat producer_event
  | Depart async_call nat nat err_code
  | Deliver async_call err_code
  | Break rpc

fun is_complete :: "event \<Rightarrow> bool" where
  "is_complete (Complete c ok st err) = True"
| "is_complete _ = False"

text \<open>What a process does on its own; the reply of an object is done when it has left.\<close>

definition works :: "nat \<Rightarrow> producer_event \<Rightarrow> rpc multiset \<Rightarrow> bool" where
  "works p ev W = (case ev of Request _ _ _ \<Rightarrow> False
     | ReplyDone n \<Rightarrow> (\<forall>w \<in># W. \<not> serves_object p n w) | _ \<Rightarrow> True)"

text \<open>The calls that a step of the daemon starts set out.\<close>

definition with_daemon :: "system \<Rightarrow> 'w network \<Rightarrow> 'w network" where
  "with_daemon d s = s\<lparr>net_daemon := d, wire := wire s + image_mset Travelling (calls_of d - calls_of (net_daemon s))\<rparr>"

definition with_producer :: "nat \<Rightarrow> 'w producer_sys \<Rightarrow> 'w network \<Rightarrow> 'w network" where
  "with_producer p t s = s\<lparr>net_producers := (net_producers s)(p := t)\<rparr>"

definition change_rpc :: "rpc \<Rightarrow> rpc \<Rightarrow> 'w network \<Rightarrow> 'w network" where
  "change_rpc w w' s = s\<lparr>wire := add_mset w' (wire s - {#w#})\<rparr>"

definition end_rpc :: "rpc \<Rightarrow> system \<Rightarrow> 'w network \<Rightarrow> 'w network" where
  "end_rpc w d s = s\<lparr>net_daemon := d, wire := wire s - {#w#}\<rparr>"

inductive net_step ::
  "(string \<Rightarrow> string list) \<Rightarrow> 'w hiredis \<Rightarrow> (u64 \<Rightarrow> u32 \<Rightarrow> string) \<Rightarrow> net_event \<Rightarrow> 'w network \<Rightarrow> 'w network \<Rightarrow> bool"
  for sp cl ser where
  local_event: "\<not> is_complete ev \<Longrightarrow> sys_step sp ev (net_daemon s) d \<Longrightarrow>
    net_step sp cl ser (Local ev) s (with_daemon d s)"
| arrive: "Travelling c \<in># wire s \<Longrightarrow>
    producer_step cl ser (Request n (call_request c) res) (net_producers s p) t \<Longrightarrow>
    net_step sp cl ser (Arrive c p n res) s (change_rpc (Travelling c) (Serving c p n) (with_producer p t s))"
| work: "works p ev (wire s) \<Longrightarrow> producer_step cl ser ev (net_producers s p) t \<Longrightarrow>
    net_step sp cl ser (Work p ev) s (with_producer p t s)"
| depart: "Serving c p n \<in># wire s \<Longrightarrow> jobs (net_producers s p) n = Some j \<Longrightarrow> job_reply j = Some err \<Longrightarrow>
    net_step sp cl ser (Depart c p n err) s (change_rpc (Serving c p n) (Replied c err) s)"
| deliver: "Replied c err \<in># wire s \<Longrightarrow> sys_step sp (Complete c True True err) (net_daemon s) d \<Longrightarrow>
    net_step sp cl ser (Deliver c err) s (end_rpc (Replied c err) d s)"
| break: "w \<in># wire s \<Longrightarrow> sys_step sp (Complete (rpc_call w) True False ERR) (net_daemon s) d \<Longrightarrow>
    net_step sp cl ser (Break w) s (end_rpc w d s)"

inductive_cases net_step_elims:
  "net_step sp cl ser (Local ev) s s'" "net_step sp cl ser (Arrive c p n res) s s'"
  "net_step sp cl ser (Work p ev') s s'" "net_step sp cl ser (Depart c p n err) s s'"
  "net_step sp cl ser (Deliver c err) s s'" "net_step sp cl ser (Break w) s s'"

definition exec_net ::
  "(string \<Rightarrow> string list) \<Rightarrow> 'w hiredis \<Rightarrow> (u64 \<Rightarrow> u32 \<Rightarrow> string) \<Rightarrow> net_event \<Rightarrow> 'w network \<Rightarrow> 'w network option" where
  "exec_net sp cl ser ev s =
     (case ev of
        Local dev \<Rightarrow>
          if is_complete dev then None
          else map_option (\<lambda>d. with_daemon d s) (exec_event sp dev (net_daemon s))
      | Arrive c p n res \<Rightarrow>
          if Travelling c \<in># wire s then
            map_option (\<lambda>t. change_rpc (Travelling c) (Serving c p n) (with_producer p t s))
              (exec_producer cl ser (Request n (call_request c) res) (net_producers s p))
          else None
      | Work p pev \<Rightarrow>
          if works p pev (wire s) then
            map_option (\<lambda>t. with_producer p t s) (exec_producer cl ser pev (net_producers s p))
          else None
      | Depart c p n err \<Rightarrow>
          if Serving c p n \<in># wire s then
            (case jobs (net_producers s p) n of None \<Rightarrow> None
             | Some j \<Rightarrow> if job_reply j = Some err then Some (change_rpc (Serving c p n) (Replied c err) s) else None)
          else None
      | Deliver c err \<Rightarrow>
          if Replied c err \<in># wire s then
            map_option (\<lambda>d. end_rpc (Replied c err) d s) (exec_event sp (Complete c True True err) (net_daemon s))
          else None
      | Break w \<Rightarrow>
          if w \<in># wire s then
            map_option (\<lambda>d. end_rpc w d s) (exec_event sp (Complete (rpc_call w) True False ERR) (net_daemon s))
          else None)"

lemma exec_net_iff: "exec_net sp cl ser ev s = Some s' \<longleftrightarrow> net_step sp cl ser ev s s'"
  by (cases ev) (auto simp: exec_net_def exec_event_iff exec_producer_iff
      intro: net_step.intros elim!: net_step_elims split: if_splits option.splits)

interpretation net_exec: executable_steps "net_step sp cl ser" "exec_net sp cl ser" for sp cl ser
  by unfold_locales (rule exec_net_iff)

section \<open>The two sides of a run\<close>

fun daemon_side :: "net_event \<Rightarrow> event list" where
  "daemon_side (Local ev) = [ev]"
| "daemon_side (Deliver c err) = [Complete c True True err]"
| "daemon_side (Break w) = [Complete (rpc_call w) True False ERR]"
| "daemon_side _ = []"

fun producer_side :: "nat \<Rightarrow> net_event \<Rightarrow> producer_event list" where
  "producer_side p (Arrive c p' n res) = (if p' = p then [Request n (call_request c) res] else [])"
| "producer_side p (Work p' ev) = (if p' = p then [ev] else [])"
| "producer_side p _ = []"

definition daemon_events :: "net_event list \<Rightarrow> event list" where
  "daemon_events evs = concat (map daemon_side evs)"

definition producer_events :: "nat \<Rightarrow> net_event list \<Rightarrow> producer_event list" where
  "producer_events p evs = concat (map (producer_side p) evs)"

lemma daemon_events_simps [simp]:
  "daemon_events [] = []" "daemon_events (evs @ evs') = daemon_events evs @ daemon_events evs'"
  "daemon_events [ev] = daemon_side ev"
  by (simp_all add: daemon_events_def)

lemma producer_events_simps [simp]:
  "producer_events p [] = []" "producer_events p (evs @ evs') = producer_events p evs @ producer_events p evs'"
  "producer_events p [ev] = producer_side p ev"
  by (simp_all add: producer_events_def)

lemma network_simps [simp]:
  "net_daemon (with_daemon d s) = d" "net_producers (with_daemon d s) = net_producers s"
  "net_daemon (with_producer p t s) = net_daemon s" "net_producers (with_producer p t s) = (net_producers s)(p := t)"
  "wire (with_producer p t s) = wire s"
  "net_daemon (change_rpc w w' s) = net_daemon s" "net_producers (change_rpc w w' s) = net_producers s"
  "wire (change_rpc w w' s) = add_mset w' (wire s - {#w#})"
  "net_daemon (end_rpc w d s) = d" "net_producers (end_rpc w d s) = net_producers s"
  "wire (end_rpc w d s) = wire s - {#w#}"
  by (simp_all add: with_daemon_def with_producer_def change_rpc_def end_rpc_def)

section \<open>The calls of the daemon\<close>

lemma calls_of_frame: "tasks s' = tasks s \<Longrightarrow> calls_of s' = calls_of s"
  by (simp add: calls_of_def)

lemma calls_of_add:
  "tasks s' = add_mset t M \<Longrightarrow> calls_of s' = (if is_call t then {#task_call t#} else {#}) +
     image_mset task_call (filter_mset is_call M)"
  by (simp add: calls_of_def)

lemma calls_of_remove:
  assumes "t \<in># tasks s"
  shows "calls_of s = (if is_call t then {#task_call t#} else {#}) +
    image_mset task_call (filter_mset is_call (tasks s - {#t#}))"
proof -
  have "tasks s = add_mset t (tasks s - {#t#})" using assms by simp
  then show ?thesis by (rule calls_of_add)
qed

text \<open>A completion ends its call; every other step keeps the calls there are.\<close>

lemma calls_complete:
  assumes "sys_step sp (Complete c ok st err) d d'"
  shows "calls_of d = add_mset c (calls_of d')"
  using assms
proof (cases rule: sys_step.cases)
  case complete
  from complete(2) show ?thesis
    unfolding calls_of_remove [OF complete(1)] by (cases rule: HandleAsyncCall_cases) (simp_all add: calls_of_def)
qed

lemma calls_local:
  assumes "sys_step sp ev d d'" and "\<not> is_complete ev" and ok: "daemon_ok (tables d)"
  shows "calls_of d \<subseteq># calls_of d'"
  using assms(1)
proof (cases rule: sys_step.cases)
  case (select who r cur draw)
  note before = calls_of_remove [OF select(2)]
  from select(4) show ?thesis
    by (cases rule: select_turn_cases) (simp_all add: before calls_of_def subset_mset.add_increasing)
next
  case (resume c)
  then show ?thesis by (simp add: calls_of_remove [OF resume(3)] calls_of_def)
qed (use assms(2) in \<open>auto simp: calls_of_def SelectProducerAndSend_def\<close>)

end
