(* ===== verification/Readers.thy ===== *)
theory Readers
  imports ProduceFacts
begin

text \<open>
  \<^verbatim>\<open>ProduceMsg\<close> reads the bitmap by up to four commands, and \<^verbatim>\<open>redisMtx\<close> locks out only the threads
  of its own process: between two commands other producers may do theirs. Here the function is a
  sequence of commands, equal to the one of \<open>Produce\<close>, and reads the right bytes whatever the other
  producers do in between.
\<close>

unbundle bit_operations_syntax

section \<open>The commands of a reader, one by one\<close>

datatype redis_step = DoExists | DoBitop | DoExpire | DoGetrange

text \<open>Where a thread is in \<^verbatim>\<open>ProduceMsg\<close>: before a command, or done, with \<open>None\<close> for \<^verbatim>\<open>common::ERR\<close>.\<close>

datatype position = At redis_step | Finished "bytes option" | Undefined ub

fun reader_command :: "u64 \<Rightarrow> u64 \<Rightarrow> redis_step \<Rightarrow> redis_cmd" where
  "reader_command startUid endUid DoExists = EXISTS TMP_USER_INFO_KEY"
| "reader_command startUid endUid DoBitop = BITOP_AND TMP_USER_INFO_KEY (genReleaseKey (USER_INFO_KEY ! 0))
     (genReleaseKey (USER_INFO_KEY ! 1)) (genReleaseKey (USER_INFO_KEY ! 2))"
| "reader_command startUid endUid DoExpire = EXPIRE TMP_USER_INFO_KEY (unat (30 * SECONDS_PER_MINUTE))"
| "reader_command startUid endUid DoGetrange =
     GETRANGE TMP_USER_INFO_KEY (unat (startUid div 8)) (unat (endUid div 8))"

fun reader_next :: "u64 \<Rightarrow> u64 \<Rightarrow> redis_step \<Rightarrow> redis_reply option \<Rightarrow> position" where
  "reader_next startUid endUid k None = Finished None"
| "reader_next startUid endUid DoExists (Some r) = At (if reply_integer r = 0 then DoBitop else DoGetrange)"
| "reader_next startUid endUid DoBitop (Some r) = (if reply_integer r \<le> 0 then Finished None else At DoExpire)"
| "reader_next startUid endUid DoExpire (Some r) = (if reply_integer r = 0 then Finished None else At DoGetrange)"
| "reader_next startUid endUid DoGetrange (Some r) =
     (case copy_string (reply_str r) (user_info_len startUid endUid) of
        Inl e \<Rightarrow> Undefined e | Inr b \<Rightarrow> Finished (Some b))"

fun commands_left :: "position \<Rightarrow> nat" where
  "commands_left (At DoExists) = 4"
| "commands_left (At DoBitop) = 3"
| "commands_left (At DoExpire) = 2"
| "commands_left (At DoGetrange) = 1"
| "commands_left _ = 0"

lemma commands_left_next: "commands_left (reader_next startUid endUid k r) < commands_left (At k)"
  by (cases k; cases r) (simp_all split: sum.splits)

text \<open>On the error paths the reply is not freed.\<close>

function read_from ::
  "'w hiredis \<Rightarrow> u64 \<Rightarrow> u64 \<Rightarrow> position \<Rightarrow> redis_handler \<times> 'w \<Rightarrow> (bytes option \<times> redis_handler \<times> 'w) ub_or" where
  "read_from cl startUid endUid (At k) s =
     (case RedisHandler_command cl (redis_line (reader_command startUid endUid k))
         (redis_value (reader_command startUid endUid k)) s of
        Inl e \<Rightarrow> Inl e
      | Inr (r, s1) \<Rightarrow>
          let p = reader_next startUid endUid k r
          in read_from cl startUid endUid p (if p = Finished None then s1 else freeReply s1))"
| "read_from cl startUid endUid (Finished b) s = Inr (b, s)"
| "read_from cl startUid endUid (Undefined e) s = Inl e"
  by pat_completeness auto

termination
  by (relation "measure (\<lambda>(cl, startUid, endUid, p, s). commands_left p)") (simp_all add: commands_left_next)

text \<open>The sequence of commands is the function.\<close>

lemma ub_or_cases:
  obtains (bad) e where "f = Inl e" | (err) s where "f = Inr (None, s)" | (reply) a s where "f = Inr (Some a, s)"
  using that by (cases f) (auto, metis option.exhaust)

lemma read_from_getrange:
  "read_from cl startUid endUid (At DoGetrange) s =
     (case RedisHandler_command cl (''GETRANGE '' @ TMP_USER_INFO_KEY @ '' ''
           @ show_nat (unat (startUid div 8)) @ '' '' @ show_nat (unat (endUid div 8))) None s of
        Inl e \<Rightarrow> Inl e
      | Inr (None, s2) \<Rightarrow> Inr (None, s2)
      | Inr (Some r, s2) \<Rightarrow>
          (case copy_string (reply_str r) (user_info_len startUid endUid) of
             Inl e \<Rightarrow> Inl e | Inr b \<Rightarrow> Inr (Some b, freeReply s2)))"
  by (rule ub_or_cases [of "RedisHandler_command cl (redis_line (reader_command startUid endUid DoGetrange)) None s"])
    (simp_all split: sum.splits)

lemma read_from_ensure:
  assumes "k \<noteq> DoGetrange"
  shows "read_from cl startUid endUid (At k) s =
    (case RedisHandler_command cl (redis_line (reader_command startUid endUid k)) None s of
       Inl e \<Rightarrow> Inl e
     | Inr (None, s1) \<Rightarrow> Inr (None, s1)
     | Inr (Some r, s1) \<Rightarrow> (case reader_next startUid endUid k (Some r) of
         At j \<Rightarrow> read_from cl startUid endUid (At j) (freeReply s1) | _ \<Rightarrow> Inr (None, s1)))"
proof -
  have v: "redis_value (reader_command startUid endUid k) = None" by (cases k) simp_all
  show ?thesis
  proof (rule ub_or_cases [of "RedisHandler_command cl (redis_line (reader_command startUid endUid k)) None s"])
    fix a s1 assume "RedisHandler_command cl (redis_line (reader_command startUid endUid k)) None s = Inr (Some a, s1)"
    then show ?thesis using assms by (cases k) (simp_all add: v Let_def)
  qed (simp_all add: v)
qed

declare read_from.simps(1) [simp del]

lemma read_user_info_getrange:
  "read_user_info cl startUid endUid s =
     (case ensure_user_info cl s of
        Inl e \<Rightarrow> Inl e
      | Inr (False, s1) \<Rightarrow> Inr (None, s1)
      | Inr (True, s1) \<Rightarrow> read_from cl startUid endUid (At DoGetrange) s1)"
  by (simp only: read_user_info_def read_from_getrange)

lemma read_user_info_from:
  "read_user_info cl startUid endUid s = read_from cl startUid endUid (At DoExists) s"
proof (rule ub_or_cases [of "RedisHandler_command cl (redis_line (reader_command startUid endUid DoExists)) None s"])
  note unfold = read_user_info_getrange ensure_user_info_def read_from_ensure
  fix a s1 assume 1: "RedisHandler_command cl (redis_line (reader_command startUid endUid DoExists)) None s = Inr (Some a, s1)"
  let ?c2 = "RedisHandler_command cl (redis_line (reader_command startUid endUid DoBitop)) None (freeReply s1)"
  show ?thesis
  proof (cases "reply_integer a = 0")
    case z: True
    show ?thesis
    proof (rule ub_or_cases [of ?c2])
      fix a2 s2 assume 2: "?c2 = Inr (Some a2, s2)"
      show ?thesis
        by (rule ub_or_cases [of "RedisHandler_command cl (redis_line (reader_command startUid endUid DoExpire)) None (freeReply s2)"])
          (use 1 2 z in \<open>simp_all add: unfold\<close>)
    qed (use 1 z in \<open>simp_all add: unfold\<close>)
  qed (use 1 in \<open>simp add: unfold\<close>)
qed (simp_all add: read_user_info_getrange ensure_user_info_def read_from_ensure)

section \<open>What the other producers may do\<close>

text \<open>
  They keep the released bitmaps, and the users' bitmap they only make, where there is none, out of
  the released ones.
\<close>

definition keeps_users :: "keyspace \<Rightarrow> keyspace \<Rightarrow> bool" where
  "keeps_users ks ks' \<longleftrightarrow> push_set ks' = push_set ks \<and>
     (ks' TMP_USER_INFO_KEY = ks TMP_USER_INFO_KEY \<or> ks' TMP_USER_INFO_KEY = with_user_info ks TMP_USER_INFO_KEY)"

lemma with_user_info_tmp:
  "with_user_info ks TMP_USER_INFO_KEY =
     (case ks TMP_USER_INFO_KEY of Some b \<Rightarrow> Some b | None \<Rightarrow> if push_set ks = [] then None else Some (push_set ks))"
  by (simp add: with_user_info_def store_def split: option.splits)

lemma keeps_users_refl [simp]: "keeps_users ks ks"
  by (simp add: keeps_users_def)

lemma keeps_users_tmp: "keeps_users ks ks' \<Longrightarrow> with_user_info ks' TMP_USER_INFO_KEY = with_user_info ks TMP_USER_INFO_KEY"
  by (auto simp: keeps_users_def with_user_info_tmp split: option.splits if_splits)

lemma keeps_users_trans: "keeps_users ks ks' \<Longrightarrow> keeps_users ks' ks'' \<Longrightarrow> keeps_users ks ks''"
  using keeps_users_tmp [of ks ks'] by (auto simp: keeps_users_def)

lemma push_set_tmp [simp]: "push_set (ks(TMP_USER_INFO_KEY := v)) = push_set ks"
  by (simp add: push_set_def content_def tmp_key_not_release)

section \<open>A reader among others\<close>

text \<open>
  \<open>reader_ok b ks\<close>: what the key space must be at each position for the bitmap \<open>b\<close> to be
  the one that is read.
\<close>

definition users_are :: "bytes \<Rightarrow> keyspace \<Rightarrow> bool" where
  "users_are b ks \<longleftrightarrow> b \<noteq> [] \<and> with_user_info ks TMP_USER_INFO_KEY = Some b"

fun reader_ok :: "bytes \<Rightarrow> keyspace \<Rightarrow> position \<Rightarrow> bool" where
  "reader_ok b ks (At DoBitop) \<longleftrightarrow> push_set ks = b"
| "reader_ok b ks (At DoExpire) \<longleftrightarrow> ks TMP_USER_INFO_KEY = Some b"
| "reader_ok b ks (At DoGetrange) \<longleftrightarrow> ks TMP_USER_INFO_KEY = Some b"
| "reader_ok b ks (Undefined e) \<longleftrightarrow> False"
| "reader_ok b ks _ \<longleftrightarrow> True"

lemma users_are_kept: "users_are b ks \<Longrightarrow> keeps_users ks ks' \<Longrightarrow> users_are b ks'"
  by (simp add: users_are_def keeps_users_tmp)

lemma reader_ok_kept: "reader_ok b ks p \<Longrightarrow> keeps_users ks ks' \<Longrightarrow> reader_ok b ks' p"
  by (cases "(b, ks, p)" rule: reader_ok.cases) (auto simp: keeps_users_def with_user_info_tmp)

text \<open>What a reader guarantees to the others: its commands are such interference.\<close>

lemma reader_guarantee:
  assumes "users_are b ks" and "reader_ok b ks (At k)"
  shows "keeps_users ks (redis_effect (reader_command startUid endUid k) ks)"
proof (cases k)
  case DoBitop
  then have "redis_effect (reader_command startUid endUid k) ks =
      (if push_set ks = [] then ks(TMP_USER_INFO_KEY := None) else ks(TMP_USER_INFO_KEY \<mapsto> push_set ks))"
    by (simp add: push_set_def store_def)
  with assms DoBitop show ?thesis
    by (auto simp: keeps_users_def users_are_def with_user_info_tmp split: option.splits if_splits)
qed simp_all

text \<open>And what it reaches when its command is answered.\<close>

definition right_bytes :: "bytes \<Rightarrow> u64 \<Rightarrow> u64 \<Rightarrow> bytes" where
  "right_bytes b startUid endUid = getrange (unat startUid div 8) (unat endUid div 8) b"

lemma reader_advances:
  assumes u: "users_are b ks" and p: "reader_ok b ks (At k)"
    and r: "startUid \<le> endUid" "unat endUid div 8 < length b"
  defines "c \<equiv> reader_command startUid endUid k"
  shows "reader_ok b (redis_effect c ks) (reader_next startUid endUid k (Some (redis_answer c ks)))"
    and "\<And>x. reader_next startUid endUid k (Some (redis_answer c ks)) = Finished x \<Longrightarrow> x = Some (right_bytes b startUid endUid)"
    and "reply_type (redis_answer c ks) \<noteq> REPLY_ERROR" and "set (redis_keys c) \<subseteq> set all_keys"
proof -
  have b: "b \<noteq> []" using r(2) by auto
  have push: "bitop (AND) (bitop (AND) (content ks (genReleaseKey (USER_INFO_KEY ! 0)))
      (content ks (genReleaseKey (USER_INFO_KEY ! 1)))) (content ks (genReleaseKey (USER_INFO_KEY ! 2))) = push_set ks"
    by (simp add: push_set_def)
  have "reader_ok b (redis_effect c ks) (reader_next startUid endUid k (Some (redis_answer c ks))) \<and>
    (\<forall>x. reader_next startUid endUid k (Some (redis_answer c ks)) = Finished x \<longrightarrow> x = Some (right_bytes b startUid endUid)) \<and>
    reply_type (redis_answer c ks) \<noteq> REPLY_ERROR \<and> set (redis_keys c) \<subseteq> set all_keys"
  proof (cases k)
    case DoExists
    with u b show ?thesis
      by (auto simp: c_def present_def users_are_def with_user_info_tmp split: option.splits if_splits)
  next
    case DoBitop
    with p b push show ?thesis by (simp add: c_def store_def content_def)
  next
    case DoExpire
    with p show ?thesis by (simp add: c_def present_def)
  next
    case DoGetrange
    with p have "content ks TMP_USER_INFO_KEY = b" by (simp add: content_def)
    with DoGetrange copy_inside [OF r] show ?thesis by (simp add: c_def right_bytes_def)
  qed
  then show "reader_ok b (redis_effect c ks) (reader_next startUid endUid k (Some (redis_answer c ks)))"
    "\<And>x. reader_next startUid endUid k (Some (redis_answer c ks)) = Finished x \<Longrightarrow> x = Some (right_bytes b startUid endUid)"
    "reply_type (redis_answer c ks) \<noteq> REPLY_ERROR" "set (redis_keys c) \<subseteq> set all_keys"
    by blast+
qed

section \<open>A Redis that other producers use as well\<close>

text \<open>Each command finds what the others made of the key space since the last one.\<close>

definition redis_shared :: "'w hiredis \<Rightarrow> ('w \<Rightarrow> keyspace) \<Rightarrow> ('w \<Rightarrow> bool) \<Rightarrow> bool" where
  "redis_shared cl db reachable \<longleftrightarrow> (\<forall>w c. reachable w \<longrightarrow> set (redis_keys c) \<subseteq> set all_keys \<longrightarrow>
     (\<exists>ks w'. keeps_users (db w) ks \<and>
        redisCommand cl (redis_line c) (redis_value c) w = (Some (redis_answer c ks), w') \<and>
        reachable w' \<and> db w' = redis_effect c ks))"

lemma documented_shared: "redis_documented cl db up \<Longrightarrow> redis_shared cl db up"
  unfolding redis_documented_def redis_shared_def by (meson keeps_users_refl)

lemma shared_command:
  assumes "redis_shared cl db up" and "up (snd s)" and "context_set (fst s)"
    and "set (redis_keys c) \<subseteq> set all_keys" and ok: "\<And>ks. keeps_users (db (snd s)) ks \<Longrightarrow> reply_type (redis_answer c ks) \<noteq> REPLY_ERROR"
  obtains ks s' where "keeps_users (db (snd s)) ks"
    "RedisHandler_command cl (redis_line c) (redis_value c) s = Inr (Some (redis_answer c ks), s')"
    "context_set (fst s')" "up (snd s')" "db (snd s') = redis_effect c ks"
proof -
  obtain h w where s: "s = (h, w)" by (cases s)
  obtain ks w' where w': "keeps_users (db w) ks"
    "redisCommand cl (redis_line c) (redis_value c) w = (Some (redis_answer c ks), w')"
    "up w'" "db w' = redis_effect c ks"
    using assms(1,2,4) unfolding redis_shared_def s by fastforce
  have "context_set h" using assms(3) by (simp add: s)
  from command_prompt [OF this w'(2)] ok w' this show thesis by (intro that) (auto simp: s)
qed

definition shares :: "('w \<Rightarrow> keyspace) \<Rightarrow> ('w \<Rightarrow> bool) \<Rightarrow> keyspace \<Rightarrow> redis_handler \<times> 'w \<Rightarrow> bool" where
  "shares db up ks s \<longleftrightarrow> context_set (fst s) \<and> up (snd s) \<and> keeps_users ks (db (snd s))"

lemma shares_free [simp]: "shares db up ks (freeReply s) = shares db up ks s"
  by (simp add: shares_def freeReply_def split: prod.splits)

lemma read_from_shared:
  assumes sh: "redis_shared cl db up" and u: "users_are b ks"
    and r: "startUid \<le> endUid" "unat endUid div 8 < length b"
  shows "shares db up ks s \<Longrightarrow> reader_ok b (db (snd s)) p \<Longrightarrow>
    (\<forall>x. p = Finished x \<longrightarrow> x = Some (right_bytes b startUid endUid)) \<Longrightarrow>
    \<exists>s'. read_from cl startUid endUid p s = Inr (Some (right_bytes b startUid endUid), s') \<and> shares db up ks s'"
proof (induction "commands_left p" arbitrary: p s rule: less_induct)
  case less
  show ?case
  proof (cases p)
    case (At k)
    let ?c = "reader_command startUid endUid k"
    note now = less.prems(1) [unfolded shares_def]
    have ub: "users_are b (db (snd s))" using u now by (blast intro: users_are_kept)
    have ok: "users_are b ks' \<and> reader_ok b ks' (At k)" if "keeps_users (db (snd s)) ks'" for ks'
      using that ub less.prems(2) At by (blast intro: users_are_kept reader_ok_kept)
    have keys: "set (redis_keys ?c) \<subseteq> set all_keys" using reader_advances(4) [OF _ _ r] ok [OF keeps_users_refl] by blast
    obtain ks' s1 where s1: "keeps_users (db (snd s)) ks'"
      "RedisHandler_command cl (redis_line ?c) (redis_value ?c) s = Inr (Some (redis_answer ?c ks'), s1)"
      "context_set (fst s1)" "up (snd s1)" "db (snd s1) = redis_effect ?c ks'"
      using shared_command [OF sh _ _ keys] now ok reader_advances(3) r by metis
    let ?p = "reader_next startUid endUid k (Some (redis_answer ?c ks'))"
    note adv = reader_advances [of b ks' k, OF conjunct1 [OF ok [OF s1(1)]] conjunct2 [OF ok [OF s1(1)]] r]
    have "keeps_users ks (db (snd s1))"
      unfolding s1(5) using now s1(1) ok [OF s1(1)] reader_guarantee by (blast intro: keeps_users_trans)
    then have sh1: "shares db up ks (freeReply s1)" "db (snd (freeReply s1)) = redis_effect ?c ks'"
      using s1(3-5) by (auto simp: shares_def freeReply_def split: prod.splits)
    have "?p \<noteq> Finished None" using adv(2) by blast
    then show ?thesis
      using less.hyps [of ?p "freeReply s1"] commands_left_next [of startUid endUid k] sh1 adv(1,2) s1(2)
      by (simp add: At read_from.simps(1))
  qed (use less.prems in auto)
qed

lemma uids_to_send_shared:
  assumes "redis_shared cl db up" and "users_are b ks" and "shares db up ks s"
    and "startUid \<le> endUid" and "unat endUid div 8 < length b"
  shows "\<exists>s'. uids_to_send cl startUid endUid s = Inr (Some (decode_uids startUid 0 (right_bytes b startUid endUid)), s') \<and>
    shares db up ks s'"
  using read_from_shared [OF assms(1,2,4,5,3), of "At DoExists"]
  by (auto simp: uids_to_send_def read_user_info_from)

end
