(* ===== verification/EndToEnd.thy ===== *)
theory EndToEnd
  imports Scenarios ProducerProps Network Readers
begin

text \<open>
  The daemon and the producers together: which requests the daemon sends, what a producer's answer
  to one of them says of the users in its range, and that a finished push has reached every user.
\<close>

section \<open>The requests of the daemon\<close>

text \<open>A range that starts at a multiple of 8 and ends at most at \<open>E\<close>; a call is for at most 4096 users.\<close>

definition request_in :: "u64 \<Rightarrow> produce_request \<Rightarrow> bool" where
  "request_in E r \<longleftrightarrow> unat (start_uid r) mod 8 = 0 \<and> end_uid r \<le> E"

definition chunk_wide :: "produce_request \<Rightarrow> bool" where
  "chunk_wide r \<longleftrightarrow> start_uid r \<le> end_uid r \<and> unat (end_uid r) < unat (start_uid r) + 4096"

definition task_in :: "u64 \<Rightarrow> task \<Rightarrow> bool" where
  "task_in E t = (case t of
     Selecting _ r cur \<Rightarrow> request_in E r \<and> unat cur mod 8 = 0
   | InFlight c \<Rightarrow> request_in E (call_request c) \<and> chunk_wide (call_request c)
   | FailedCall c \<Rightarrow> request_in E (call_request c) \<and> chunk_wide (call_request c))"

definition pushes_in :: "u64 \<Rightarrow> event \<Rightarrow> system \<Rightarrow> bool" where
  "pushes_in E ev s = (case ev of Begin r \<Rightarrow> request_in E (copy_request r) | _ \<Rightarrow> True)"

definition calls_in :: "u64 \<Rightarrow> event list \<Rightarrow> system \<Rightarrow> bool" where
  "calls_in E evs s \<longleftrightarrow> daemon_ok (tables s) \<and> (\<forall>t \<in># tasks s. task_in E t) \<and>
     (\<forall>c ok st err. Complete c ok st err \<in> set evs \<longrightarrow> task_in E (InFlight c))"

lemma fits_mono: "fits E \<Longrightarrow> e \<le> E \<Longrightarrow> fits e"
  by (simp add: fits_def word_le_nat_alt)

lemma mod8_step: "unat cur mod 8 = 0 \<Longrightarrow> unat (cur + UID_COUNT_PER_TIME) mod 8 = (0 :: nat)"
proof -
  assume a: "unat cur mod 8 = 0"
  have "unat (cur + 4096) = (unat cur + 4096) mod 2 ^ 64" by (simp add: unat_word_ariths)
  moreover have "(unat cur + 4096) mod 2 ^ 64 mod 8 = (unat cur + 4096) mod (8 :: nat)"
    by (rule mod_mod_cancel) simp
  moreover have "(unat cur + 4096) mod 8 = 0" using a by presburger
  ultimately show ?thesis by (simp only: UID_COUNT_PER_TIME_def)
qed

lemma chunk_in:
  assumes "fits E" and "request_in E r" and "unat cur mod 8 = 0" and "cur \<le> end_uid r"
  shows "request_in E (chunk r cur)" and "chunk_wide (chunk r cur)"
proof -
  have f: "fits (end_uid r)" using assms(1,2) by (auto simp: request_in_def intro: fits_mono)
  note e = chunk_end_small(1) [OF f [unfolded fits_def] assms(4)]
  show "request_in E (chunk r cur)" "chunk_wide (chunk r cur)"
    using assms(2-4) e by (auto simp: request_in_def chunk_wide_def chunk_def word_le_nat_alt min_def)
qed

lemma step_calls_in:
  assumes E: "fits E" and I: "calls_in E evs s" and G: "pushes_in E ev s" and st: "sys_step sp ev s s'"
  shows "calls_in E (evs @ [ev]) s'"
proof -
  have ok: "daemon_ok (tables s)" "daemon_ok (tables s')"
    using I st step_daemon_ok by (auto simp: calls_in_def)
  have old: "task_in E t" if "t \<in># tasks s - N" for t N
    using that I by (auto simp: calls_in_def dest: in_diffD)
  have old0: "task_in E t" if "t \<in># tasks s" for t using that I by (auto simp: calls_in_def)
  show ?thesis using st
  proof (cases rule: sys_step.cases)
    case (begin_push r)
    with I ok(2) G show ?thesis
      by (auto simp: calls_in_def pushes_in_def SelectProducerAndSend_def task_in_def request_in_def copy_request_def)
  next
    case (select who r cur draw)
    have t: "request_in E r" "unat cur mod 8 = 0" using old0 [OF select(2)] by (simp_all add: task_in_def)
    from select(4) have "\<forall>t \<in># tasks s'. task_in E t"
    proof (cases rule: select_turn_cases)
      case leave
      then show ?thesis using old by (auto simp: drop_task_def)
    next
      case (wait d)
      then show ?thesis using old t by (auto simp: drop_task_def task_in_def)
    next
      case (send call d)
      have c: "call_request call = chunk r cur"
        using select_step_call(1) [OF ok(1) send(2) [unfolded drop_task_simps]] .
      show ?thesis
        using send(1,3) old t mod8_step [OF t(2)] chunk_in [OF E t send(1)]
        by (auto simp: drop_task_def task_in_def c)
    qed
    with I ok(2) select(1) show ?thesis by (auto simp: calls_in_def)
  next
    case (complete c ok st err)
    have c: "task_in E (InFlight c)" by (rule old0 [OF complete(2)])
    from complete(3) have "\<forall>t \<in># tasks s'. task_in E t"
      using old c by (cases rule: HandleAsyncCall_cases)
        (auto simp: OnGetResponse_def OnResponseFail_def SelectProducerAndSend_def drop_task_def Let_def task_in_def
          request_in_def)
    with I ok complete(1) c \<open>daemon_ok (tables s')\<close> show ?thesis by (auto simp: calls_in_def)
  next
    case (resume c)
    have c: "task_in E (FailedCall c)" by (rule old0 [OF resume(3)])
    with I ok(2) resume old show ?thesis
      by (auto simp: calls_in_def OnResponseFail_resume_def SelectProducerAndSend_def drop_task_def task_in_def request_in_def)
  qed (use I ok in \<open>auto simp: calls_in_def\<close>)
qed

lemma run_calls_in:
  assumes "fits E" and "run sp (pushes_in E) evs s"
  shows "calls_in E evs s"
  using assms(2)
proof (induction rule: traces.induct)
  case run_start
  then show ?case by (simp add: calls_in_def system_init_def daemon_ok_init)
next
  case (run_step evs s ev s')
  then show ?case by (intro step_calls_in [OF assms(1)])
qed

lemma in_confirmed:
  "(m, u) \<in># confirmed_uids evs \<Longrightarrow> \<exists>c ok. Complete c ok True SUCCESS \<in> set evs \<and>
    msg_id (call_request c) = m \<and> unat (start_uid (call_request c)) \<le> u \<and> u \<le> unat (end_uid (call_request c))"
proof (induction evs)
  case Nil
  then show ?case by (simp add: confirmed_uids_def)
next
  case (Cons ev evs)
  consider "(m, u) \<in># confirmed_by ev" | "(m, u) \<in># confirmed_uids evs"
    using Cons.prems by (auto simp: confirmed_uids_def)
  then show ?case
  proof cases
    case 1
    then show ?thesis
      by (cases ev) (auto simp: confirmed_by_def request_uids_def uid_range_def split: if_splits)
  next
    case 2
    then show ?thesis using Cons.IH by fastforce
  qed
qed

lemma pushes_fit: "run sp (pushes_in E) evs s \<Longrightarrow> fits E \<Longrightarrow> list_all event_fits evs"
proof (induction rule: traces.induct)
  case (run_step evs s ev s')
  then show ?case
    by (auto simp: event_fits_def pushes_in_def request_in_def copy_request_def intro: fits_mono split: event.splits)
qed simp

text \<open>When the daemon is done, each user of a push is in the range of a call that was confirmed.\<close>

lemma finished_push:
  assumes "run sp (pushes_in E) evs s" and "tasks s = {#}" and "fits E"
    and "Begin p \<in> set evs" and "push_start_uid p \<le> u" and "u \<le> push_end_uid p"
  obtains c ok where "Complete c ok True SUCCESS \<in> set evs" "msg_id (call_request c) = push_msg_id p"
    "unat (start_uid (call_request c)) \<le> unat u" "unat u \<le> unat (end_uid (call_request c))"
    "request_in E (call_request c)" "chunk_wide (call_request c)"
proof -
  have calls: "calls_in E evs s" by (rule run_calls_in [OF assms(3,1)])
  have "list_all event_fits evs" by (rule pushes_fit [OF assms(1,3)])
  then have fin: "confirmed_uids evs = asked_uids evs"
    using uids_inv.inv_run [OF assms(1)] assms(2) by (auto simp: uids_kept_def pending_uids_def)
  have "(push_msg_id p, unat u) \<in># asked_by (Begin p)"
    using assms(5,6) by (auto simp: asked_by_def request_uids_def uid_range_def copy_request_def word_le_nat_alt)
  moreover have "asked_by (Begin p) \<subseteq># asked_uids evs"
    using assms(4) by (induction evs) (auto simp: asked_uids_def intro: subset_mset.add_increasing)
  ultimately have "(push_msg_id p, unat u) \<in># confirmed_uids evs"
    unfolding fin by (blast intro: mset_subset_eqD)
  then obtain c ok where c: "Complete c ok True SUCCESS \<in> set evs" "msg_id (call_request c) = push_msg_id p"
    "unat (start_uid (call_request c)) \<le> unat u" "unat u \<le> unat (end_uid (call_request c))"
    using in_confirmed by blast
  have "task_in E (InFlight c)" using calls c(1) unfolding calls_in_def by blast
  with c that show thesis by (simp add: task_in_def)
qed

section \<open>What a producer reads\<close>

text \<open>The users of the range \<open>s..e\<close>, as \<^verbatim>\<open>ProduceMsg\<close> decodes them.\<close>

definition users_in :: "bytes \<Rightarrow> u64 \<Rightarrow> u64 \<Rightarrow> u64 list" where
  "users_in b s e = decode_uids s 0 (getrange (unat s div 8) (unat e div 8) b)"

lemma users_in_eq:
  assumes "s \<le> e" and "unat e div 8 < length b" and "fits e" and "unat s mod 8 = 0"
  shows "users_in b s e = map word_of_nat (filter (bit_at b) [unat s..<8 * (unat e div 8) + 8])"
proof -
  have st: "8 * (unat s div 8) = unat s" using assms(4) by (metis mult_div_mod_eq add_0_right)
  have "unat e < 2 ^ 64 - 16" using assms(3) by (simp add: fits_def)
  from decode_range [OF assms(1,2) this]
  have "map unat (users_in b s e) = filter (bit_at b) [unat s..<8 * (unat e div 8) + 8]"
    by (simp add: users_in_def st assms(4))
  moreover have "map word_of_nat (map unat us) = us" for us :: "u64 list" by (induction us) simp_all
  ultimately show ?thesis by metis
qed

lemma users_in_member:
  assumes "s \<le> e" and "unat e div 8 < length b" and "fits e" and "unat s mod 8 = 0"
    and "unat s \<le> unat u" and "unat u \<le> unat e" and "bit_at b (unat u)"
  shows "u \<in> set (users_in b s e)"
proof -
  have "unat u \<in> set (filter (bit_at b) [unat s..<8 * (unat e div 8) + 8])" using assms(5-7) by simp
  then have "word_of_nat (unat u) \<in> set (users_in b s e)"
    unfolding users_in_eq [OF assms(1-4)] list.set_map by (rule imageI)
  then show ?thesis by simp
qed

lemma users_in_length: "chunk_wide r \<Longrightarrow> length (users_in b (start_uid r) (end_uid r)) < 5000"
proof -
  assume w: "chunk_wide r"
  have "length (users_in b (start_uid r) (end_uid r)) \<le>
      8 * length (getrange (unat (start_uid r) div 8) (unat (end_uid r) div 8) b)"
    unfolding users_in_def decode_uids_eq length_map by (rule order_trans [OF length_filter_le]) simp
  also have "length (getrange (unat (start_uid r) div 8) (unat (end_uid r) div 8) b) \<le>
      unat (end_uid r) div 8 + 1 - unat (start_uid r) div 8"
    by (simp add: getrange_def)
  finally have "length (users_in b (start_uid r) (end_uid r)) \<le>
      8 * (unat (end_uid r) div 8 + 1 - unat (start_uid r) div 8)" by simp
  moreover have "unat (end_uid r) div 8 \<le> (unat (start_uid r) + 4096) div 8"
    using w by (intro div_le_mono) (simp add: chunk_wide_def)
  ultimately show ?thesis by simp
qed

text \<open>\<open>shares\<close>: the connection is good, and the others keep the users that were in \<open>ks\<close>.\<close>

lemma request_reads:
  assumes sh: "redis_shared cl db up" and some: "with_user_info ks TMP_USER_INFO_KEY = Some b"
    and h: "shares db up ks (redis s)" and w: "start_uid req \<le> end_uid req" "unat (end_uid req) div 8 < length b"
  shows "\<exists>s'. Proceed_request cl ser req s = Inr (Some (users_in b (start_uid req) (end_uid req)), s') \<and>
    shares db up ks (redis s') \<and> jobs s' (created s) \<noteq> None"
proof -
  have u: "users_are b ks" using some w(2) by (auto simp: users_are_def)
  obtain r where r: "uids_to_send cl (start_uid req) (end_uid req) (redis s) =
      Inr (Some (users_in b (start_uid req) (end_uid req)), r)" "shares db up ks r"
    using uids_to_send_shared [OF sh u h w] unfolding users_in_def right_bytes_def by blast
  then show ?thesis
    by (simp add: Proceed_request_def ProduceMsg_def Let_def)
qed

lemma redis_frame:
  "producer_step cl ser ev s s' \<Longrightarrow> (\<And>n req res. ev \<noteq> Request n req res) \<Longrightarrow> redis s' = redis s"
  by (erule producer_step.cases)
    (auto simp: send_next_def drop_worker_def onSuccess_def NotifyOne_def onException_def RetrySending_def unlock_def
      Proceed_finish_def Let_def split: option.splits if_splits)

section \<open>The answers of the producers\<close>

lemma in_planned: "Request n req (Some uids) \<in> set evs \<Longrightarrow> u \<in> set uids \<Longrightarrow> (n, ser u (msg_id req)) \<in># planned ser evs"
proof (induction evs)
  case (Cons ev evs)
  then show ?case by (auto simp: planned_def planned_by_def)
qed simp

text \<open>An answered request has every message of its users acknowledged.\<close>

lemma answered_users:
  assumes run: "producer_run cl ser r evs s" and rq: "Request n req (Some uids) \<in> set evs" and u: "u \<in> set uids"
    and j: "jobs s n = Some j" "job_reply j \<noteq> None"
  shows "(n, ser u (msg_id req)) \<in># acked evs"
proof -
  have p: "(n, ser u (msg_id req)) \<in># planned ser evs" by (rule in_planned [OF rq u])
  have ok: "producer_ok ser evs s" by (rule producer_inv.inv_run [OF run])
  have "jobs_ok (failed evs) (pending_msgs s) (created s) (jobs s)" using ok by (simp add: producer_ok_def)
  then have "job_ok (live (pending_msgs s) n) (n \<in> failed evs) j" using j(1) by (simp add: jobs_okD(2))
  then have "live (pending_msgs s) n = 0" using j(2) by (auto simp: job_ok_def split: if_splits)
  then have none: "filter_mset (\<lambda>m. fst m = n) (pending_msgs s) = {#}" by (simp add: live_def)
  have "(n, ser u (msg_id req)) \<notin># pending_msgs s"
  proof
    assume "(n, ser u (msg_id req)) \<in># pending_msgs s"
    then have "(n, ser u (msg_id req)) \<in># filter_mset (\<lambda>m. fst m = n) (pending_msgs s)"
      by (simp only: set_mset_filter mem_Collect_eq fst_conv simp_thms)
    then show False unfolding none by simp
  qed
  moreover have "pending_msgs s + acked evs = planned ser evs" using ok by (simp add: producer_ok_def)
  ultimately show ?thesis using p by (metis union_iff)
qed

end
