(* ===== verification/Chunking.thy ===== *)
theory Chunking
  imports EndToEnd
begin

text \<open>
  The split of a push into requests, as the loop of \<^verbatim>\<open>SelectProducerAndSend\<close> makes it, against the
  push as one request: the producers of the chunks send to the same users, in the same order, as
  one producer asked for the whole range.
\<close>

section \<open>The requests of a push\<close>

text \<open>
  The loop with an idle producer in every turn: the requests it sends, first to last. It is a
  partial function, since a loop whose \<^verbatim>\<open>curUid\<close> wraps around does not end.
\<close>

partial_function (option) loop_requests :: "produce_request \<Rightarrow> u64 \<Rightarrow> produce_request list option" where
  "loop_requests request curUid =
     (if curUid \<le> end_uid request then
        Option.bind (loop_requests request (curUid + UID_COUNT_PER_TIME)) (\<lambda>cs. Some (chunk request curUid # cs))
      else Some [])"

declare loop_requests.simps [code]

section \<open>The users of a request\<close>

lemma users_in_split:
  assumes "fits e" and "unat e div 8 < length b" and "unat s mod 8 = 0" and "unat s + 4096 \<le> unat e"
  shows "users_in b s (s + 4095) @ users_in b (s + UID_COUNT_PER_TIME) e = users_in b s e"
proof -
  have big: "unat s + 8191 < 2 ^ 64" "s \<le> e" using assms(1,4) by (simp_all add: fits_def word_le_nat_alt)
  have m: "unat (s + 4095) = unat s + 4095"
    using big unat_add_no_wrap64 [of s 4095] by simp
  have n: "unat (s + UID_COUNT_PER_TIME) = unat s + 4096"
    using big unat_add_no_wrap64 [of s 4096] by (simp add: UID_COUNT_PER_TIME_def)
  have c: "8 * ((unat s + 4095) div 8) + 8 = unat s + 4096" using assms(3) by presburger
  have first: "users_in b s (s + 4095) = map word_of_nat (filter (bit_at b) [unat s..<unat s + 4096])"
  proof -
    have "unat (s + 4095) div 8 < length b"
      using assms(2) div_le_mono [of "unat s + 4095" "unat e" 8] assms(4) unfolding m by linarith
    then show ?thesis
      using users_in_eq [of s "s + 4095" b] big assms(1,3,4) by (simp add: m c fits_def word_le_nat_alt)
  qed
  have second: "users_in b (s + UID_COUNT_PER_TIME) e =
      map word_of_nat (filter (bit_at b) [unat s + 4096..<8 * (unat e div 8) + 8])"
    using users_in_eq [of "s + UID_COUNT_PER_TIME" e b] assms mod8_step [OF assms(3)]
    by (simp add: n word_le_nat_alt)
  have "unat s + 4096 \<le> 8 * (unat e div 8) + 8" using assms(4) by presburger
  then obtain k where k: "8 * (unat e div 8) + 8 = unat s + 4096 + k" by (metis le_iff_add)
  have "[unat s..<8 * (unat e div 8) + 8] = [unat s..<unat s + 4096] @ [unat s + 4096..<8 * (unat e div 8) + 8]"
    unfolding k add.assoc by (subst upt_add_eq_append) (simp_all flip: upt_add_eq_append add.assoc)
  then show ?thesis
    unfolding first second users_in_eq [OF big(2) assms(2,1,3)] by (simp flip: map_append filter_append)
qed

section \<open>The loop\<close>

lemma loop_requests_split:
  assumes f: "fits (end_uid r)" and inside: "unat (end_uid r) div 8 < length b"
  shows "unat cur mod 8 = 0 \<Longrightarrow> cur \<le> end_uid r \<Longrightarrow>
    \<exists>cs. loop_requests r cur = Some cs \<and> length cs = (unat (end_uid r) - unat cur) div 4096 + 1 \<and>
      concat (map (\<lambda>c. users_in b (start_uid c) (end_uid c)) cs) = users_in b cur (end_uid r) \<and>
      (\<forall>c \<in> set cs. start_uid c \<le> end_uid c \<and> end_uid c \<le> end_uid r)"
proof (induction "unat (end_uid r) - unat cur" arbitrary: cur rule: less_induct)
  case less
  note c = chunk_end_small [OF f [unfolded fits_def] less.prems(2)]
  have first: "start_uid (chunk r cur) \<le> end_uid (chunk r cur) \<and> end_uid (chunk r cur) \<le> end_uid r"
    using c(1) less.prems(2) by (simp add: chunk_def word_le_nat_alt)
  show ?case
  proof (cases "unat (end_uid r) < unat cur + 4096")
    case True
    then have out: "loop_requests r (cur + UID_COUNT_PER_TIME) = Some []"
      using c(2) by (subst loop_requests.simps) (simp add: word_le_nat_alt)
    have "end_uid (chunk r cur) = end_uid r"
      using c(1) True by (simp add: chunk_def word_unat_eq_iff)
    moreover have "loop_requests r cur = Some [chunk r cur]"
      using less.prems(2) out by (subst loop_requests.simps) simp
    ultimately show ?thesis using True first by (simp add: chunk_def div_less)
  next
    case False
    then have le: "unat cur + 4096 \<le> unat (end_uid r)" by simp
    have dec: "unat (end_uid r) - unat (cur + UID_COUNT_PER_TIME) < unat (end_uid r) - unat cur"
      "cur + UID_COUNT_PER_TIME \<le> end_uid r"
      using le c(2) by (simp_all add: word_le_nat_alt)
    from less.hyps [OF dec(1) mod8_step [OF less.prems(1)] dec(2)] obtain cs where cs:
      "loop_requests r (cur + UID_COUNT_PER_TIME) = Some cs"
      "length cs = (unat (end_uid r) - unat (cur + UID_COUNT_PER_TIME)) div 4096 + 1"
      "concat (map (\<lambda>c. users_in b (start_uid c) (end_uid c)) cs) = users_in b (cur + UID_COUNT_PER_TIME) (end_uid r)"
      "\<forall>c \<in> set cs. start_uid c \<le> end_uid c \<and> end_uid c \<le> end_uid r"
      by blast
    have "unat (cur + 4095) = unat cur + 4095"
      using le f unat_add_no_wrap64 [of cur 4095] by (simp add: fits_def)
    then have e: "end_uid (chunk r cur) = cur + 4095"
      using c(1) le by (simp add: chunk_def word_unat_eq_iff)
    have "(unat (end_uid r) - unat cur) div 4096 = Suc ((unat (end_uid r) - (unat cur + 4096)) div 4096)"
      using le by (simp add: le_div_geq diff_diff_left)
    moreover have "loop_requests r cur = Some (chunk r cur # cs)"
      using less.prems(2) cs(1) by (subst loop_requests.simps) simp
    moreover have "start_uid (chunk r cur) = cur" by (simp add: chunk_def)
    ultimately show ?thesis
      using cs first users_in_split [OF f inside less.prems(1) le] c(2) by (simp add: e)
  qed
qed

text \<open>
  C23: splitting a push into requests changes nothing for the users. For a range that starts at a
  multiple of 8 and ends inside the bitmap, the loop ends, sends one request for each started
  block of 4096 user ids, and the users the producers find for these requests, one request after
  the other, are exactly the users one producer finds for the whole range.
\<close>

theorem chunking_is_transparent:
  assumes "redis_documented cl db up" and "ks TMP_USER_INFO_KEY = Some b" and "fits (end_uid r)"
    and "unat (end_uid r) div 8 < length b" and "start_uid r \<le> end_uid r" and "unat (start_uid r) mod 8 = 0"
  shows "\<exists>cs uss. loop_requests r (start_uid r) = Some cs \<and>
    length cs = (unat (end_uid r) - unat (start_uid r)) div 4096 + 1 \<and>
    list_all2 (\<lambda>c us. \<forall>s. holds db up ks s \<longrightarrow>
      (\<exists>s'. uids_to_send cl (start_uid c) (end_uid c) s = Inr (Some us, s') \<and> holds db up ks s')) cs uss \<and>
    (\<forall>s. holds db up ks s \<longrightarrow>
      (\<exists>s'. uids_to_send cl (start_uid r) (end_uid r) s = Inr (Some (concat uss), s')))"
proof -
  have w: "with_user_info ks = ks" using assms(2) by (simp add: with_user_info_def)
  have read: "\<exists>s'. uids_to_send cl a e s = Inr (Some (users_in b a e), s') \<and> holds db up ks s'"
    if "holds db up ks s" "a \<le> e" "e \<le> end_uid r" for s a e
  proof -
    have "unat e div 8 < length b"
      using that(3) assms(4) by (auto simp: word_le_nat_alt intro: le_less_trans div_le_mono)
    from uids_to_send_reachable [OF assms(1) that(1) _ that(2) this] show ?thesis
      by (simp add: w assms(2) users_in_def)
  qed
  obtain cs where cs: "loop_requests r (start_uid r) = Some cs"
    "length cs = (unat (end_uid r) - unat (start_uid r)) div 4096 + 1"
    "concat (map (\<lambda>c. users_in b (start_uid c) (end_uid c)) cs) = users_in b (start_uid r) (end_uid r)"
    "\<forall>c \<in> set cs. start_uid c \<le> end_uid c \<and> end_uid c \<le> end_uid r"
    using loop_requests_split [OF assms(3,4,6,5)] by blast
  let ?uss = "map (\<lambda>c. users_in b (start_uid c) (end_uid c)) cs"
  have "list_all2 (\<lambda>c us. \<forall>s. holds db up ks s \<longrightarrow>
      (\<exists>s'. uids_to_send cl (start_uid c) (end_uid c) s = Inr (Some us, s') \<and> holds db up ks s')) cs ?uss"
    using cs(4) read by (simp add: list_all2_map2 list.rel_refl_strong)
  moreover have "\<forall>s. holds db up ks s \<longrightarrow>
      (\<exists>s'. uids_to_send cl (start_uid r) (end_uid r) s = Inr (Some (concat ?uss), s'))"
    unfolding cs(3) using read assms(5) by blast
  ultimately show ?thesis using cs(1,2) by blast
qed

text \<open>Two requests, over a bitmap with every user in it.\<close>

definition full_keyspace :: keyspace where
  "full_keyspace = (\<lambda>_. None)(TMP_USER_INFO_KEY \<mapsto> replicate 1024 255)"

theorem chunking_is_transparent_witness:
  "\<exists>cs uss s'. loop_requests demo_request 0 = Some cs \<and> length cs = 2 \<and> length uss = 2 \<and>
    uids_to_send demo_redis 0 8191 (connected, full_keyspace) = Inr (Some (concat uss), s')"
proof -
  have "full_keyspace TMP_USER_INFO_KEY = Some (replicate 1024 255)" "fits (end_uid demo_request)"
    "unat (end_uid demo_request) div 8 < length (replicate 1024 (255 :: u8))"
    "start_uid demo_request \<le> end_uid demo_request" "unat (start_uid demo_request) mod 8 = 0"
    by (simp_all add: full_keyspace_def demo_request_def fits_def)
  from chunking_is_transparent [of demo_redis "\<lambda>w. w" "\<lambda>_. True" full_keyspace, OF demo_redis_documented this]
  obtain cs uss where c: "loop_requests demo_request (start_uid demo_request) = Some cs"
    "length cs = (unat (end_uid demo_request) - unat (start_uid demo_request)) div 4096 + 1"
    "length cs = length uss"
    "\<forall>s. holds (\<lambda>w. w) (\<lambda>_. True) full_keyspace s \<longrightarrow>
      (\<exists>s'. uids_to_send demo_redis (start_uid demo_request) (end_uid demo_request) s = Inr (Some (concat uss), s'))"
    by (blast dest: list_all2_lengthD)
  have range: "start_uid demo_request = 0" "end_uid demo_request = 8191" by (simp_all add: demo_request_def)
  obtain s' where "uids_to_send demo_redis 0 8191 (connected, full_keyspace) = Inr (Some (concat uss), s')"
    using c(4) demo_holds [of full_keyspace] unfolding range by blast
  moreover have "length cs = 2" using c(2) unfolding range by simp
  moreover from this have "length uss = 2" using c(3) by simp
  ultimately show ?thesis using c(1) unfolding range by blast
qed

end
