(* ===== verification/SharedRedis.thy ===== *)
theory SharedRedis
  imports Readers Runs
begin

text \<open>
  Any number of producer processes on one Redis, command by command, beside the update process and the
  time limit of the users' key. Each process reads as \<open>Readers\<close> has it; a step is a command at Redis.
\<close>

section \<open>State and events\<close>

record reader =
  first_uid :: u64
  last_uid :: u64
  position :: position

record shared_redis =
  key_space :: keyspace
  readers :: "nat \<Rightarrow> reader option"

definition shared_init :: "keyspace \<Rightarrow> shared_redis" where
  "shared_init ks = \<lparr>key_space = ks, readers = (\<lambda>_. None)\<rparr>"

text \<open>
  A process takes a request, when it is done with the last; its command is answered; or it takes effect
  but the answer is lost and \<^verbatim>\<open>RedisHandler::command\<close> tries again; or the handler gives up.
  The update process releases a bitmap, by \<^verbatim>\<open>RENAME\<close>. The users' key goes, by the \<^verbatim>\<open>DEL\<close> at the end of
  an update, or since its half hour is over.
\<close>

datatype shared_event = Ask nat u64 u64 | Answered nat | Lost nat | GivenUp nat | Release keyspace | Vanish

definition at_work :: "shared_redis \<Rightarrow> nat \<Rightarrow> (reader \<times> redis_step) option" where
  "at_work s i = (case readers s i of None \<Rightarrow> None
     | Some rd \<Rightarrow> (case position rd of At k \<Rightarrow> Some (rd, k) | _ \<Rightarrow> None))"

definition command_of :: "reader \<Rightarrow> redis_step \<Rightarrow> redis_cmd" where
  "command_of rd k = reader_command (first_uid rd) (last_uid rd) k"

definition move :: "nat \<Rightarrow> reader \<Rightarrow> redis_step \<Rightarrow> redis_reply option \<Rightarrow> shared_redis \<Rightarrow> shared_redis" where
  "move i rd k r s = s\<lparr>readers := (readers s)(i \<mapsto> rd\<lparr>position := reader_next (first_uid rd) (last_uid rd) k r\<rparr>)\<rparr>"

definition at_redis :: "redis_cmd \<Rightarrow> shared_redis \<Rightarrow> shared_redis" where
  "at_redis c s = s\<lparr>key_space := redis_effect c (key_space s)\<rparr>"

inductive shared_step :: "shared_event \<Rightarrow> shared_redis \<Rightarrow> shared_redis \<Rightarrow> bool" where
  ask: "at_work s i = None \<Longrightarrow>
    shared_step (Ask i a e) s (s\<lparr>readers := (readers s)(i \<mapsto> \<lparr>first_uid = a, last_uid = e, position = At DoExists\<rparr>)\<rparr>)"
| answered: "at_work s i = Some (rd, k) \<Longrightarrow>
    shared_step (Answered i) s
      (move i rd k (Some (redis_answer (command_of rd k) (key_space s))) (at_redis (command_of rd k) s))"
| lost: "at_work s i = Some (rd, k) \<Longrightarrow> shared_step (Lost i) s (at_redis (command_of rd k) s)"
| given_up: "at_work s i = Some (rd, k) \<Longrightarrow> shared_step (GivenUp i) s (move i rd k None s)"
| release: "K TMP_USER_INFO_KEY = key_space s TMP_USER_INFO_KEY \<Longrightarrow> shared_step (Release K) s (s\<lparr>key_space := K\<rparr>)"
| vanish: "shared_step Vanish s (s\<lparr>key_space := (key_space s)(TMP_USER_INFO_KEY := None)\<rparr>)"

inductive_cases shared_step_elims:
  "shared_step (Ask i a e) s s'" "shared_step (Answered i) s s'" "shared_step (Lost i) s s'"
  "shared_step (GivenUp i) s s'" "shared_step (Release K) s s'" "shared_step Vanish s s'"

definition exec_shared :: "shared_event \<Rightarrow> shared_redis \<Rightarrow> shared_redis option" where
  "exec_shared ev s = (case ev of
     Ask i a e \<Rightarrow> (case at_work s i of Some _ \<Rightarrow> None
       | None \<Rightarrow> Some (s\<lparr>readers := (readers s)(i \<mapsto> \<lparr>first_uid = a, last_uid = e, position = At DoExists\<rparr>)\<rparr>))
   | Answered i \<Rightarrow> (case at_work s i of None \<Rightarrow> None
       | Some (rd, k) \<Rightarrow> Some (move i rd k (Some (redis_answer (command_of rd k) (key_space s))) (at_redis (command_of rd k) s)))
   | Lost i \<Rightarrow> (case at_work s i of None \<Rightarrow> None | Some (rd, k) \<Rightarrow> Some (at_redis (command_of rd k) s))
   | GivenUp i \<Rightarrow> (case at_work s i of None \<Rightarrow> None | Some (rd, k) \<Rightarrow> Some (move i rd k None s))
   | Release K \<Rightarrow> if K TMP_USER_INFO_KEY = key_space s TMP_USER_INFO_KEY then Some (s\<lparr>key_space := K\<rparr>) else None
   | Vanish \<Rightarrow> Some (s\<lparr>key_space := (key_space s)(TMP_USER_INFO_KEY := None)\<rparr>))"

lemma exec_shared_iff: "exec_shared ev s = Some s' \<longleftrightarrow> shared_step ev s s'"
  by (cases ev) (auto simp: exec_shared_def intro: shared_step.intros elim!: shared_step_elims split: if_splits option.splits)

interpretation shared_exec: executable_steps shared_step exec_shared
  by unfold_locales (rule exec_shared_iff)

abbreviation shared_run :: "keyspace \<Rightarrow> (shared_event \<Rightarrow> shared_redis \<Rightarrow> bool) \<Rightarrow> shared_event list \<Rightarrow> shared_redis \<Rightarrow> bool" where
  "shared_run ks G \<equiv> traces shared_step (shared_init ks) G"

section \<open>Undisturbed runs\<close>

fun is_release :: "shared_event \<Rightarrow> bool" where
  "is_release (Release K) = True"
| "is_release _ = False"

definition waiting_at :: "redis_step \<Rightarrow> shared_redis \<Rightarrow> bool" where
  "waiting_at k s \<longleftrightarrow> (\<exists>i rd. readers s i = Some rd \<and> position rd = At k)"

text \<open>
  Requests end inside the bitmap \<open>b\<close>. A release comes while the users are cached and nobody is
  about to build them. The key goes while nobody is between its \<^verbatim>\<open>EXISTS\<close> and its \<^verbatim>\<open>GETRANGE\<close>, and
  the released bitmaps are those it was made of.
\<close>

definition undisturbed :: "bytes \<Rightarrow> shared_event \<Rightarrow> shared_redis \<Rightarrow> bool" where
  "undisturbed b ev s = (case ev of
     Ask i a e \<Rightarrow> a \<le> e \<and> unat e div 8 < length b
   | Release K \<Rightarrow> key_space s TMP_USER_INFO_KEY = Some b \<and> \<not> waiting_at DoBitop s
   | Vanish \<Rightarrow> push_set (key_space s) = b \<and> \<not> waiting_at DoExpire s \<and> \<not> waiting_at DoGetrange s
   | _ \<Rightarrow> True)"

text \<open>What holds of a reader: its position, and its answer, which may be \<^verbatim>\<open>common::ERR\<close> only if it gave up.\<close>

definition reader_right :: "bytes \<Rightarrow> shared_event list \<Rightarrow> keyspace \<Rightarrow> nat \<Rightarrow> reader \<Rightarrow> bool" where
  "reader_right b evs ks i rd \<longleftrightarrow> first_uid rd \<le> last_uid rd \<and> unat (last_uid rd) div 8 < length b \<and>
     reader_ok b ks (position rd) \<and>
     (\<forall>x. position rd = Finished x \<longrightarrow>
        x = Some (right_bytes b (first_uid rd) (last_uid rd)) \<or> x = None \<and> GivenUp i \<in> set evs)"

definition readers_right :: "bytes \<Rightarrow> shared_event list \<Rightarrow> shared_redis \<Rightarrow> bool" where
  "readers_right b evs s \<longleftrightarrow> users_are b (key_space s) \<and>
     (\<forall>i rd. readers s i = Some rd \<longrightarrow> reader_right b evs (key_space s) i rd)"

lemma at_workD:
  "at_work s i = Some (rd, k) \<Longrightarrow> readers s i = Some rd \<and> position rd = At k"
  by (auto simp: at_work_def split: option.splits position.splits)

lemma reader_right_kept:
  "reader_right b evs ks i rd \<Longrightarrow> keeps_users ks ks' \<Longrightarrow> set evs \<subseteq> set evs' \<Longrightarrow> reader_right b evs' ks' i rd"
  unfolding reader_right_def by (blast intro: reader_ok_kept)

lemma readers_right_more: "readers_right b evs s \<Longrightarrow> readers_right b (evs @ [ev]) s"
  using reader_right_kept [OF _ keeps_users_refl, of b evs "key_space s" _ _ "evs @ [ev]"]
  by (auto simp: readers_right_def)

lemma at_work_right:
  assumes "readers_right b evs s" and "at_work s i = Some (rd, k)"
  shows "users_are b (key_space s)" "reader_ok b (key_space s) (At k)"
    "first_uid rd \<le> last_uid rd" "unat (last_uid rd) div 8 < length b"
proof -
  note rd = at_workD [OF assms(2)]
  then have "reader_right b evs (key_space s) i rd" using assms(1) by (simp add: readers_right_def)
  then show "reader_ok b (key_space s) (At k)" "first_uid rd \<le> last_uid rd" "unat (last_uid rd) div 8 < length b"
    using rd by (simp_all add: reader_right_def)
  show "users_are b (key_space s)" using assms(1) by (simp add: readers_right_def)
qed

text \<open>A command of one reader is allowed interference for all.\<close>

lemma command_kept:
  assumes "readers_right b evs s" and "at_work s i = Some (rd, k)"
  shows "keeps_users (key_space s) (redis_effect (command_of rd k) (key_space s))"
  unfolding command_of_def
  using at_work_right(1,2) [OF assms] by (rule reader_guarantee)

lemma readers_right_command:
  assumes "readers_right b evs s" and "at_work s i = Some (rd, k)" and "set evs \<subseteq> set evs'"
  shows "readers_right b evs' (at_redis (command_of rd k) s)"
  using assms(1,3) command_kept [OF assms(1,2)]
  by (auto simp: readers_right_def at_redis_def intro: users_are_kept reader_right_kept)

lemma readers_right_move:
  assumes "readers_right b evs s" and "reader_right b evs (key_space s) i
      (rd\<lparr>position := reader_next (first_uid rd) (last_uid rd) k r\<rparr>)"
  shows "readers_right b evs (move i rd k r s)"
  using assms by (simp add: readers_right_def move_def)

lemma answered_right:
  assumes s: "readers_right b evs s" and w: "at_work s i = Some (rd, k)"
  shows "readers_right b (evs @ [ev])
    (move i rd k (Some (redis_answer (command_of rd k) (key_space s))) (at_redis (command_of rd k) s))"
proof (rule readers_right_move)
  show "readers_right b (evs @ [ev]) (at_redis (command_of rd k) s)"
    by (rule readers_right_command [OF s w]) auto
  note ok = at_work_right [OF s w]
  then show "reader_right b (evs @ [ev]) (key_space (at_redis (command_of rd k) s)) i
      (rd\<lparr>position := reader_next (first_uid rd) (last_uid rd) k (Some (redis_answer (command_of rd k) (key_space s)))\<rparr>)"
    using reader_advances(1,2) [OF ok] by (simp add: reader_right_def at_redis_def command_of_def)
qed

lemma given_up_right:
  assumes s: "readers_right b evs s" and w: "at_work s i = Some (rd, k)"
  shows "readers_right b (evs @ [GivenUp i]) (move i rd k None s)"
proof (rule readers_right_move)
  show "readers_right b (evs @ [GivenUp i]) s"
    using s by (rule readers_right_more)
  show "reader_right b (evs @ [GivenUp i]) (key_space s) i (rd\<lparr>position := reader_next (first_uid rd) (last_uid rd) k None\<rparr>)"
    using at_work_right(3,4) [OF s w] by (simp add: reader_right_def)
qed

text \<open>A key space that is as good for each reader.\<close>

lemma readers_right_key_space:
  assumes "readers_right b evs s" and "users_are b ks"
    and "\<And>k. waiting_at k s \<Longrightarrow> reader_ok b (key_space s) (At k) \<Longrightarrow> reader_ok b ks (At k)"
  shows "readers_right b (evs @ [ev]) (s\<lparr>key_space := ks\<rparr>)"
proof -
  have "reader_right b (evs @ [ev]) ks i rd" if rd: "readers s i = Some rd" for i rd
  proof -
    have r: "reader_right b evs (key_space s) i rd" using assms(1) rd by (simp add: readers_right_def)
    have "reader_ok b ks (position rd)"
    proof (cases "position rd")
      case (At k)
      with rd have "waiting_at k s" by (auto simp: waiting_at_def)
      with r At assms(3) show ?thesis by (simp add: reader_right_def)
    qed (use r in \<open>simp_all add: reader_right_def\<close>)
    with r show ?thesis by (auto simp: reader_right_def)
  qed
  then show ?thesis using assms(2) by (simp add: readers_right_def)
qed

lemma step_readers_right:
  assumes "shared_step ev s s'" and "undisturbed b ev s" and s: "readers_right b evs s"
  shows "readers_right b (evs @ [ev]) s'"
  using assms(1)
proof (cases rule: shared_step.cases)
  case (ask i a e)
  with readers_right_more [OF s] assms(2) show ?thesis
    by (simp add: readers_right_def) (simp add: reader_right_def undisturbed_def)
next
  case (answered i rd k)
  with answered_right [OF s] show ?thesis by simp
next
  case (lost i rd k)
  with readers_right_command [OF s] show ?thesis by (metis set_append sup_ge1)
next
  case (given_up i rd k)
  with given_up_right [OF s] show ?thesis by simp
next
  case (release K)
  with assms(2) have "key_space s TMP_USER_INFO_KEY = Some b" "\<not> waiting_at DoBitop s" by (simp_all add: undisturbed_def)
  moreover have "b \<noteq> []" using s by (simp add: readers_right_def users_are_def)
  moreover have "reader_ok b K (At k)" if "waiting_at k s" for k
    using that release(3) calculation by (cases k) auto
  ultimately show ?thesis
    unfolding release(2) using release(3)
    by (intro readers_right_key_space [OF s]) (simp_all add: users_are_def with_user_info_tmp)
next
  case vanish
  with assms(2) have v: "push_set (key_space s) = b" "\<not> waiting_at DoExpire s" "\<not> waiting_at DoGetrange s"
    by (simp_all add: undisturbed_def)
  have "b \<noteq> []" using s by (simp add: readers_right_def users_are_def)
  moreover have "reader_ok b ((key_space s)(TMP_USER_INFO_KEY := None)) (At k)" if "waiting_at k s" for k
    using that v by (cases k) auto
  ultimately show ?thesis
    unfolding vanish(2) using v(1)
    by (intro readers_right_key_space [OF s]) (simp_all add: users_are_def with_user_info_tmp)
qed

text \<open>
  What a process may rely on between two of its commands, as \<open>redis_shared\<close> has it: whatever the
  others did, short of a release and of the key's going, kept the users.
\<close>

lemma step_keeps_users:
  assumes "shared_step ev s s'" and "readers_right b evs s" and "\<not> is_release ev" and "ev \<noteq> Vanish"
  shows "keeps_users (key_space s) (key_space s')"
  using assms by cases (auto simp: at_redis_def move_def command_kept)

lemma others_keep_users:
  assumes "traces shared_step s (\<lambda>ev t. undisturbed b ev t \<and> \<not> is_release ev \<and> ev \<noteq> Vanish) evs s'"
    and "readers_right b evs0 s"
  shows "readers_right b (evs0 @ evs) s' \<and> keeps_users (key_space s) (key_space s')"
  using assms
proof (induction rule: traces.induct)
  case (run_step evs t ev t')
  then have t: "readers_right b (evs0 @ evs) t" "keeps_users (key_space s) (key_space t)" by simp_all
  then have "readers_right b (evs0 @ (evs @ [ev])) t'"
    using step_readers_right [OF run_step(3) _ t(1)] run_step(2) by simp
  moreover have "keeps_users (key_space t) (key_space t')"
    using step_keeps_users [OF run_step(3) t(1)] run_step(2) by blast
  ultimately show ?case using t(2) keeps_users_trans by blast
qed simp

lemma readers_invariant: "users_are b ks \<Longrightarrow> trace_invariant shared_step (shared_init ks) (undisturbed b) (readers_right b)"
  by (unfold_locales, simp add: shared_init_def readers_right_def, rule step_readers_right)

lemmas readers_agreed = trace_invariant.inv_run [OF readers_invariant]

section \<open>The cached users are those of the released bitmaps\<close>

definition up_to_date :: "keyspace \<Rightarrow> bool" where
  "up_to_date ks \<longleftrightarrow> ks TMP_USER_INFO_KEY = None \<or> ks TMP_USER_INFO_KEY = Some (push_set ks)"

lemma up_to_date_command: "up_to_date ks \<Longrightarrow> up_to_date (redis_effect (command_of rd k) ks)"
proof (cases k)
  case DoBitop
  have "redis_effect (command_of rd k) ks =
      (if push_set ks = [] then ks(TMP_USER_INFO_KEY := None) else ks(TMP_USER_INFO_KEY \<mapsto> push_set ks))"
    using DoBitop by (simp add: command_of_def push_set_def store_def)
  then show ?thesis by (simp add: up_to_date_def)
qed (simp_all add: command_of_def)

lemma step_up_to_date:
  assumes "shared_step ev s s'" and "ev = Vanish \<or> up_to_date (key_space s) \<and> \<not> is_release ev"
  shows "up_to_date (key_space s')"
  using assms by cases (auto simp: up_to_date_command at_redis_def move_def, simp_all add: up_to_date_def)

text \<open>\<open>cleared evs\<close>: the users' key has gone, and nothing was released since.\<close>

definition cleared :: "shared_event list \<Rightarrow> bool" where
  "cleared evs \<longleftrightarrow> Vanish \<in> set (takeWhile (\<lambda>ev. \<not> is_release ev) (rev evs))"

lemma cleared_snoc: "cleared (evs @ [ev]) \<longleftrightarrow> ev = Vanish \<or> cleared evs \<and> \<not> is_release ev"
  by (cases ev) (auto simp: cleared_def)

interpretation cache_inv: trace_invariant shared_step "shared_init ks" G
  "\<lambda>evs s. cleared evs \<longrightarrow> up_to_date (key_space s)" for ks G
  by unfold_locales (simp add: cleared_def, auto simp: cleared_snoc intro: step_up_to_date)

end
