(* ===== verification/SharedProps.thy ===== *)
theory SharedProps
  imports SharedRedis RedisDemo
begin

text \<open>
  The properties of the producers on one Redis: they read as if each had it for itself, the cached
  bitmap is never older than the last update; and the key that goes between two commands.
\<close>

section \<open>Each reads as if it were alone\<close>



text \<open>Two processes build the bitmap at the same time, the answer to one is lost, and a release comes.\<close>

definition released :: "bytes \<Rightarrow> bytes option \<Rightarrow> keyspace" where
  "released b tmp = (\<lambda>k. if k = TMP_USER_INFO_KEY then tmp
     else if k \<in> set (map genReleaseKey USER_INFO_KEY) then Some b else None)"







section \<open>A Redis with a schedule\<close>

text \<open>
  A server that meets \<open>redis_shared\<close> while others act on it: the world has a schedule, which says before
  which commands another producer builds the users' bitmap.
\<close>

definition others_act :: "keyspace \<times> bool list \<Rightarrow> keyspace" where
  "others_act w = (case w of (ks, True # bs) \<Rightarrow> with_user_info ks | (ks, _) \<Rightarrow> ks)"

definition scheduled_redis :: "(keyspace \<times> bool list) hiredis" where
  "scheduled_redis = \<lparr>redisConnect = (\<lambda>w. (GoodContext, w)),
     redisCommand = (\<lambda>line val w. case redisCommand demo_redis line val (others_act w) of (r, ks) \<Rightarrow> (r, (ks, drop 1 (snd w))))\<rparr>"

lemma others_act_kept: "keeps_users (fst w) (others_act w)"
  by (auto simp: others_act_def keeps_users_def with_user_info_def store_def split: prod.splits list.splits bool.splits)

lemma scheduled_shared: "redis_shared scheduled_redis fst (\<lambda>_. True)"
  unfolding redis_shared_def
proof (intro allI impI)
  fix w :: "keyspace \<times> bool list" and c assume "set (redis_keys c) \<subseteq> set all_keys"
  then have "redisCommand demo_redis (redis_line c) (redis_value c) (others_act w) =
      (Some (redis_answer c (others_act w)), redis_effect c (others_act w))"
    using demo_redis_documented unfolding redis_documented_def by blast
  then show "\<exists>ks w'. keeps_users (fst w) ks \<and>
      redisCommand scheduled_redis (redis_line c) (redis_value c) w = (Some (redis_answer c ks), w') \<and> True \<and> fst w' = redis_effect c ks"
    using others_act_kept [of w] by (auto simp: scheduled_redis_def)
qed

text \<open>There a producer finds no bitmap, builds one that another has built meanwhile, and reads its users.\<close>

lemma scheduled_read:
  "\<exists>s'. read_user_info scheduled_redis 8 15 (connected, released [192, 3] None, [False, True]) = Inr (Some [3], s')"
proof -
  have "case read_user_info scheduled_redis 8 15 (connected, released [192, 3] None, [False, True]) of
      Inl _ \<Rightarrow> False | Inr (b, _) \<Rightarrow> b = Some [3]"
    by code_simp
  then show ?thesis by (auto split: sum.splits prod.splits)
qed

section \<open>The cached bitmap is never older than the last update\<close>

text \<open>
  C32: an update reaches the producers. After the users' key has gone, by the \<^verbatim>\<open>DEL\<close> at the end of an
  update, and until the next release, the bitmap in the cache is the intersection of the released
  bitmaps, whatever was cached before, and wherever any number of producers were in their commands, or
  however often these are lost or repeated. So it does no harm that a producer builds the bitmap while
  an update is going on.
\<close>

theorem cache_up_to_date:
  assumes "shared_run ks any_event evs s" and "cleared evs"
  shows "key_space s TMP_USER_INFO_KEY = None \<or> key_space s TMP_USER_INFO_KEY = Some (push_set (key_space s))"
  using cache_inv.inv_run [OF assms(1)] assms(2) by (simp add: up_to_date_def)

text \<open>A producer is about to build the bitmap when a new one is released; it builds it after the \<^verbatim>\<open>DEL\<close>.\<close>

definition update_between :: "shared_event list" where
  "update_between = [Ask 0 0 7, Answered 0, Release (released [1, 1] None), Vanish, Answered 0, Answered 0, Answered 0]"

theorem cache_up_to_date_witness:
  "\<exists>s rd. shared_run (released [192, 3] None) any_event update_between s \<and>
    readers s 0 = Some rd \<and> position rd = Finished (Some [1]) \<and>
    (key_space s TMP_USER_INFO_KEY = None \<or> key_space s TMP_USER_INFO_KEY = Some (push_set (key_space s)))"
proof -
  let ?rd = "\<lparr>first_uid = 0, last_uid = 7, position = Finished (Some [1])\<rparr>"
  have "case exec_trace exec_shared any_event update_between (shared_init (released [192, 3] None)) of
      None \<Rightarrow> False | Some s \<Rightarrow> readers s 0 = Some ?rd"
    by code_simp
  then obtain s where s: "exec_trace exec_shared any_event update_between (shared_init (released [192, 3] None)) = Some s"
    "readers s 0 = Some ?rd" by (auto split: option.splits)
  have "cleared update_between" by (simp add: cleared_def update_between_def)
  from cache_up_to_date [OF shared_exec.exec_run [OF s(1)] this] shared_exec.exec_run [OF s(1)] s(2)
  show ?thesis by auto
qed

section \<open>The key goes between two commands\<close>

lemma long_copy:
  assumes "startUid div 8 < endUid div 8"
  shows "copy_string (Some []) (user_info_len startUid endUid) = Inl OutOfBounds"
proof -
  have "unat startUid div 8 < unat endUid div 8" using assms by (simp add: word_less_nat_alt unat_div8)
  moreover from this have "startUid \<le> endUid"
    by (metis div_le_mono leD nat_le_linear word_le_nat_alt)
  ultimately show ?thesis by (simp add: copy_string_def user_info_len_eq)
qed

text \<open>
  C22: a user key that goes at the wrong moment is read past its end. Whenever a producer has found or
  built the key and its \<^verbatim>\<open>GETRANGE\<close> is next, the \<^verbatim>\<open>DEL\<close> of the update process, or the end of the half
  hour, may come first. Then \<^verbatim>\<open>GETRANGE\<close> answers with an empty string, and for a range of two bytes or
  more \<^verbatim>\<open>ProduceMsg\<close> copies its whole length out of the reply, beyond its end.
\<close>

theorem vanished_key_overread:
  assumes "shared_run ks any_event evs s" and "at_work s i = Some (rd, DoGetrange)"
    and "first_uid rd div 8 < last_uid rd div 8"
  shows "\<exists>s' rd'. shared_run ks any_event (evs @ [Vanish, Answered i]) s' \<and>
    readers s' i = Some rd' \<and> position rd' = Undefined OutOfBounds"
proof -
  let ?s = "s\<lparr>key_space := (key_space s)(TMP_USER_INFO_KEY := None)\<rparr>"
  let ?r = "redis_answer (command_of rd DoGetrange) (key_space ?s)"
  have w: "at_work ?s i = Some (rd, DoGetrange)" using assms(2) by (simp add: at_work_def)
  have "shared_run ks any_event (evs @ [Vanish]) ?s"
    by (rule traces.run_step [OF assms(1)]) (simp_all add: any_event_def vanish)
  then have "shared_run ks any_event ((evs @ [Vanish]) @ [Answered i])
      (move i rd DoGetrange (Some ?r) (at_redis (command_of rd DoGetrange) ?s))"
    by (rule traces.run_step) (simp add: any_event_def, rule answered [OF w])
  then have "shared_run ks any_event (evs @ [Vanish, Answered i]) (move i rd DoGetrange (Some ?r) (at_redis (command_of rd DoGetrange) ?s))"
    by simp
  moreover have "reader_next (first_uid rd) (last_uid rd) DoGetrange (Some ?r) = Undefined OutOfBounds"
    using long_copy [OF assms(3)] by (simp add: command_of_def content_def getrange_def)
  ultimately show ?thesis by (auto simp: move_def)
qed

theorem vanished_key_overread_witness:
  "\<exists>s rd. shared_run (released [192, 3] (Some [192, 3])) any_event [Ask 0 0 15, Answered 0, Vanish, Answered 0] s \<and>
    readers s 0 = Some rd \<and> position rd = Undefined OutOfBounds"
proof -
  let ?rd = "\<lparr>first_uid = 0, last_uid = 15, position = At DoGetrange\<rparr>"
  have "case exec_trace exec_shared any_event [Ask 0 0 15, Answered 0] (shared_init (released [192, 3] (Some [192, 3]))) of
      None \<Rightarrow> False | Some s \<Rightarrow> at_work s 0 = Some (?rd, DoGetrange)"
    by code_simp
  then obtain s where s: "exec_trace exec_shared any_event [Ask 0 0 15, Answered 0] (shared_init (released [192, 3] (Some [192, 3]))) = Some s"
    "at_work s 0 = Some (?rd, DoGetrange)" by (auto split: option.splits)
  have "first_uid ?rd div 8 < last_uid ?rd div 8" by simp
  from vanished_key_overread [OF shared_exec.exec_run [OF s(1)] s(2) this] show ?thesis by simp
qed

end
