(* ===== verification/Reporting.thy ===== *)
theory Reporting
  imports LoadReport Scenarios
begin

text \<open>
  The load reports on their way: any number of producers with their counters and clients, the calls of
  \<^verbatim>\<open>ProducerImpl::LoadBalance\<close>, and the daemon they go to.
\<close>

section \<open>The calls\<close>

text \<open>A \<^verbatim>\<open>LoadBalanceAsyncCall\<close>: sent, answered by the daemon, or broken.\<close>

datatype report_call =
    ReportSent load_balance_request
  | ReportAnswered err_code
  | ReportBroken

record reporting =
  counters :: "nat \<Rightarrow> tps"
  clients :: "nat \<Rightarrow> daemon_client option"
  report_calls :: "report_call multiset"
  console :: "string list"
  report_daemon :: system

definition reporting_init :: reporting where
  "reporting_init = \<lparr>counters = (\<lambda>_. TpsReportService), clients = (\<lambda>_. None), report_calls = {#},
     console = [], report_daemon = system_init\<rparr>"

definition ProducerImpl_LoadBalance :: "load_balance_request \<Rightarrow> reporting \<Rightarrow> reporting" where
  "ProducerImpl_LoadBalance req s = s\<lparr>report_calls := add_mset (ReportSent req) (report_calls s)\<rparr>"

text \<open>
  The answer is not looked at. The failure of the call goes to the method of the base class
  \<^verbatim>\<open>daemon_client::AsyncCall\<close>.
\<close>

definition LoadBalance_OnGetResponse :: "reporting \<Rightarrow> reporting" where
  "LoadBalance_OnGetResponse s = s"

definition AsyncCall_OnResponseFail :: "reporting \<Rightarrow> reporting" where
  "AsyncCall_OnResponseFail s = s\<lparr>console := console s @ [''RPC fail!'']\<rparr>"

section \<open>Steps\<close>

datatype report_event =
    Count nat | Sum nat | Reset nat
  | Client nat "daemon_client option"
  | Report nat u32
  | Handled double load_balance_request
  | Broken load_balance_request
  | Completed report_call
  | ByDaemon event

fun is_load :: "event \<Rightarrow> bool" where
  "is_load (Load junk lreq) = True"
| "is_load _ = False"

definition count_with :: "nat \<Rightarrow> (tps \<Rightarrow> tps) \<Rightarrow> reporting \<Rightarrow> reporting" where
  "count_with p f s = s\<lparr>counters := (counters s)(p := f (counters s p))\<rparr>"

definition change_report :: "report_call \<Rightarrow> report_call \<Rightarrow> reporting \<Rightarrow> reporting" where
  "change_report a b s = s\<lparr>report_calls := add_mset b (report_calls s - {#a#})\<rparr>"

text \<open>The daemon handles a report, and the answer sets out.\<close>

definition handle_report :: "double \<Rightarrow> load_balance_request \<Rightarrow> reporting \<Rightarrow> reporting" where
  "handle_report junk req s =
     (let (err, d) = LoadBalance junk req (tables (report_daemon s))
      in change_report (ReportSent req) (ReportAnswered err) (s\<lparr>report_daemon := (report_daemon s)\<lparr>tables := d\<rparr>\<rparr>))"

definition report_status :: "report_call \<Rightarrow> bool option" where
  "report_status call = (case call of ReportSent _ \<Rightarrow> None | ReportAnswered _ \<Rightarrow> Some True | ReportBroken \<Rightarrow> Some False)"

text \<open>
  A message is counted, or a part of \<^verbatim>\<open>TpsReport\<close> done; the client of a producer changes its state; a
  turn of \<^verbatim>\<open>SendLoadBalanceInfo\<close> sends a report, with the task count it finds; the daemon handles a
  report; a call breaks; a call is completed; the daemon does anything else.
\<close>

inductive report_step :: "(string \<Rightarrow> string list) \<Rightarrow> report_event \<Rightarrow> reporting \<Rightarrow> reporting \<Rightarrow> bool" for sp where
  count: "report_step sp (Count p) s (count_with p Increment s)"
| sum: "report_step sp (Sum p) s (count_with p TpsReport_sum s)"
| reset: "report_step sp (Reset p) s (count_with p TpsReport_reset s)"
| client: "report_step sp (Client p c) s (s\<lparr>clients := (clients s)(p := c)\<rparr>)"
| report: "SendLoadBalanceInfo (clients s p) (counters s p) n = Inr (Some req) \<Longrightarrow>
    report_step sp (Report p n) s (ProducerImpl_LoadBalance req s)"
| handled: "ReportSent req \<in># report_calls s \<Longrightarrow> report_step sp (Handled junk req) s (handle_report junk req s)"
| broken: "ReportSent req \<in># report_calls s \<Longrightarrow>
    report_step sp (Broken req) s (change_report (ReportSent req) ReportBroken s)"
| completed: "call \<in># report_calls s \<Longrightarrow> report_status call = Some st \<Longrightarrow>
    HandleAsyncCall True st LoadBalance_OnGetResponse AsyncCall_OnResponseFail
      (s\<lparr>report_calls := report_calls s - {#call#}\<rparr>) = Some s' \<Longrightarrow>
    report_step sp (Completed call) s s'"
| by_daemon: "\<not> is_load ev \<Longrightarrow> sys_step sp ev (report_daemon s) d \<Longrightarrow>
    report_step sp (ByDaemon ev) s (s\<lparr>report_daemon := d\<rparr>)"

inductive_cases report_step_elims:
  "report_step sp (Count p) s s'" "report_step sp (Sum p) s s'" "report_step sp (Reset p) s s'"
  "report_step sp (Client p c) s s'" "report_step sp (Report p n) s s'" "report_step sp (Handled junk req) s s'"
  "report_step sp (Broken req) s s'" "report_step sp (Completed call) s s'" "report_step sp (ByDaemon ev) s s'"

definition exec_report :: "(string \<Rightarrow> string list) \<Rightarrow> report_event \<Rightarrow> reporting \<Rightarrow> reporting option" where
  "exec_report sp ev s = (case ev of
     Count p \<Rightarrow> Some (count_with p Increment s)
   | Sum p \<Rightarrow> Some (count_with p TpsReport_sum s)
   | Reset p \<Rightarrow> Some (count_with p TpsReport_reset s)
   | Client p c \<Rightarrow> Some (s\<lparr>clients := (clients s)(p := c)\<rparr>)
   | Report p n \<Rightarrow> (case SendLoadBalanceInfo (clients s p) (counters s p) n of
       Inr (Some req) \<Rightarrow> Some (ProducerImpl_LoadBalance req s) | _ \<Rightarrow> None)
   | Handled junk req \<Rightarrow>
       if ReportSent req \<in># report_calls s then Some (handle_report junk req s) else None
   | Broken req \<Rightarrow>
       if ReportSent req \<in># report_calls s then Some (change_report (ReportSent req) ReportBroken s) else None
   | Completed call \<Rightarrow>
       if call \<in># report_calls s then
         (case report_status call of None \<Rightarrow> None
          | Some st \<Rightarrow> HandleAsyncCall True st LoadBalance_OnGetResponse AsyncCall_OnResponseFail
              (s\<lparr>report_calls := report_calls s - {#call#}\<rparr>))
       else None
   | ByDaemon dev \<Rightarrow>
       if is_load dev then None else map_option (\<lambda>d. s\<lparr>report_daemon := d\<rparr>) (exec_event sp dev (report_daemon s)))"

lemma exec_report_iff: "exec_report sp ev s = Some s' \<longleftrightarrow> report_step sp ev s s'"
  by (cases ev) (auto simp: exec_report_def exec_event_iff Let_def intro: report_step.intros elim!: report_step_elims
      split: if_splits sum.splits option.splits prod.splits)

interpretation report_exec: executable_steps "report_step sp" "exec_report sp" for sp
  by unfold_locales (rule exec_report_iff)

section \<open>What is on the way\<close>

text \<open>A report that the daemon can read, with a positive score.\<close>

definition readable :: "load_balance_request \<Rightarrow> bool" where
  "readable req \<longleftrightarrow> (\<exists>v. extract_double (lb_score req) = Some v \<and> 0 < v)"

definition only_producers :: "report_event \<Rightarrow> reporting \<Rightarrow> bool" where
  "only_producers ev s = (case ev of ByDaemon (Register req env) \<Rightarrow> proc_name req = ''producer'' | _ \<Rightarrow> True)"

definition reporting_ok :: "reporting \<Rightarrow> bool" where
  "reporting_ok s \<longleftrightarrow> (\<forall>p. tps_ok (counters s p)) \<and>
     (\<forall>req. ReportSent req \<in># report_calls s \<longrightarrow> readable req) \<and> fleet_ranked (tables (report_daemon s))"

lemma report_readable:
  assumes "SendLoadBalanceInfo c t n = Inr (Some req)" and "tps_ok t"
  shows "readable req"
proof -
  from assms(1) have s: "lb_score req = show_double (report_score (GetAvgSpeed t) n)"
    by (auto simp: SendLoadBalanceInfo_def split: sum.splits option.splits)
  have "0 \<le> GetAvgSpeed t" "GetAvgSpeed t \<le> 10000" using assms(2) by (simp_all add: tps_ok_def GetAvgSpeed_def)
  from score_read [OF report_score_bounds [OF this]] show ?thesis unfolding readable_def s by blast
qed

lemma tps_ok_counted: "tps_ok t \<Longrightarrow> tps_ok (Increment t)" "tps_ok t \<Longrightarrow> tps_ok (TpsReport_reset t)"
  by (simp_all add: tps_ok_def Increment_def TpsReport_reset_def)

lemma daemon_fleet_event:
  "only_producers (ByDaemon ev) s \<Longrightarrow> \<not> is_load ev \<Longrightarrow> fleet_event ev t"
  by (cases ev) (simp_all add: only_producers_def fleet_event_def)

lemma handled_fleet: "fleet_ranked d \<Longrightarrow> readable req \<Longrightarrow> fleet_ranked (snd (LoadBalance junk req d))"
  by (rule LoadBalance_fleet) (auto simp: readable_def)

lemma handle_report_eq:
  "handle_report junk req s = change_report (ReportSent req) (ReportAnswered (fst (LoadBalance junk req (tables (report_daemon s)))))
     (s\<lparr>report_daemon := (report_daemon s)\<lparr>tables := snd (LoadBalance junk req (tables (report_daemon s)))\<rparr>\<rparr>)"
  by (simp add: handle_report_def split: prod.splits)

lemma step_reporting_ok:
  assumes "report_step sp ev s s'" and "only_producers ev s" and ok: "reporting_ok s"
  shows "reporting_ok s'"
  using assms(1)
proof (cases rule: report_step.cases)
  case (report p n req)
  with ok report_readable [OF report(3)] show ?thesis by (auto simp: reporting_ok_def ProducerImpl_LoadBalance_def)
next
  case (handled req junk)
  then have "fleet_ranked (snd (LoadBalance junk req (tables (report_daemon s))))"
    using ok by (simp add: reporting_ok_def handled_fleet)
  with handled ok show ?thesis by (auto simp: reporting_ok_def handle_report_eq change_report_def dest: in_diffD)
next
  case (completed call st)
  from completed(4) show ?thesis
    by (cases rule: HandleAsyncCall_cases)
      (use ok in \<open>auto simp: reporting_ok_def LoadBalance_OnGetResponse_def AsyncCall_OnResponseFail_def dest: in_diffD\<close>)
next
  case (by_daemon ev d)
  then have "fleet_ranked (tables d)"
    using ok daemon_fleet_event assms(2) step_fleet [OF by_daemon(4)] by (simp add: reporting_ok_def)
  with by_daemon ok show ?thesis by (simp add: reporting_ok_def)
qed (use ok in \<open>auto simp: reporting_ok_def count_with_def change_report_def tps_ok_sum tps_ok_counted dest: in_diffD\<close>)

interpretation reporting_inv: trace_invariant "report_step sp" reporting_init only_producers "\<lambda>_ s. reporting_ok s" for sp
proof unfold_locales
  show "reporting_ok reporting_init"
    by (simp add: reporting_ok_def reporting_init_def tps_ok_def TpsReportService_def system_init_def fleet_ranked_init)
qed (rule step_reporting_ok)

text \<open>
  C40: the load reports of the producers keep the dispatch of the daemon alive. Any number of producers
  count, report and lose their connections, in any interleaving with the daemon, where only producers
  register. Then every report on its way is one the daemon can read, with a positive score, and a thread
  that distributes a push is never in undefined behaviour, whatever number is drawn.
\<close>

theorem reports_keep_dispatch_alive:
  assumes "traces (report_step sp) reporting_init only_producers evs s"
  shows "(\<forall>req. ReportSent req \<in># report_calls s \<longrightarrow> readable req) \<and>
    (\<forall>who r cur draw. Selecting who r cur \<in># tasks (report_daemon s) \<longrightarrow> unat draw \<le> 10000 \<longrightarrow>
       (\<exists>s'. report_step sp (ByDaemon (Select draw who r cur)) s s'))"
proof -
  have ok: "reporting_ok s" by (rule reporting_inv.inv_run [OF assms])
  have "\<exists>s'. report_step sp (ByDaemon (Select draw who r cur)) s s'"
    if "Selecting who r cur \<in># tasks (report_daemon s)" "unat draw \<le> 10000" for who r cur draw
    using fleet_select_enabled [OF _ that, of sp] ok by_daemon [of "Select draw who r cur" sp s]
    by (auto simp: reporting_ok_def)
  with ok show ?thesis by (auto simp: reporting_ok_def)
qed

text \<open>How the score of an unused producer is printed and read, as equations for the evaluation of runs.\<close>

lemma show_ten: "show_double 10 = ''10''"
proof -
  have f: "\<lfloor>10 :: rat\<rfloor> = 10" by (rule floor_numeral)
  have e: "dec_exp 10 = 1" by (simp add: dec_exp_def show_nat.simps f)
  have d: "digit_char 0 = CHR ''0''" "digit_char (Suc 0) = CHR ''1''" by code_simp+
  have r: "rne (100000 :: rat) = 100000" by code_simp
  have "six_digits 10 = (100000, 1)" by (simp add: six_digits_def e r power_int_def Let_def)
  then show ?thesis
    by (simp add: show_double_def show_pos_def fixed_string_def show_nat.simps d with_fraction_def strip_zeros_def)
qed

lemma show_double_code [code]:
  "show_double x = (if x = 10 then ''10'' else if x = 0 then ''0'' else if x < 0 then CHR ''-'' # show_pos (- x) else show_pos x)"
  by (simp add: show_ten) (simp add: show_double_def)

lemma read_ten: "extract_double ''10'' = Some 10"
proof -
  have "fl64 10 = 10" by code_simp
  then show ?thesis
    by (simp add: extract_double_def split_sign_def split_digits_def split_fraction_def is_space_def is_digit_def
        parse_exponent_def decimal_value_def clamp_dbl_def dbl_max_def nat_of_digits_def digit_val_def)
qed

lemma extract_double_code [code]:
  "extract_double s =
     (if s = ''10'' then Some 10
      else let s1 = dropWhile is_space s in
        if s1 = [] then None
        else let (neg, s2) = split_sign s1; (ip, s3) = split_digits s2; (fp, s4) = split_fraction s3
          in if ip = [] \<and> fp = [] then Some 0
             else case parse_exponent s4 of None \<Rightarrow> Some 0
               | Some e \<Rightarrow> Some (clamp_dbl (fl64 (decimal_value neg ip fp e))))"
proof (cases "s = ''10''")
  case True
  with read_ten show ?thesis by simp
next
  case False
  then show ?thesis unfolding extract_double_def by simp
qed

text \<open>A producer reports to a daemon that has one chunk with it and one to send; the second report breaks.\<close>

definition report_client :: daemon_client where
  "report_client = (DaemonClientImpl ''50053'' ''producer'' 601)\<lparr>serverId := Some 5, clientStatus := REGISTERED\<rparr>"

definition first_report :: load_balance_request where
  "first_report = \<lparr>lb_server_id = 5, lb_score = ''10''\<rparr>"

definition report_events :: "report_event list" where
  "report_events = [ByDaemon (Register producer_request (at_time 0)), Client 1 (Some report_client),
     ByDaemon (Begin demo_push), Report 1 0, Handled 0 first_report, Completed (ReportAnswered SUCCESS),
     ByDaemon Timer, Report 1 0, Broken first_report, Completed ReportBroken, Report 1 0]"

theorem reports_keep_dispatch_alive_witness:
  "\<exists>s. traces (report_step split_colon) reporting_init only_producers report_events s \<and>
    console s = [''RPC fail!''] \<and> readable first_report \<and>
    (\<exists>s'. report_step split_colon (ByDaemon (Select 7 ByBeginPush demo_request 0)) s s')"
proof -
  have "case exec_trace (exec_report split_colon) only_producers report_events reporting_init of None \<Rightarrow> False
    | Some s \<Rightarrow> console s = [''RPC fail!''] \<and> ReportSent first_report \<in># report_calls s \<and>
        Selecting ByBeginPush demo_request 0 \<in># tasks (report_daemon s)"
    by code_simp
  then obtain s where s: "exec_trace (exec_report split_colon) only_producers report_events reporting_init = Some s"
    "console s = [''RPC fail!'']" "ReportSent first_report \<in># report_calls s"
    "Selecting ByBeginPush demo_request 0 \<in># tasks (report_daemon s)"
    by (auto split: option.splits)
  note run = report_exec.exec_run [OF s(1)]
  have "unat (7 :: u32) \<le> 10000" by simp
  with reports_keep_dispatch_alive [OF run] run s(2-4) show ?thesis by blast
qed

end
