(* ===== verification/NetworkFacts.thy ===== *)
theory NetworkFacts
  imports EndToEnd
begin

text \<open>
  What holds in every run of the daemon with its producers: each side is a run of its own model,
  the RPCs on the wire are the calls the daemon waits for, and what is answered has been asked,
  read from the bitmap, and sent.
\<close>

section \<open>The invariant\<close>

text \<open>
  Redis behaves as documented, each process shares it with the others, and there the bitmap \<open>b\<close>
  of the users is cached or a request builds it; the pushes end inside the bitmap, at \<open>E\<close> at the latest.
\<close>

definition ready ::
  "'w hiredis \<Rightarrow> ('w \<Rightarrow> keyspace) \<Rightarrow> ('w \<Rightarrow> bool) \<Rightarrow> keyspace \<Rightarrow> bytes \<Rightarrow> u64 \<Rightarrow> (nat \<Rightarrow> redis_handler \<times> 'w) \<Rightarrow> bool" where
  "ready cl db up ks b E r \<longleftrightarrow> redis_shared cl db up \<and> with_user_info ks TMP_USER_INFO_KEY = Some b \<and>
     (\<forall>p. shares db up ks (r p)) \<and> fits E \<and> unat E div 8 < length b"

lemma readyD:
  assumes "ready cl db up ks b E r"
  shows "redis_shared cl db up" "with_user_info ks TMP_USER_INFO_KEY = Some b" "shares db up ks (r p)"
    "fits E" "unat E div 8 < length b"
  using assms by (simp_all add: ready_def)

text \<open>The guard of a run: which pushes begin.\<close>

definition net_guard :: "u64 \<Rightarrow> net_event \<Rightarrow> 'w network \<Rightarrow> bool" where
  "net_guard E ev s = (case ev of Local dev \<Rightarrow> pushes_in E dev (net_daemon s) | _ \<Rightarrow> True)"

abbreviation net_run ::
  "(string \<Rightarrow> string list) \<Rightarrow> 'w hiredis \<Rightarrow> (u64 \<Rightarrow> u32 \<Rightarrow> string) \<Rightarrow> (nat \<Rightarrow> redis_handler \<times> 'w) \<Rightarrow> u64 \<Rightarrow>
   net_event list \<Rightarrow> 'w network \<Rightarrow> bool" where
  "net_run sp cl ser r E \<equiv> traces (net_step sp cl ser) (network_init r) (net_guard E)"

text \<open>The arrival of a call at an object, with the users of its range.\<close>

definition asks :: "bytes \<Rightarrow> async_call \<Rightarrow> nat \<Rightarrow> producer_event" where
  "asks b c n = Request n (call_request c)
     (Some (users_in b (start_uid (call_request c)) (end_uid (call_request c))))"

definition answered ::
  "'w hiredis \<Rightarrow> (u64 \<Rightarrow> u32 \<Rightarrow> string) \<Rightarrow> (nat \<Rightarrow> redis_handler \<times> 'w) \<Rightarrow> bytes \<Rightarrow> net_event list \<Rightarrow> async_call \<Rightarrow> bool" where
  "answered cl ser r b evs c \<longleftrightarrow> (\<exists>p n pevs rest ps j. producer_events p evs = pevs @ rest \<and>
     producer_run cl ser (r p) pevs ps \<and> asks b c n \<in> set pevs \<and> jobs ps n = Some j \<and> job_reply j \<noteq> None)"

definition wire_ok ::
  "'w hiredis \<Rightarrow> (u64 \<Rightarrow> u32 \<Rightarrow> string) \<Rightarrow> (nat \<Rightarrow> redis_handler \<times> 'w) \<Rightarrow> bytes \<Rightarrow> net_event list \<Rightarrow> 'w network \<Rightarrow> rpc \<Rightarrow> bool" where
  "wire_ok cl ser r b evs s w = (case w of Travelling c \<Rightarrow> True
     | Serving c p n \<Rightarrow> jobs (net_producers s p) n \<noteq> None \<and> asks b c n \<in> set (producer_events p evs)
     | Replied c err \<Rightarrow> err = SUCCESS \<and> answered cl ser r b evs c)"

definition net_ok ::
  "(string \<Rightarrow> string list) \<Rightarrow> 'w hiredis \<Rightarrow> (u64 \<Rightarrow> u32 \<Rightarrow> string) \<Rightarrow> ('w \<Rightarrow> keyspace) \<Rightarrow> ('w \<Rightarrow> bool) \<Rightarrow> keyspace \<Rightarrow>
   (nat \<Rightarrow> redis_handler \<times> 'w) \<Rightarrow> bytes \<Rightarrow> u64 \<Rightarrow> net_event list \<Rightarrow> 'w network \<Rightarrow> bool" where
  "net_ok sp cl ser db up ks r b E evs s \<longleftrightarrow>
     run sp (pushes_in E) (daemon_events evs) (net_daemon s) \<and>
     (\<forall>p. producer_run cl ser (r p) (producer_events p evs) (net_producers s p) \<and>
        shares db up ks (redis (net_producers s p)) \<and> failed (producer_events p evs) = {}) \<and>
     image_mset rpc_call (wire s) = calls_of (net_daemon s) \<and>
     (\<forall>w \<in># wire s. wire_ok cl ser r b evs s w) \<and>
     (\<forall>c ok. Complete c ok True SUCCESS \<in> set (daemon_events evs) \<longrightarrow> answered cl ser r b evs c)"

lemma net_okD:
  assumes "net_ok sp cl ser db up ks r b E evs s"
  shows "run sp (pushes_in E) (daemon_events evs) (net_daemon s)"
    and "producer_run cl ser (r p) (producer_events p evs) (net_producers s p)"
    and "shares db up ks (redis (net_producers s p))"
    and "image_mset rpc_call (wire s) = calls_of (net_daemon s)"
    and "w \<in># wire s \<Longrightarrow> wire_ok cl ser r b evs s w"
    and "Complete c ok True SUCCESS \<in> set (daemon_events evs) \<Longrightarrow> answered cl ser r b evs c"
    and "failed (producer_events p evs) = {}"
  using assms unfolding net_ok_def by blast+

lemma failed_simps [simp]:
  "failed [] = {}" "failed (evs @ evs') = failed evs \<union> failed evs'" "failed [asks b c n] = {}"
  by (auto simp: failed_def asks_def)

lemma answered_mono: "answered cl ser r b evs c \<Longrightarrow> answered cl ser r b (evs @ evs') c"
  unfolding answered_def by (metis append_assoc producer_events_simps(2))

lemma wire_ok_mono:
  assumes "wire_ok cl ser r b evs s w"
    and "\<And>c p n. w = Serving c p n \<Longrightarrow> jobs (net_producers s p) n \<noteq> None \<Longrightarrow> jobs (net_producers s' p) n \<noteq> None"
  shows "wire_ok cl ser r b (evs @ evs') s' w"
  using assms by (cases w) (auto simp: wire_ok_def answered_mono)

section \<open>Steps\<close>

lemma jobs_kept:
  "producer_step cl ser ev s s' \<Longrightarrow> jobs s n \<noteq> None \<Longrightarrow> ev \<noteq> ReplyDone n \<Longrightarrow> jobs s' n \<noteq> None"
  by (erule producer_step.cases)
    (auto simp: Proceed_request_def ProduceMsg_def send_next_def drop_worker_def onSuccess_def NotifyOne_def
      onException_def RetrySending_def unlock_def Proceed_finish_def Let_def
      split: option.splits if_splits sum.splits prod.splits)

lemma call_in_flight: "c \<in># calls_of d \<Longrightarrow> InFlight c \<in># tasks d"
  by (auto simp: calls_of_def elim!: is_call.elims)

lemma wire_call:
  assumes "net_ok sp cl ser db up ks r b E evs s" and "w \<in># wire s"
  shows "InFlight (rpc_call w) \<in># tasks (net_daemon s)"
proof -
  have "rpc_call w \<in># image_mset rpc_call (wire s)" using assms(2) by simp
  then show ?thesis unfolding net_okD(4) [OF assms(1)] by (rule call_in_flight)
qed

text \<open>The range of a call on the wire.\<close>

lemma wire_range:
  assumes "ready cl db up ks b E r" and "net_ok sp cl ser db up ks r b E evs s" and "w \<in># wire s"
  shows "request_in E (call_request (rpc_call w))" and "chunk_wide (call_request (rpc_call w))"
    and "start_uid (call_request (rpc_call w)) \<le> end_uid (call_request (rpc_call w))"
    and "unat (end_uid (call_request (rpc_call w))) div 8 < length b"
proof -
  have "calls_in E (daemon_events evs) (net_daemon s)"
    by (rule run_calls_in [OF readyD(4) [OF assms(1)] net_okD(1) [OF assms(2)]])
  then have "task_in E (InFlight (rpc_call w))" using wire_call [OF assms(2,3)] by (simp add: calls_in_def)
  then show r: "request_in E (call_request (rpc_call w))" "chunk_wide (call_request (rpc_call w))"
    by (simp_all add: task_in_def)
  then show "start_uid (call_request (rpc_call w)) \<le> end_uid (call_request (rpc_call w))"
    by (simp add: chunk_wide_def)
  show "unat (end_uid (call_request (rpc_call w))) div 8 < length b"
    using r(1) readyD(5) [OF assms(1)]
    by (auto simp: request_in_def word_le_nat_alt intro: le_less_trans div_le_mono)
qed

text \<open>A step of the daemon, with what it does to the wire.\<close>

lemma net_ok_daemon:
  assumes ok: "net_ok sp cl ser db up ks r b E evs s" and st: "sys_step sp dev (net_daemon s) d"
    and side: "daemon_side ev = [dev]" "\<And>p. producer_side p ev = []" and guard: "pushes_in E dev (net_daemon s)"
    and s': "net_daemon s' = d" "net_producers s' = net_producers s"
    and W: "image_mset rpc_call (wire s') = calls_of d"
      "\<And>w. w \<in># wire s' \<Longrightarrow> w \<in># wire s \<or> (\<exists>c. w = Travelling c)"
    and confirmed: "\<And>c ok. dev = Complete c ok True SUCCESS \<Longrightarrow> answered cl ser r b evs c"
  shows "net_ok sp cl ser db up ks r b E (evs @ [ev]) s'"
proof -
  have "run sp (pushes_in E) (daemon_events evs @ [dev]) d" using net_okD(1) [OF ok] guard st by (rule run_step)
  moreover have "wire_ok cl ser r b (evs @ [ev]) s' w" if "w \<in># wire s'" for w
  proof -
    from W(2) [OF that] show ?thesis
    proof
      assume "w \<in># wire s"
      from net_okD(5) [OF ok this] show ?thesis by (rule wire_ok_mono) (simp add: s'(2))
    qed (auto simp: wire_ok_def)
  qed
  moreover have "answered cl ser r b (evs @ [ev]) c"
    if "Complete c k True SUCCESS \<in> set (daemon_events evs @ [dev])" for c k
    using that confirmed [of c k] net_okD(6) [OF ok, of c k] by (auto intro: answered_mono)
  ultimately show ?thesis
    using net_okD(2,3,7) [OF ok] W(1) unfolding net_ok_def by (simp add: side s')
qed

text \<open>A step of a process, with what it does to the wire.\<close>

lemma net_ok_producer:
  assumes ok: "net_ok sp cl ser db up ks r b E evs s" and st: "producer_step cl ser pev (net_producers s p) t"
    and side: "daemon_side ev = []" "\<And>q. producer_side q ev = (if p = q then [pev] else [])"
    and small: "small_request pev (net_producers s p)" and f: "failed [pev] = {}" and c: "shares db up ks (redis t)"
    and s': "net_daemon s' = net_daemon s" "net_producers s' = (net_producers s)(p := t)"
    and W: "image_mset rpc_call (wire s') = image_mset rpc_call (wire s)"
      "\<And>w. w \<in># wire s' \<Longrightarrow> w \<in># wire s \<and> (\<forall>n. pev = ReplyDone n \<longrightarrow> \<not> serves_object p n w) \<or>
         wire_ok cl ser r b (evs @ [ev]) s' w"
  shows "net_ok sp cl ser db up ks r b E (evs @ [ev]) s'"
proof -
  have "producer_run cl ser (r q) (producer_events q (evs @ [ev])) (net_producers s' q) \<and>
      shares db up ks (redis (net_producers s' q)) \<and> failed (producer_events q (evs @ [ev])) = {}" for q
  proof (cases "p = q")
    case True
    have "producer_run cl ser (r p) (producer_events p evs @ [pev]) t"
      using net_okD(2) [OF ok] small st by (rule run_step)
    with True c f net_okD(7) [OF ok] show ?thesis by (simp add: side s')
  next
    case False
    with net_okD(2,3,7) [OF ok] show ?thesis by (simp add: side s')
  qed
  moreover have "wire_ok cl ser r b (evs @ [ev]) s' w" if "w \<in># wire s'" for w
  proof (rule disjE [OF W(2) [OF that]])
    assume old: "w \<in># wire s \<and> (\<forall>n. pev = ReplyDone n \<longrightarrow> \<not> serves_object p n w)"
    show ?thesis
    proof (rule wire_ok_mono [OF net_okD(5) [OF ok]])
      show "w \<in># wire s" using old by simp
    next
      fix c q n assume "w = Serving c q n" "jobs (net_producers s q) n \<noteq> None"
      with old jobs_kept [OF st, of n] show "jobs (net_producers s' q) n \<noteq> None"
        by (auto simp: s' serves_object_def)
    qed
  qed
  ultimately show ?thesis
    using net_okD(1,4,6) [OF ok] W(1) unfolding net_ok_def by (auto simp: side s' answered_mono)
qed

lemma rpc_calls_change:
  assumes "w \<in># W" and "rpc_call w' = rpc_call w"
  shows "image_mset rpc_call (add_mset w' (W - {#w#})) = image_mset rpc_call W"
proof -
  obtain M where "W = add_mset w M" using assms(1) by (metis insert_DiffM)
  with assms(2) show ?thesis by simp
qed

lemma rpc_calls_end:
  assumes "w \<in># wire s" and "image_mset rpc_call (wire s) = calls_of (net_daemon s)"
    and "calls_of (net_daemon s) = add_mset (rpc_call w) C"
  shows "image_mset rpc_call (wire (end_rpc w d s)) = C"
proof -
  obtain M where "wire s = add_mset w M" using assms(1) by (metis insert_DiffM)
  with assms(2,3) show ?thesis by simp
qed

lemma arrive_reads:
  assumes "ready cl db up ks b E r" and "net_ok sp cl ser db up ks r b E evs s" and "Travelling c \<in># wire s"
    and "producer_step cl ser (Request n (call_request c) res) (net_producers s p) t"
  shows "res = Some (users_in b (start_uid (call_request c)) (end_uid (call_request c)))"
    and "shares db up ks (redis t)" and "jobs t n \<noteq> None" and "Request n (call_request c) res = asks b c n"
    and "small_request (Request n (call_request c) res) (net_producers s p)"
proof -
  note w = wire_range [OF assms(1-3), simplified]
  obtain t' where t': "Proceed_request cl ser (call_request c) (net_producers s p) =
      Inr (Some (users_in b (start_uid (call_request c)) (end_uid (call_request c))), t')"
    "shares db up ks (redis t')" "jobs t' (created (net_producers s p)) \<noteq> None"
    using request_reads [OF readyD(1,2) [OF assms(1)] net_okD(3) [OF assms(2)] w(3,4)] by blast
  have "n = created (net_producers s p)" "Proceed_request cl ser (call_request c) (net_producers s p) = Inr (res, t)"
    using assms(4) by (auto elim: producer_step_elims)
  with t' show res: "res = Some (users_in b (start_uid (call_request c)) (end_uid (call_request c)))"
    "shares db up ks (redis t)" "jobs t n \<noteq> None" by auto
  show "Request n (call_request c) res = asks b c n" by (simp add: asks_def res)
  show "small_request (Request n (call_request c) res) (net_producers s p)"
    using users_in_length [OF w(2), of b] by (simp add: small_request_def res)
qed

lemma works_facts:
  "works p ev W \<Longrightarrow> (\<forall>n req res. ev \<noteq> Request n req res) \<and> failed [ev] = {} \<and> small_request ev s"
  "works p (ReplyDone n) W \<Longrightarrow> w \<in># W \<Longrightarrow> \<not> serves_object p n w"
  by (cases ev) (auto simp: works_def small_request_def failed_def)

lemma reply_is_success:
  assumes "producer_run cl ser r evs s" and "jobs s n = Some j" and "job_reply j = Some err"
  shows "err = SUCCESS"
proof -
  have "jobs_ok (failed evs) (pending_msgs s) (created s) (jobs s)"
    using producer_inv.inv_run [OF assms(1)] by (simp add: producer_ok_def)
  from jobs_okD(2) [OF this assms(2)] assms(3) show ?thesis by (auto simp: job_ok_def split: if_splits)
qed

lemma depart_answered:
  assumes ok: "net_ok sp cl ser db up ks r b E evs s" and "Serving c p n \<in># wire s"
    and j: "jobs (net_producers s p) n = Some j" "job_reply j = Some err"
  shows "err = SUCCESS" and "answered cl ser r b evs c"
proof -
  show "err = SUCCESS" by (rule reply_is_success [OF net_okD(2) [OF ok] j])
  have "asks b c n \<in> set (producer_events p evs)"
    using net_okD(5) [OF ok assms(2)] by (simp add: wire_ok_def)
  with net_okD(2) [OF ok, of p] j show "answered cl ser r b evs c"
    unfolding answered_def by (metis append_Nil2 option.distinct(1))
qed

lemma step_net_ok:
  assumes rd: "ready cl db up ks b E r" and ok: "net_ok sp cl ser db up ks r b E evs s"
    and guard: "net_guard E ev s" and st: "net_step sp cl ser ev s s'"
  shows "net_ok sp cl ser db up ks r b E (evs @ [ev]) s'"
  using st
proof (cases rule: net_step.cases)
  case (local_event dev d)
  have "daemon_ok (tables (net_daemon s))" by (rule ok_inv.inv_run [OF net_okD(1) [OF ok]])
  then have "calls_of (net_daemon s) \<subseteq># calls_of d" using calls_local local_event(3,4) by blast
  then have W: "image_mset rpc_call (wire (with_daemon d s)) = calls_of d"
    using net_okD(4) [OF ok] by (simp add: with_daemon_def image_mset.compositionality comp_def)
  show ?thesis
    by (rule net_ok_daemon [OF ok local_event(4)])
      (use local_event guard W in \<open>auto simp: net_guard_def with_daemon_def\<close>)
next
  case (arrive c n res p t)
  note a = arrive_reads [OF rd ok arrive(3,4)]
  show ?thesis
  proof (rule net_ok_producer [OF ok arrive(4) _ _ a(5) _ a(2)])
    show "image_mset rpc_call (wire s') = image_mset rpc_call (wire s)"
      using rpc_calls_change [OF arrive(3), of "Serving c p n"] by (simp add: arrive(2))
  next
    fix w assume "w \<in># wire s'"
    then consider "w = Serving c p n" | "w \<in># wire s" by (auto simp: arrive(2) dest: in_diffD)
    then show "w \<in># wire s \<and> (\<forall>m. Request n (call_request c) res = ReplyDone m \<longrightarrow> \<not> serves_object p m w) \<or>
        wire_ok cl ser r b (evs @ [ev]) s' w"
      using a(3) by cases (simp_all add: wire_ok_def arrive(1,2) a(4) [symmetric])
  qed (simp_all add: arrive(1,2) a(4))
next
  case (work p pev t)
  have "redis t = redis (net_producers s p)"
    using work(4) works_facts(1) [OF work(3)] by (blast intro: redis_frame)
  then have c: "shares db up ks (redis t)" using net_okD(3) [OF ok] by simp
  show ?thesis
    by (rule net_ok_producer [OF ok work(4)])
      (use work works_facts c in \<open>auto simp: works_facts(1) [THEN conjunct2] works_facts(1) [THEN conjunct2, THEN conjunct1]\<close>)
next
  case (depart c p n j err)
  note a = depart_answered [OF ok depart(3-5)]
  have "wire_ok cl ser r b (evs @ [ev]) s' w" if "w \<in># wire s'" for w
  proof -
    have "w = Replied c err \<or> w \<in># wire s" using that by (auto simp: depart(2) dest: in_diffD)
    then show ?thesis
    proof
      assume "w = Replied c err"
      with a show ?thesis by (simp add: wire_ok_def answered_mono)
    next
      assume "w \<in># wire s"
      from net_okD(5) [OF ok this] show ?thesis by (rule wire_ok_mono) (simp add: depart(2))
    qed
  qed
  moreover have "image_mset rpc_call (wire s') = image_mset rpc_call (wire s)"
    using rpc_calls_change [OF depart(3), of "Replied c err"] by (simp add: depart(2))
  ultimately show ?thesis
    using net_okD(1-4,6,7) [OF ok] unfolding net_ok_def by (simp add: depart(1,2) answered_mono)
next
  case (deliver c err d)
  note W = rpc_calls_end [OF deliver(3) net_okD(4) [OF ok], simplified, OF calls_complete [OF deliver(4)]]
  have "err = SUCCESS" "answered cl ser r b evs c" using net_okD(5) [OF ok deliver(3)] by (simp_all add: wire_ok_def)
  then show ?thesis
    by (intro net_ok_daemon [OF ok deliver(4)])
      (use deliver W in \<open>auto simp: pushes_in_def dest: in_diffD\<close>)
next
  case (break w d)
  note W = rpc_calls_end [OF break(3) net_okD(4) [OF ok] calls_complete [OF break(4)]]
  show ?thesis
    by (rule net_ok_daemon [OF ok break(4)])
      (use break W in \<open>auto simp: pushes_in_def dest: in_diffD\<close>)
qed

lemma calls_init: "calls_of system_init = {#}"
  by (simp add: calls_of_def system_init_def)

lemma net_ok_init:
  assumes "ready cl db up ks b E r"
  shows "net_ok sp cl ser db up ks r b E [] (network_init r)"
  unfolding net_ok_def network_init_def
  by (simp add: run_start readyD(3) [OF assms] producer_init_def calls_init)

interpretation net_inv: trace_invariant "net_step sp cl ser" "network_init r" "net_guard E"
  "\<lambda>evs s. ready cl db up ks b E r \<longrightarrow> net_ok sp cl ser db up ks r b E evs s" for sp cl ser r E db up ks b
  by unfold_locales (auto intro: net_ok_init step_net_ok)

end
