(* ===== verification/NetworkProgress.thy ===== *)
theory NetworkProgress
  imports NetworkFacts Progress
begin

text \<open>
  Progress of the daemon with its producers: every call on the wire can be brought to a good
  answer, so whatever the daemon can do alone it can do with the producers.
\<close>

section \<open>Runs with a fleet of producers\<close>

text \<open>Besides the guard of the pushes, only producers register, and no load report is negative.\<close>

definition fleet_guard :: "u64 \<Rightarrow> net_event \<Rightarrow> 'w network \<Rightarrow> bool" where
  "fleet_guard E ev s \<longleftrightarrow> net_guard E ev s \<and> (case ev of Local dev \<Rightarrow> fleet_event dev (net_daemon s) | _ \<Rightarrow> True)"

abbreviation fleet_run ::
  "(string \<Rightarrow> string list) \<Rightarrow> 'w hiredis \<Rightarrow> (u64 \<Rightarrow> u32 \<Rightarrow> string) \<Rightarrow> (nat \<Rightarrow> redis_handler \<times> 'w) \<Rightarrow> u64 \<Rightarrow>
   net_event list \<Rightarrow> 'w network \<Rightarrow> bool" where
  "fleet_run sp cl ser r E \<equiv> traces (net_step sp cl ser) (network_init r) (fleet_guard E)"

lemma fleet_run_net: "fleet_run sp cl ser r E evs s \<Longrightarrow> net_run sp cl ser r E evs s"
  by (induction rule: traces.induct) (auto intro: traces.intros simp: fleet_guard_def)

lemma daemon_step_side:
  assumes "net_step sp cl ser ev s s'"
  obtains "daemon_side ev = []" "net_daemon s' = net_daemon s"
    | dev where "daemon_side ev = [dev]" "sys_step sp dev (net_daemon s) (net_daemon s')"
        "is_complete dev \<or> ev = Local dev"
  using assms by (cases rule: net_step.cases) auto

lemma fleet_run_daemon: "fleet_run sp cl ser r E evs s \<Longrightarrow> run sp fleet_event (daemon_events evs) (net_daemon s)"
proof (induction rule: traces.induct)
  case run_start
  then show ?case by (simp add: network_init_def traces.run_start)
next
  case (run_step evs s ev s')
  from run_step(3) show ?case
  proof (cases rule: daemon_step_side)
    case 1
    with run_step.IH show ?thesis by simp
  next
    case (2 dev)
    have "fleet_event dev (net_daemon s)"
      using 2(3) run_step(2) by (auto simp: fleet_guard_def fleet_event_def elim: is_complete.elims)
    from traces.run_step [where step = "sys_step sp", OF run_step.IH this 2(2)] show ?thesis by (simp add: 2(1))
  qed
qed

lemma fleet_run_step:
  "fleet_run sp cl ser r E evs s \<Longrightarrow> fleet_guard E ev s \<Longrightarrow> net_step sp cl ser ev s s' \<Longrightarrow>
    fleet_run sp cl ser r E (evs @ [ev]) s'"
  by (rule traces.run_step)

section \<open>A call is confirmed\<close>

text \<open>A process sends all its messages, without help of the others.\<close>

lemma messages_sent:
  assumes "ready cl db up ks b E r" and "fleet_run sp cl ser r E evs s"
  shows "\<exists>evs' s'. fleet_run sp cl ser r E (evs @ evs') s' \<and> daemon_events evs' = [] \<and> net_daemon s' = net_daemon s \<and>
    wire s' = wire s \<and> pending_msgs (net_producers s' p) = {#}"
  using assms(2)
proof (induction "msg_work (net_producers s p)" arbitrary: s evs rule: less_induct)
  case less
  show ?case
  proof (cases "pending_msgs (net_producers s p) = {#}")
    case True
    with less.prems show ?thesis by (intro exI [of _ "[]"] exI [of _ s]) simp
  next
    case False
    have ok: "net_ok sp cl ser db up ks r b E evs s"
      using net_inv.inv_run [OF fleet_run_net [OF less.prems]] assms(1) by blast
    obtain ev t where t: "send_event ev" "producer_step cl ser ev (net_producers s p) t"
      "msg_work t < msg_work (net_producers s p)"
      using progress_msg [OF producer_inv.inv_run [OF net_okD(2) [OF ok]] False] by blast
    let ?s = "with_producer p t s"
    have w: "works p ev (wire s)" using t(1) by (cases ev) (simp_all add: send_event_def works_def)
    have run: "fleet_run sp cl ser r E (evs @ [Work p ev]) ?s"
      by (rule fleet_run_step [OF less.prems])
        (use w t(2) in \<open>auto simp: fleet_guard_def net_guard_def intro: net_step.work\<close>)
    have "msg_work (net_producers ?s p) < msg_work (net_producers s p)" using t(3) by simp
    from less.hyps [OF this run] obtain evs' s' where s': "fleet_run sp cl ser r E ((evs @ [Work p ev]) @ evs') s'"
      "daemon_events evs' = []" "net_daemon s' = net_daemon s" "wire s' = wire s" "pending_msgs (net_producers s' p) = {#}"
      by auto
    then show ?thesis by (intro exI [of _ "Work p ev # evs'"] exI [of _ s']) (simp add: daemon_events_def)
  qed
qed

text \<open>A good answer is delivered.\<close>

definition confirms ::
  "(string \<Rightarrow> string list) \<Rightarrow> 'w hiredis \<Rightarrow> (u64 \<Rightarrow> u32 \<Rightarrow> string) \<Rightarrow> (nat \<Rightarrow> redis_handler \<times> 'w) \<Rightarrow> u64 \<Rightarrow>
   net_event list \<Rightarrow> event \<Rightarrow> system \<Rightarrow> bool" where
  "confirms sp cl ser r E evs dev d \<longleftrightarrow>
     (\<exists>evs' s'. fleet_run sp cl ser r E (evs @ evs') s' \<and> daemon_events evs' = [dev] \<and> net_daemon s' = d)"

lemma confirms_later:
  assumes "confirms sp cl ser r E (evs @ evs1) dev d" and "daemon_events evs1 = []"
  shows "confirms sp cl ser r E evs dev d"
proof -
  obtain evs' s' where "fleet_run sp cl ser r E ((evs @ evs1) @ evs') s'" "daemon_events evs' = [dev]" "net_daemon s' = d"
    using assms(1) unfolding confirms_def by blast
  with assms(2) show ?thesis
    unfolding confirms_def by (intro exI [of _ "evs1 @ evs'"] exI [of _ s']) simp
qed

lemma confirms_step:
  assumes "fleet_run sp cl ser r E evs s" and "fleet_guard E ev s" and "net_step sp cl ser ev s s'"
    and "daemon_side ev = [dev]" and "net_daemon s' = d"
  shows "confirms sp cl ser r E evs dev d"
  using fleet_run_step [OF assms(1-3)] assms(4,5) unfolding confirms_def
  by (intro exI [of _ "[ev]"] exI [of _ s']) simp

lemma replied_confirmed:
  assumes "fleet_run sp cl ser r E evs s" and "Replied c SUCCESS \<in># wire s"
    and "sys_step sp (Complete c True True SUCCESS) (net_daemon s) d"
  shows "confirms sp cl ser r E evs (Complete c True True SUCCESS) d"
  by (rule confirms_step [OF assms(1), of "Deliver c SUCCESS" "end_rpc (Replied c SUCCESS) d s"])
    (use assms(2,3) in \<open>auto simp: fleet_guard_def net_guard_def intro: net_step.deliver\<close>)

lemma serving_confirmed:
  assumes rd: "ready cl db up ks b E r" and run: "fleet_run sp cl ser r E evs s" and w: "Serving c p n \<in># wire s"
    and st: "sys_step sp (Complete c True True SUCCESS) (net_daemon s) d"
  shows "confirms sp cl ser r E evs (Complete c True True SUCCESS) d"
proof -
  obtain evs1 s1 where s1: "fleet_run sp cl ser r E (evs @ evs1) s1" "daemon_events evs1 = []"
    "net_daemon s1 = net_daemon s" "wire s1 = wire s" "pending_msgs (net_producers s1 p) = {#}"
    using messages_sent [OF rd run] by blast
  have ok: "net_ok sp cl ser db up ks r b E (evs @ evs1) s1"
    using net_inv.inv_run [OF fleet_run_net [OF s1(1)]] rd by blast
  obtain j where j: "jobs (net_producers s1 p) n = Some j"
    using net_okD(5) [OF ok, of "Serving c p n"] w s1(4) by (auto simp: wire_ok_def)
  have "jobs_ok {} {#} (created (net_producers s1 p)) (jobs (net_producers s1 p))"
    using producer_inv.inv_run [OF net_okD(2) [OF ok, of p]] net_okD(7) [OF ok, of p] s1(5) by (simp add: producer_ok_def)
  from jobs_okD(2) [OF this j] have reply: "job_reply j = Some SUCCESS" by (auto simp: job_ok_def split: if_splits)
  let ?s2 = "change_rpc (Serving c p n) (Replied c SUCCESS) s1"
  have "net_step sp cl ser (Depart c p n SUCCESS) s1 ?s2"
    using w j reply s1(4) by (intro net_step.depart) simp_all
  then have run2: "fleet_run sp cl ser r E ((evs @ evs1) @ [Depart c p n SUCCESS]) ?s2"
    by (intro fleet_run_step [OF s1(1)]) (simp_all add: fleet_guard_def net_guard_def)
  have "confirms sp cl ser r E ((evs @ evs1) @ [Depart c p n SUCCESS]) (Complete c True True SUCCESS) d"
    by (rule replied_confirmed [OF run2]) (use st s1(3) in simp_all)
  then show ?thesis unfolding append_assoc by (rule confirms_later) (simp add: s1(2))
qed

lemma call_confirmed:
  assumes rd: "ready cl db up ks b E r" and run: "fleet_run sp cl ser r E evs s" and w: "w \<in># wire s"
    and st: "sys_step sp (Complete (rpc_call w) True True SUCCESS) (net_daemon s) d"
  shows "confirms sp cl ser r E evs (Complete (rpc_call w) True True SUCCESS) d"
proof (cases w)
  case (Travelling c)
  have ok: "net_ok sp cl ser db up ks r b E evs s"
    using net_inv.inv_run [OF fleet_run_net [OF run]] rd by blast
  note range = wire_range [OF rd ok w]
  let ?n = "created (net_producers s 0)"
  obtain t where t: "Proceed_request cl ser (call_request c) (net_producers s 0) =
      Inr (Some (users_in b (start_uid (call_request c)) (end_uid (call_request c))), t)"
    using request_reads [OF readyD(1,2) [OF rd] net_okD(3) [OF ok, of 0] range(3,4)] Travelling by auto
  let ?ev = "Arrive c 0 ?n (Some (users_in b (start_uid (call_request c)) (end_uid (call_request c))))"
  let ?s1 = "change_rpc (Travelling c) (Serving c 0 ?n) (with_producer 0 t s)"
  have "net_step sp cl ser ?ev s ?s1"
    using w Travelling t by (intro net_step.arrive producer_step.request) simp_all
  then have "fleet_run sp cl ser r E (evs @ [?ev]) ?s1"
    by (intro fleet_run_step [OF run]) (simp_all add: fleet_guard_def net_guard_def)
  from serving_confirmed [OF rd this, of c 0 ?n d] st Travelling
  have "confirms sp cl ser r E (evs @ [?ev]) (Complete c True True SUCCESS) d" by simp
  then have "confirms sp cl ser r E evs (Complete c True True SUCCESS) d" by (rule confirms_later) simp
  then show ?thesis by (simp add: Travelling)
next
  case (Serving c p n)
  with serving_confirmed [OF rd run, of c p n d] w st show ?thesis by simp
next
  case (Replied c err)
  have "net_ok sp cl ser db up ks r b E evs s"
    using net_inv.inv_run [OF fleet_run_net [OF run]] rd by blast
  from net_okD(5) [OF this w] have "err = SUCCESS" by (simp add: wire_ok_def Replied)
  with replied_confirmed [OF run, of c d] w st Replied show ?thesis by simp
qed

section \<open>All work can be finished\<close>

lemma push_event_confirmed:
  assumes rd: "ready cl db up ks b E r" and run: "fleet_run sp cl ser r E evs s"
    and ev: "push_event dev" and st: "sys_step sp dev (net_daemon s) d"
  shows "confirms sp cl ser r E evs dev d"
proof (cases "is_complete dev")
  case True
  then obtain c where dev: "dev = Complete c True True SUCCESS"
    using ev by (cases dev) (auto simp: push_event_def)
  have "net_ok sp cl ser db up ks r b E evs s"
    using net_inv.inv_run [OF fleet_run_net [OF run]] rd by blast
  then have "image_mset rpc_call (wire s) = add_mset c (calls_of d)"
    using net_okD(4) calls_complete [OF st [unfolded dev]] by metis
  then have "c \<in> rpc_call ` set_mset (wire s)" by (metis set_image_mset union_single_eq_member)
  then show ?thesis using call_confirmed [OF rd run] st unfolding dev by blast
next
  case False
  have "fleet_guard E (Local dev) s"
    using ev by (cases dev) (simp_all add: fleet_guard_def net_guard_def pushes_in_def fleet_event_def push_event_def)
  then show ?thesis
    by (rule confirms_step [OF run _ net_step.local_event [OF False st]]) simp_all
qed

lemma progress_network:
  assumes rd: "ready cl db up ks b E r" and "can_progress (net_daemon s)" and "fleet_run sp cl ser r E evs s"
  shows "\<exists>evs' s'. fleet_run sp cl ser r E (evs @ evs') s' \<and> tasks (net_daemon s') = {#} \<and>
    list_all push_event (daemon_events evs')"
  using assms(2,3)
proof (induction "work (net_daemon s)" arbitrary: s evs rule: less_induct)
  case less
  show ?case
  proof (cases "tasks (net_daemon s) = {#}")
    case True
    with less.prems show ?thesis by (intro exI [of _ "[]"] exI [of _ s]) simp
  next
    case False
    obtain dev d where d: "push_event dev" "sys_step sp dev (net_daemon s) d" "can_progress d" "work d < work (net_daemon s)"
      using progress_step [OF less.prems(1) False] by blast
    obtain evs1 s1 where s1: "fleet_run sp cl ser r E (evs @ evs1) s1" "daemon_events evs1 = [dev]" "net_daemon s1 = d"
      using push_event_confirmed [OF rd less.prems(2) d(1,2)] unfolding confirms_def by blast
    obtain evs' s' where s': "fleet_run sp cl ser r E ((evs @ evs1) @ evs') s'" "tasks (net_daemon s') = {#}"
      "list_all push_event (daemon_events evs')"
      using less.hyps [OF _ _ s1(1)] d(3,4) s1(3) by blast
    then show ?thesis using s1(2) d(1) by (intro exI [of _ "evs1 @ evs'"] exI [of _ s']) simp
  qed
qed

end
