(* ===== verification/NetworkProps.thy ===== *)
theory NetworkProps
  imports NetworkProgress Consumer
begin

text \<open>
  The push system end to end: the daemon, its producers, Redis and the RPCs between them.
\<close>

section \<open>A finished push has reached its users\<close>

lemma answered_acked:
  assumes "answered cl ser r b evs c" and "start_uid (call_request c) \<le> end_uid (call_request c)"
    and "unat (end_uid (call_request c)) div 8 < length b" and "fits (end_uid (call_request c))"
    and "unat (start_uid (call_request c)) mod 8 = 0" and "unat (start_uid (call_request c)) \<le> unat u"
    and "unat u \<le> unat (end_uid (call_request c))" and "bit_at b (unat u)"
  shows "\<exists>p n. (n, ser u (msg_id (call_request c))) \<in># acked (producer_events p evs)"
proof -
  obtain p n pevs rest ps j where a: "producer_events p evs = pevs @ rest" "producer_run cl ser (r p) pevs ps"
    "asks b c n \<in> set pevs" "jobs ps n = Some j" "job_reply j \<noteq> None"
    using assms(1) unfolding answered_def by blast
  have "u \<in> set (users_in b (start_uid (call_request c)) (end_uid (call_request c)))"
    by (rule users_in_member [OF assms(2-8)])
  from answered_users [OF a(2) a(3) [unfolded asks_def] this a(4,5)]
  have "(n, ser u (msg_id (call_request c))) \<in># acked (producer_events p evs)"
    unfolding a(1) by (simp add: acked_def)
  then show ?thesis by blast
qed

lemma finished_push_acked:
  assumes rd: "ready cl db up ks b E r" and run: "net_run sp cl ser r E evs s" and fin: "tasks (net_daemon s) = {#}"
    and push: "Begin p \<in> set (daemon_events evs)" "push_start_uid p \<le> u" "u \<le> push_end_uid p" and bit: "bit_at b (unat u)"
  shows "\<exists>q n. (n, ser u (push_msg_id p)) \<in># acked (producer_events q evs)"
proof -
  have ok: "net_ok sp cl ser db up ks r b E evs s"
    using net_inv.inv_run [OF run] rd by blast
  obtain c k where c: "Complete c k True SUCCESS \<in> set (daemon_events evs)" "msg_id (call_request c) = push_msg_id p"
    "unat (start_uid (call_request c)) \<le> unat u" "unat u \<le> unat (end_uid (call_request c))"
    "request_in E (call_request c)" "chunk_wide (call_request c)"
    by (rule finished_push [OF net_okD(1) [OF ok] fin readyD(4) [OF rd] push])
  have inside: "unat (end_uid (call_request c)) div 8 < length b"
    using c(5) readyD(5) [OF rd]
    by (auto simp: request_in_def word_le_nat_alt intro: le_less_trans div_le_mono)
  have "fits (end_uid (call_request c))"
    using c(5) readyD(4) [OF rd] by (auto simp: request_in_def intro: fits_mono)
  with answered_acked [OF net_okD(6) [OF ok c(1)] _ inside _ _ c(3,4) bit] c(5,6) show ?thesis
    by (auto simp: request_in_def chunk_wide_def c(2))
qed

text \<open>
  C1: a finished push has reached its users. In every run of the daemon with its producers, whatever
  calls break, messages are rejected and producers come and go: when no thread of the daemon has
  anything left to do, each user of the range of each push whose bit is set in the users' bitmap has
  a message of the push acknowledged by RocketMQ at some producer. The bitmap is the one cached in
  Redis, or else the users in all three released bitmaps; the pushes start at multiples of 8 and end
  inside the bitmap. The producers use one Redis: between two commands of one, the others do theirs.
\<close>

theorem push_reaches_users:
  assumes "ready cl db up ks b E r" and "net_run sp cl ser r E evs s" and "tasks (net_daemon s) = {#}"
    and "Begin p \<in> set (daemon_events evs)" and "push_start_uid p \<le> u" and "u \<le> push_end_uid p"
    and "bit_at b (unat u)"
  shows "\<exists>q n. (n, ser u (push_msg_id p)) \<in># acked (producer_events q evs)"
  by (rule finished_push_acked [OF assms])

definition small_push :: push_request where
  "small_push = \<lparr>push_msg_id = 1, push_start_uid = 0, push_end_uid = 7\<rparr>"

definition small_call :: async_call where
  "small_call = \<lparr>call_svrId = 5, call_request = chunk_request\<rparr>"

definition small_begin :: "net_event list" where
  "small_begin = [Local (Register producer_request (at_time 0)), Local (Begin small_push),
     Local (Select 0 ByBeginPush chunk_request 0)]"

text \<open>The call breaks once, is sent again, and is answered.\<close>

definition small_push_events :: "net_event list" where
  "small_push_events = small_begin @ [Break (Travelling small_call), Local (Resume small_call),
     Local (Select 0 ByCallback chunk_request 0), Local (Select 0 ByCallback chunk_request 4096),
     Arrive small_call 3 0 (Some [0, 1]), Work 3 (Send 0 ''0:1'' [''1:1''] True), Work 3 (Send 0 ''1:1'' [] True),
     Work 3 (Acknowledged 0 ''1:1''), Work 3 (Acknowledged 0 ''0:1''), Depart small_call 3 0 SUCCESS,
     Deliver small_call SUCCESS, Local (Select 0 ByBeginPush chunk_request 4096)]"

definition small_connections :: "nat \<Rightarrow> redis_handler \<times> keyspace" where
  "small_connections p = (connected, small_keyspace)"

lemma small_ready: "ready demo_redis (\<lambda>w. w) (\<lambda>_. True) small_keyspace [192] 7 small_connections"
  using documented_shared [OF demo_redis_documented] demo_holds [of small_keyspace]
  by (auto simp: ready_def shares_def holds_def small_connections_def with_user_info_def small_keyspace_def fits_def)

lemma small_push_run:
  obtains s where "net_run split_colon demo_redis demo_ser small_connections 7 small_push_events s"
    "tasks (net_daemon s) = {#}"
proof -
  have "case exec_trace (exec_net split_colon demo_redis demo_ser) (net_guard 7) small_push_events
      (network_init small_connections) of None \<Rightarrow> False | Some s \<Rightarrow> tasks (net_daemon s) = {#}"
    by code_simp
  then obtain s where s: "exec_trace (exec_net split_colon demo_redis demo_ser) (net_guard 7) small_push_events
      (network_init small_connections) = Some s" "tasks (net_daemon s) = {#}"
    by (auto split: option.splits)
  from net_exec.exec_run [OF s(1)] s(2) show thesis by (rule that)
qed

lemma small_push_user:
  "Begin small_push \<in> set (daemon_events small_push_events)" "push_start_uid small_push \<le> 1"
  "1 \<le> push_end_uid small_push" "bit_at [192] (unat (1 :: u64))" "push_msg_id small_push = 1"
  by (simp_all add: small_push_events_def small_begin_def daemon_events_def small_push_def bit_at_def word_le_nat_alt)

theorem push_reaches_users_witness:
  "\<exists>q n. (n, demo_ser 1 1) \<in># acked (producer_events q small_push_events)"
proof -
  obtain s where "net_run split_colon demo_redis demo_ser small_connections 7 small_push_events s"
    "tasks (net_daemon s) = {#}" by (rule small_push_run)
  from push_reaches_users [OF small_ready this small_push_user(1-4)] show ?thesis by (simp add: small_push_user)
qed

section \<open>The consumer gets the messages\<close>






section \<open>A push can always be finished\<close>

lemma fleet_finishes:
  assumes "ready cl db up ks b E r" and "fleet_run sp cl ser r E evs s"
    and "gSvrId2ProducerState (tables (net_daemon s)) \<noteq> []"
    and "length (gSvrId2ProducerState (tables (net_daemon s))) < 2 ^ 32"
  shows "\<exists>evs' s'. fleet_run sp cl ser r E (evs @ evs') s' \<and> tasks (net_daemon s') = {#} \<and>
    list_all push_event (daemon_events evs') \<and>
    (\<forall>p u. Begin p \<in> set (daemon_events evs) \<and> push_start_uid p \<le> u \<and> u \<le> push_end_uid p \<and> bit_at b (unat u) \<longrightarrow>
       (\<exists>q n. (n, ser u (push_msg_id p)) \<in># acked (producer_events q (evs @ evs'))))"
proof -
  note side = fleet_run_daemon [OF assms(2)]
  have "net_ok sp cl ser db up ks r b E evs s"
    using net_inv.inv_run [OF fleet_run_net [OF assms(2)]] assms(1) by blast
  then have "list_all event_fits (daemon_events evs)"
    using readyD(4) [OF assms(1)] by (blast intro: pushes_fit net_okD(1))
  then have "can_progress (net_daemon s)"
    using fleet_inv.inv_run [OF side] count_inv.inv_run [OF side] uids_inv.inv_run [OF side] assms(3,4)
    by (auto simp: can_progress_def uids_kept_def)
  then obtain evs' s' where s': "fleet_run sp cl ser r E (evs @ evs') s'" "tasks (net_daemon s') = {#}"
    "list_all push_event (daemon_events evs')"
    using progress_network [OF assms(1) _ assms(2)] by blast
  have "\<exists>q n. (n, ser u (push_msg_id p)) \<in># acked (producer_events q (evs @ evs'))"
    if "Begin p \<in> set (daemon_events evs)" "push_start_uid p \<le> u" "u \<le> push_end_uid p" "bit_at b (unat u)" for p u
    using finished_push_acked [OF assms(1) fleet_run_net [OF s'(1)] s'(2) _ that(2-4)] that(1) by simp
  with s' show ?thesis by blast
qed

text \<open>
  C5: the push system can always finish its pushes, and then has reached the users. From every state
  of the daemon with its producers in which only producers are registered, at least one and less
  than \<open>2 ^ 32\<close>, the daemon's loops, resumed failures, and calls that are served and answered lead to
  a state in which nothing is left to do, and in it each user of each push of the past has a
  message acknowledged by RocketMQ.
\<close>

theorem network_can_finish:
  assumes "ready cl db up ks b E r" and "fleet_run sp cl ser r E evs s"
    and "gSvrId2ProducerState (tables (net_daemon s)) \<noteq> []"
    and "length (gSvrId2ProducerState (tables (net_daemon s))) < 2 ^ 32"
  shows "\<exists>evs' s'. fleet_run sp cl ser r E (evs @ evs') s' \<and> tasks (net_daemon s') = {#} \<and>
    list_all push_event (daemon_events evs') \<and>
    (\<forall>p u. Begin p \<in> set (daemon_events evs) \<and> push_start_uid p \<le> u \<and> u \<le> push_end_uid p \<and> bit_at b (unat u) \<longrightarrow>
       (\<exists>q n. (n, ser u (push_msg_id p)) \<in># acked (producer_events q (evs @ evs'))))"
  by (rule fleet_finishes [OF assms])

theorem network_can_finish_witness:
  "\<exists>evs' s'. fleet_run split_colon demo_redis demo_ser small_connections 7 (small_begin @ evs') s' \<and>
    tasks (net_daemon s') = {#} \<and>
    (\<exists>q n. (n, demo_ser 0 1) \<in># acked (producer_events q (small_begin @ evs')))"
proof -
  have "case exec_trace (exec_net split_colon demo_redis demo_ser) (fleet_guard 7) small_begin
      (network_init small_connections) of None \<Rightarrow> False
    | Some s \<Rightarrow> length (gSvrId2ProducerState (tables (net_daemon s))) = 1"
    by code_simp
  then obtain s where s: "exec_trace (exec_net split_colon demo_redis demo_ser) (fleet_guard 7) small_begin
      (network_init small_connections) = Some s" "length (gSvrId2ProducerState (tables (net_daemon s))) = 1"
    by (auto split: option.splits)
  have "gSvrId2ProducerState (tables (net_daemon s)) \<noteq> []"
    "length (gSvrId2ProducerState (tables (net_daemon s))) < 2 ^ 32"
    using s(2) by auto
  from network_can_finish [OF small_ready net_exec.exec_run [OF s(1)] this]
  obtain evs' s' where s': "fleet_run split_colon demo_redis demo_ser small_connections 7 (small_begin @ evs') s'"
    "tasks (net_daemon s') = {#}"
    "\<forall>p u. Begin p \<in> set (daemon_events small_begin) \<and> push_start_uid p \<le> u \<and> u \<le> push_end_uid p \<and> bit_at [192] (unat u) \<longrightarrow>
       (\<exists>q n. (n, demo_ser u (push_msg_id p)) \<in># acked (producer_events q (small_begin @ evs')))"
    by blast
  have "Begin small_push \<in> set (daemon_events small_begin)" "push_start_uid small_push \<le> 0"
    "0 \<le> push_end_uid small_push" "bit_at [192] (unat (0 :: u64))" "push_msg_id small_push = 1"
    by (simp_all add: small_begin_def daemon_events_def small_push_def bit_at_def)
  with s' show ?thesis by metis
qed

end
