(* ===== verification/Origins.thy ===== *)
theory Origins
  imports NetworkFacts
begin

text \<open>
  Where the requests of a run come from: every request, from the loop of the daemon to the object
  of a producer, is for a part of the range of a push that began.
\<close>

section \<open>The daemon\<close>

definition from_push :: "event list \<Rightarrow> produce_request \<Rightarrow> bool" where
  "from_push evs r \<longleftrightarrow> (\<exists>p. Begin p \<in> set evs \<and> msg_id r = push_msg_id p \<and>
     push_start_uid p \<le> start_uid r \<and> end_uid r \<le> push_end_uid p)"

definition task_from :: "event list \<Rightarrow> task \<Rightarrow> bool" where
  "task_from evs t = (case t of
     Selecting _ r cur \<Rightarrow> from_push evs r \<and> start_uid r \<le> cur
   | InFlight c \<Rightarrow> from_push evs (call_request c)
   | FailedCall c \<Rightarrow> from_push evs (call_request c))"

definition tasks_from :: "u64 \<Rightarrow> event list \<Rightarrow> system \<Rightarrow> bool" where
  "tasks_from E evs s \<longleftrightarrow> calls_in E evs s \<and> (\<forall>t \<in># tasks s. task_from evs t)"

lemma task_from_simps [simp]:
  "task_from evs (Selecting who r cur) \<longleftrightarrow> from_push evs r \<and> start_uid r \<le> cur"
  "task_from evs (InFlight c) \<longleftrightarrow> from_push evs (call_request c)"
  "task_from evs (FailedCall c) \<longleftrightarrow> from_push evs (call_request c)"
  by (simp_all add: task_from_def)

lemma from_push_mono: "from_push evs r \<Longrightarrow> from_push (evs @ evs') r"
  by (auto simp: from_push_def)

lemma task_from_mono: "task_from evs t \<Longrightarrow> task_from (evs @ evs') t"
  by (cases t) (auto intro: from_push_mono)

text \<open>A chunk is a part of its request, and so is what is left of the loop.\<close>

lemma chunk_from:
  assumes f: "fits (end_uid r)" and "cur \<le> end_uid r" and "start_uid r \<le> cur" and "from_push evs r"
  shows "from_push evs (chunk r cur)" and "start_uid r \<le> cur + UID_COUNT_PER_TIME"
proof -
  note c = chunk_end_small [OF f [unfolded fits_def] assms(2)]
  have "end_uid (chunk r cur) \<le> end_uid r" using c(1) by (simp add: chunk_def word_le_nat_alt)
  moreover have "start_uid (chunk r cur) = cur" "msg_id (chunk r cur) = msg_id r" by (simp_all add: chunk_def)
  ultimately show "from_push evs (chunk r cur)"
    using assms(3,4) unfolding from_push_def by (metis order_trans)
  show "start_uid r \<le> cur + UID_COUNT_PER_TIME" using c(2) assms(3) by (simp add: word_le_nat_alt)
qed

lemma step_tasks_from:
  assumes E: "fits E" and I: "tasks_from E evs s" and G: "pushes_in E ev s" and st: "sys_step sp ev s s'"
  shows "tasks_from E (evs @ [ev]) s'"
proof -
  have calls: "calls_in E evs s" "calls_in E (evs @ [ev]) s'"
    using I step_calls_in [OF E _ G st] by (auto simp: tasks_from_def)
  have ok: "daemon_ok (tables s)" using calls(1) by (simp add: calls_in_def)
  have old: "task_from (evs @ [ev]) t" if "t \<in># tasks s" for t
    using I that by (auto simp: tasks_from_def intro: task_from_mono)
  have old': "task_from (evs @ [ev]) t" if "t \<in># tasks s - N" for t N
    using old that by (blast dest: in_diffD)
  have "\<forall>t \<in># tasks s'. task_from (evs @ [ev]) t"
    using st
  proof (cases rule: sys_step.cases)
    case (begin_push r)
    then show ?thesis using old by (auto simp: from_push_def)
  next
    case (select who r cur draw)
    have r: "from_push (evs @ [ev]) r" "start_uid r \<le> cur" using old [OF select(2)] by simp_all
    have "task_in E (Selecting who r cur)" using calls(1) select(2) by (simp add: calls_in_def)
    then have f: "fits (end_uid r)" using E by (auto simp: task_in_def request_in_def intro: fits_mono)
    from select(4) show ?thesis
    proof (cases rule: select_turn_cases)
      case leave
      then show ?thesis using old' by simp
    next
      case (wait d)
      then show ?thesis using old' r by auto
    next
      case (send call d)
      have "call_request call = chunk r cur"
        using select_step_call(1) [OF ok send(2) [unfolded drop_task_simps]] .
      then show ?thesis using send(3) old' r chunk_from [OF f send(1) r(2,1)] by auto
    qed
  next
    case (complete c ok' st' err)
    have c: "from_push (evs @ [ev]) (call_request c)" using old [OF complete(2)] by simp
    from complete(3) show ?thesis
      using old' c by (cases rule: HandleAsyncCall_cases) auto
  next
    case (resume c)
    have "from_push (evs @ [ev]) (call_request c)" using old [OF resume(3)] by simp
    then show ?thesis using old' resume(2) by auto
  qed (use old in auto)
  with calls(2) show ?thesis by (simp add: tasks_from_def)
qed

lemma tasks_from_init: "tasks_from E [] system_init"
  by (simp add: tasks_from_def calls_in_def system_init_def daemon_ok_init)

interpretation origin_inv: trace_invariant "sys_step sp" system_init "pushes_in E"
  "\<lambda>evs s. fits E \<longrightarrow> tasks_from E evs s" for sp E
  by unfold_locales (auto intro: step_tasks_from tasks_from_init)

section \<open>The producers\<close>

definition requests_from :: "bytes \<Rightarrow> net_event list \<Rightarrow> bool" where
  "requests_from b evs \<longleftrightarrow> (\<forall>p n req res. Request n req res \<in> set (producer_events p evs) \<longrightarrow>
     from_push (daemon_events evs) req \<and> start_uid req \<le> end_uid req \<and> unat (start_uid req) mod 8 = 0 \<and>
     unat (end_uid req) div 8 < length b \<and> fits (end_uid req) \<and>
     res = Some (users_in b (start_uid req) (end_uid req)))"

lemma producer_side_request:
  assumes "net_step sp cl ser ev s s'" and "Request n req res \<in> set (producer_side p ev)"
  obtains c where "req = call_request c" "Travelling c \<in># wire s"
    "producer_step cl ser (Request n (call_request c) res) (net_producers s p) (net_producers s' p)"
  using assms by (cases rule: net_step.cases) (auto simp: works_def split: if_splits)

lemma step_requests_from:
  assumes rd: "ready cl db up ks b E r" and ok: "net_ok sp cl ser db up ks r b E evs s"
    and I: "requests_from b evs" and st: "net_step sp cl ser ev s s'"
  shows "requests_from b (evs @ [ev])"
  unfolding requests_from_def
proof (intro allI impI)
  fix p n req res assume "Request n req res \<in> set (producer_events p (evs @ [ev]))"
  then consider (old) "Request n req res \<in> set (producer_events p evs)" | (new) "Request n req res \<in> set (producer_side p ev)"
    by auto
  then show "from_push (daemon_events (evs @ [ev])) req \<and> start_uid req \<le> end_uid req \<and>
      unat (start_uid req) mod 8 = 0 \<and> unat (end_uid req) div 8 < length b \<and> fits (end_uid req) \<and>
      res = Some (users_in b (start_uid req) (end_uid req))"
  proof cases
    case old
    then show ?thesis using I by (auto simp: requests_from_def intro: from_push_mono)
  next
    case new
    obtain c where c: "req = call_request c" "Travelling c \<in># wire s"
      "producer_step cl ser (Request n (call_request c) res) (net_producers s p) (net_producers s' p)"
      using st new by (rule producer_side_request)
    have "tasks_from E (daemon_events evs) (net_daemon s)"
      using origin_inv.inv_run [OF net_okD(1) [OF ok]] readyD(4) [OF rd] by blast
    then have "from_push (daemon_events evs) req"
      using wire_call [OF ok c(2)] by (auto simp: tasks_from_def c(1))
    moreover have "fits (end_uid req)"
      using wire_range(1) [OF rd ok c(2)] readyD(4) [OF rd] by (auto simp: request_in_def c(1) intro: fits_mono)
    ultimately show ?thesis
      using wire_range [OF rd ok c(2)] arrive_reads(1) [OF rd ok c(2,3)]
      by (auto simp: c(1) request_in_def intro: from_push_mono)
  qed
qed

lemma requests_from_init: "requests_from b []"
  by (simp add: requests_from_def)

interpretation requests_inv: trace_invariant "net_step sp cl ser" "network_init r" "net_guard E"
  "\<lambda>evs s. ready cl db up ks b E r \<longrightarrow> net_ok sp cl ser db up ks r b E evs s \<and> requests_from b evs" for sp cl ser r E db up ks b
  by unfold_locales (auto intro: net_ok_init requests_from_init step_net_ok step_requests_from)

section \<open>The messages\<close>

lemma planned_from: "m \<in># planned ser evs \<Longrightarrow>
    \<exists>n req uids u. Request n req (Some uids) \<in> set evs \<and> u \<in> set uids \<and> m = (n, ser u (msg_id req))"
proof (induction evs)
  case Nil
  then show ?case by (simp add: planned_def)
next
  case (Cons ev evs)
  then consider "m \<in># planned_by ser ev" | "m \<in># planned ser evs" by (auto simp: planned_def)
  then show ?case
  proof cases
    case 1
    then show ?thesis by (cases ev) (auto simp: planned_by_def split: option.splits)
  next
    case 2
    then show ?thesis using Cons.IH by fastforce
  qed
qed

lemma users_in_range:
  assumes "s \<le> e" and "unat e div 8 < length b" and "fits e" and "unat s mod 8 = 0" and "u \<in> set (users_in b s e)"
  shows "bit_at b (unat u)" and "unat s \<le> unat u" and "unat u < 8 * (unat e div 8) + 8"
proof -
  obtain v where v: "u = word_of_nat v" "bit_at b v" "unat s \<le> v" "v < 8 * (unat e div 8) + 8"
    using assms(5) unfolding users_in_eq [OF assms(1-4)] by auto
  have "v < 2 ^ 64" using v(4) assms(3) by (simp add: fits_def)
  then have "unat u = v" using v(1) by (simp add: unat_of_nat take_bit_nat_eq_self)
  with v show "bit_at b (unat u)" "unat s \<le> unat u" "unat u < 8 * (unat e div 8) + 8" by simp_all
qed

lemma acked_from:
  assumes rd: "ready cl db up ks b E r" and run: "net_run sp cl ser r E evs s"
    and m: "(n, m) \<in># acked (producer_events q evs)"
  shows "\<exists>p u. Begin p \<in> set (daemon_events evs) \<and> m = ser u (push_msg_id p) \<and> bit_at b (unat u) \<and>
    push_start_uid p \<le> u \<and> unat u < 8 * (unat (push_end_uid p) div 8) + 8"
proof -
  have ok: "net_ok sp cl ser db up ks r b E evs s" and reqs: "requests_from b evs"
    using requests_inv.inv_run [OF run] rd by blast+
  have "pending_msgs (net_producers s q) + acked (producer_events q evs) = planned ser (producer_events q evs)"
    using producer_inv.inv_run [OF net_okD(2) [OF ok]] by (simp add: producer_ok_def)
  then have "(n, m) \<in># planned ser (producer_events q evs)" using m by (metis union_iff)
  then obtain req uids u where r: "Request n req (Some uids) \<in> set (producer_events q evs)" "u \<in> set uids"
    "m = ser u (msg_id req)"
    using planned_from by blast
  note asked = reqs [unfolded requests_from_def, rule_format, OF r(1)]
  obtain p where p: "Begin p \<in> set (daemon_events evs)" "msg_id req = push_msg_id p"
    "push_start_uid p \<le> start_uid req" "end_uid req \<le> push_end_uid p"
    using asked by (auto simp: from_push_def)
  have u: "bit_at b (unat u)" "unat (start_uid req) \<le> unat u" "unat u < 8 * (unat (end_uid req) div 8) + 8"
    using asked r(2) users_in_range by auto
  have "unat (end_uid req) div 8 \<le> unat (push_end_uid p) div 8"
    using p(4) by (simp add: word_le_nat_alt div_le_mono)
  then have "unat u < 8 * (unat (push_end_uid p) div 8) + 8" using u(3) by linarith
  moreover have "push_start_uid p \<le> u" using p(3) u(2) by (simp add: word_le_nat_alt)
  ultimately show ?thesis using p(1,2) u(1) r(3) by auto
qed

end
