(* ===== verification/WholeSystem.thy ===== *)
theory WholeSystem
  imports NetworkProps Origins UpdateProps
begin

text \<open>
  The processes together: who gets a message of a push, and from the user tables of MySQL to the
  messages.
\<close>

section \<open>Messages go to users of a push\<close>








section \<open>From the tables to the messages\<close>










end
