(* ===== verification/Stubs.thy ===== *)
theory Stubs
  imports DaemonHandlers
begin

text \<open>
  Who owns the stub of a producer. A \<^verbatim>\<open>ProducerCaller\<close> of \<^verbatim>\<open>daemonServer/daemonServer.cpp\<close> holds its stub
  in a \<^verbatim>\<open>unique_ptr\<close>, and its copy operations move the stub out of the object that is copied, the
  \<^verbatim>\<open>const\<close> one included. The daemon's tables name the stub a producer has; here are the objects a
  stub passes through on its way there.
\<close>

section \<open>Objects and stubs\<close>

text \<open>
  The \<^verbatim>\<open>ProducerCaller\<close> objects of a registration: the temporary of the expression, the parameter
  \<^verbatim>\<open>pc\<close> of the constructor \<^verbatim>\<open>ProducerState(ProducerCaller pc, uint32_t n)\<close>, the member of the
  local \<^verbatim>\<open>producerState\<close>, and the members of the entries of \<^verbatim>\<open>gSvrId2ProducerState\<close>.
\<close>

datatype caller_object = Temporary | Parameter | LocalState | Entry u64

text \<open>The stub each object points to, null for \<open>None\<close>; the stubs that were deleted.\<close>

record 'stub heap =
  stub_of :: "caller_object \<Rightarrow> 'stub option"
  freed :: "'stub set"

text \<open>Writing a \<^verbatim>\<open>unique_ptr\<close> deletes what it pointed to before.\<close>

definition reset_stub :: "caller_object \<Rightarrow> 'stub option \<Rightarrow> 'stub heap \<Rightarrow> 'stub heap" where
  "reset_stub x p h = h\<lparr>stub_of := (stub_of h)(x := p),
     freed := freed h \<union> (case stub_of h x of None \<Rightarrow> {} | Some q \<Rightarrow> {q})\<rparr>"

definition release :: "caller_object \<Rightarrow> 'stub heap \<Rightarrow> 'stub option \<times> 'stub heap" where
  "release x h = (stub_of h x, h\<lparr>stub_of := (stub_of h)(x := None)\<rparr>)"

definition destroy :: "caller_object \<Rightarrow> 'stub heap \<Rightarrow> 'stub heap" where
  "destroy x h = reset_stub x None h"

section \<open>The operations of ProducerCaller\<close>

text \<open>\<^verbatim>\<open>ProducerCaller()\<close>, and \<^verbatim>\<open>ProducerCaller(channel, cq)\<close> with the stub that \<^verbatim>\<open>NewStub\<close> made.\<close>

definition caller_default :: "caller_object \<Rightarrow> 'stub heap \<Rightarrow> 'stub heap" where
  "caller_default x h = h\<lparr>stub_of := (stub_of h)(x := None)\<rparr>"

definition caller_new :: "caller_object \<Rightarrow> 'stub \<Rightarrow> 'stub heap \<Rightarrow> 'stub heap" where
  "caller_new x stub h = h\<lparr>stub_of := (stub_of h)(x \<mapsto> stub)\<rparr>"

text \<open>\<^verbatim>\<open>operator=(ProducerCaller& other)\<close> moves; both copy constructors empty \<^verbatim>\<open>other\<close>.\<close>

definition caller_assign :: "caller_object \<Rightarrow> caller_object \<Rightarrow> 'stub heap \<Rightarrow> 'stub heap" where
  "caller_assign this other h = (let (p, h1) = release other h in reset_stub this p h1)"

definition caller_copy :: "caller_object \<Rightarrow> caller_object \<Rightarrow> 'stub heap \<Rightarrow> 'stub heap" where
  "caller_copy this other h = caller_assign this other (caller_default this h)"

definition caller_copy_const :: "caller_object \<Rightarrow> caller_object \<Rightarrow> 'stub heap \<Rightarrow> 'stub heap" where
  "caller_copy_const this other h =
     (let (p, h1) = release other (caller_default this h) in reset_stub this p h1)"

section \<open>A registration\<close>

text \<open>
  \<^verbatim>\<open>ProducerState producerState(ProducerCaller(...), 0)\<close>. The compiler may build the parameter in
  place (\<open>elided\<close>) or copy it from the temporary, which takes the \<^verbatim>\<open>const\<close> constructor.
\<close>

definition state_construct :: "bool \<Rightarrow> 'stub \<Rightarrow> 'stub heap \<Rightarrow> 'stub heap" where
  "state_construct elided stub h =
     (let h1 = (if elided then caller_new Parameter stub h
                else destroy Temporary (caller_copy_const Parameter Temporary (caller_new Temporary stub h)))
      in destroy Parameter (caller_copy LocalState Parameter h1))"

text \<open>
  \<^verbatim>\<open>gSvrId2ProducerState[k] = producerState\<close>: a missing entry is default-constructed, then
  \<^verbatim>\<open>ProducerState::operator=\<close> assigns its members; at the end the local object is destroyed.
\<close>

definition state_assign :: "bool \<Rightarrow> u64 \<Rightarrow> 'stub heap \<Rightarrow> 'stub heap" where
  "state_assign present k h =
     caller_assign (Entry k) LocalState (if present then h else caller_default (Entry k) h)"

definition register_stub :: "bool \<Rightarrow> bool \<Rightarrow> u64 \<Rightarrow> 'stub \<Rightarrow> 'stub heap \<Rightarrow> 'stub heap" where
  "register_stub elided present k stub h =
     destroy LocalState (state_assign present k (state_construct elided stub h))"

text \<open>\<^verbatim>\<open>gSvrId2ProducerState.erase(k)\<close> destroys the entry.\<close>

definition erase_stub :: "u64 \<Rightarrow> 'stub heap \<Rightarrow> 'stub heap" where
  "erase_stub k h = destroy (Entry k) h"

section \<open>Ownership\<close>

text \<open>
  Between two registrations: only entries own stubs, no stub has two owners, and no owned stub
  is deleted.
\<close>

definition owned_once :: "'stub heap \<Rightarrow> bool" where
  "owned_once h \<longleftrightarrow> (\<forall>x p. stub_of h x = Some p \<longrightarrow> (\<exists>k. x = Entry k) \<and> p \<notin> freed h \<and>
     (\<forall>y. stub_of h y = Some p \<longrightarrow> y = x))"

text \<open>The table of the daemon and the objects agree, a stub being known by its address.\<close>

definition represents :: "('stub \<Rightarrow> string) \<Rightarrow> 'stub heap \<Rightarrow> (u64, producer_state) omap \<Rightarrow> bool" where
  "represents addr h m \<longleftrightarrow> (\<forall>k. map_option addr (stub_of h (Entry k)) = Option.bind (map_of m k) producerCaller)"

lemmas caller_defs = reset_stub_def release_def destroy_def caller_default_def caller_new_def caller_assign_def
  caller_copy_def caller_copy_const_def state_construct_def state_assign_def register_stub_def erase_stub_def Let_def

lemma register_stub_eq:
  assumes "owned_once h" and "\<not> present \<Longrightarrow> stub_of h (Entry k) = None"
  shows "register_stub elided present k stub h = h\<lparr>stub_of := (stub_of h)(Entry k \<mapsto> stub),
    freed := freed h \<union> (case stub_of h (Entry k) of None \<Rightarrow> {} | Some q \<Rightarrow> {q})\<rparr>"
proof -
  have "stub_of h Temporary = None" "stub_of h Parameter = None" "stub_of h LocalState = None"
    using assms(1) unfolding owned_once_def by (metis caller_object.distinct(5,9,11) not_None_eq)+
  then show ?thesis
    using assms(2) by (cases elided; cases present) (auto simp: caller_defs fun_eq_iff split: option.splits)
qed

text \<open>
  C12: each stub has one owner. A registration leaves the new stub with the entry of the new producer,
  and with no other object, whichever way the compiler passes it; no stub of another producer is lost or
  deleted; the removal of a producer deletes its stub and only this one. The entries that the
  model's table shows are those of the objects.
\<close>

theorem stubs_owned_once:
  assumes "owned_once h" and "represents addr h m" and "om_ok m"
    and "stub \<notin> freed h" and "\<forall>x. stub_of h x \<noteq> Some stub"
  shows "owned_once (register_stub elided (k \<in> dom (map_of m)) k stub h) \<and>
    represents addr (register_stub elided (k \<in> dom (map_of m)) k stub h)
      (om_assign k (ProducerState (Some (addr stub)) 0) m) \<and>
    stub_of (register_stub elided (k \<in> dom (map_of m)) k stub h) (Entry k) = Some stub \<and>
    (\<forall>j. j \<noteq> k \<longrightarrow> stub_of (register_stub elided (k \<in> dom (map_of m)) k stub h) (Entry j) = stub_of h (Entry j)) \<and>
    owned_once (erase_stub k h) \<and> represents addr (erase_stub k h) (om_erase k m)"
proof -
  have none: "stub_of h (Entry k) = None" if "k \<notin> dom (map_of m)"
    using assms(2) that by (auto simp: represents_def domIff dest!: spec [of _ k])
  note eq = register_stub_eq [where present = "k \<in> dom (map_of m)", OF assms(1) none]
  have "owned_once (h\<lparr>stub_of := (stub_of h)(Entry k \<mapsto> stub),
      freed := freed h \<union> (case stub_of h (Entry k) of None \<Rightarrow> {} | Some q \<Rightarrow> {q})\<rparr>)"
    using assms(1,4,5) by (auto simp: owned_once_def split: option.splits)
  moreover have "owned_once (erase_stub k h)"
    using assms(1) by (auto simp: owned_once_def caller_defs split: option.splits if_splits)
  moreover have "represents addr (erase_stub k h) (om_erase k m)"
    using assms(2,3) by (auto simp: represents_def caller_defs om.find_erase)
  ultimately show ?thesis
    using assms(2,3) by (auto simp: eq represents_def om.find_assign ProducerState_def)
qed

text \<open>A second producer registers while the first one has its stub.\<close>

definition one_stub :: "string heap" where
  "one_stub = \<lparr>stub_of = (\<lambda>_. None)(Entry 5 \<mapsto> ''10.0.0.1:50053''), freed = {}\<rparr>"

theorem stubs_owned_once_witness:
  "owned_once (register_stub False False 6 ''10.0.0.2:50053'' one_stub) \<and>
   stub_of (register_stub False False 6 ''10.0.0.2:50053'' one_stub) (Entry 6) = Some ''10.0.0.2:50053'' \<and>
   stub_of (register_stub False False 6 ''10.0.0.2:50053'' one_stub) (Entry 5) = Some ''10.0.0.1:50053''"
proof -
  let ?m = "[(5 :: u64, ProducerState (Some ''10.0.0.1:50053'') 0)]"
  have "owned_once one_stub" by (auto simp: owned_once_def one_stub_def split: if_splits)
  moreover have "represents id one_stub ?m" by (auto simp: represents_def one_stub_def ProducerState_def)
  moreover have "om_ok ?m" by (simp add: om_ok_def)
  moreover have "''10.0.0.2:50053'' \<notin> freed one_stub" "\<forall>x. stub_of one_stub x \<noteq> Some ''10.0.0.2:50053''"
    by (simp_all add: one_stub_def)
  ultimately show ?thesis
    using stubs_owned_once [of one_stub id ?m "''10.0.0.2:50053''" False 6] by (simp add: one_stub_def)
qed

end
