(* ===== verification/StartPush.thy ===== *)
theory StartPush
  imports Chunking Progress
begin

text \<open>
  \<^verbatim>\<open>startPush/\<close>: the program that begins a push, and what its fixed range does to the producers.
\<close>

section \<open>The program\<close>

text \<open>\<^verbatim>\<open>startTime\<close> in milliseconds, and what was printed: the error code and the time used.\<close>

record start_push =
  startTime :: int
  printed :: "(string \<times> int) list"

definition startPush_request :: push_request where
  "startPush_request = \<lparr>push_msg_id = 123456, push_start_uid = 0, push_end_uid = 200000000\<rparr>"

lemma startPush_request_simps [simp]:
  "push_start_uid startPush_request = 0" "push_end_uid startPush_request = 200000000"
  by (simp_all add: startPush_request_def)

text \<open>\<^verbatim>\<open>BeginPush\<close> notes the time and sends the request, the event \<open>Begin\<close> of the daemon.\<close>

definition StartPush_BeginPush :: "int \<Rightarrow> push_request \<Rightarrow> start_push \<Rightarrow> event \<times> start_push" where
  "StartPush_BeginPush now req s = (Begin req, s\<lparr>startTime := now\<rparr>)"

definition BeginPush_OnGetResponse :: "err_code \<Rightarrow> int \<Rightarrow> start_push \<Rightarrow> start_push" where
  "BeginPush_OnGetResponse err now s =
     s\<lparr>printed := printed s @ [(''err:'' @ (if err = SUCCESS then ''SUCCESS'' else ''ERR''), now - startTime s)]\<rparr>"

definition startPush_main :: "int \<Rightarrow> start_push \<Rightarrow> event \<times> start_push" where
  "startPush_main now s = StartPush_BeginPush now startPush_request s"

section \<open>Its requests\<close>

lemma unat_word_of_nat64: "n < 2 ^ 64 \<Longrightarrow> unat (word_of_nat n :: u64) = n"
  by (simp add: unat_of_nat take_bit_nat_eq_self)

lemma loop_requests_list:
  "fits (end_uid r) \<Longrightarrow> sends_left cur (end_uid r) = n \<Longrightarrow>
    loop_requests r cur = Some (map (\<lambda>i. chunk r (cur + word_of_nat (4096 * i))) [0..<n])"
proof (induction n arbitrary: cur)
  case 0
  then have "\<not> cur \<le> end_uid r" by (simp add: sends_left_def split: if_splits)
  then show ?case by (subst loop_requests.simps) simp
next
  case (Suc n)
  then have le: "cur \<le> end_uid r" by (simp add: sends_left_def split: if_splits)
  have "sends_left (cur + UID_COUNT_PER_TIME) (end_uid r) = n"
    using sends_left_chunk [OF Suc.prems(1) le] Suc.prems(2) by simp
  note rest = Suc.IH [OF Suc.prems(1) this]
  have "[0..<Suc n] = 0 # map Suc [0..<n]" by (simp only: map_Suc_upt upt_conv_Cons zero_less_Suc)
  moreover have "cur + UID_COUNT_PER_TIME + word_of_nat (4096 * i) = cur + word_of_nat (4096 * Suc i)" for i
    by (simp add: UID_COUNT_PER_TIME_def algebra_simps)
  ultimately show ?case
    using le rest by (subst loop_requests.simps) (simp only: if_True list.map map_map comp_def bind.bind_lunit
      mult_0_right semiring_1_class.of_nat_0 add_0_right)
qed

text \<open>
  C29: the push that \<^verbatim>\<open>startPush\<close> begins leaves the bitmaps. Their 12500480 bytes are those the update
  process writes, for the users below 100003840; the push asks for users up to 200000000. The
  daemon sends 48829 requests; the first 24415 are inside, and each of the other 24414 makes the
  producer read behind the reply of Redis.
\<close>

theorem startPush_leaves_bitmaps:
  assumes "redis_documented cl db up" and "with_user_info ks TMP_USER_INFO_KEY = Some b" and "length b = 12500480"
  shows "\<exists>req s1 cs. startPush_main now s0 = (Begin req, s1) \<and>
    loop_requests (copy_request req) (push_start_uid req) = Some cs \<and> length cs = 48829 \<and>
    (\<forall>i < 48829. \<forall>s. holds db up ks s \<longrightarrow>
       (if i < 24415 then \<exists>us s'. uids_to_send cl (start_uid (cs ! i)) (end_uid (cs ! i)) s = Inr (Some us, s')
        else uids_to_send cl (start_uid (cs ! i)) (end_uid (cs ! i)) s = Inl OutOfBounds))"
proof -
  let ?r = "copy_request startPush_request"
  define cs where "cs = map (\<lambda>i. chunk ?r (0 + word_of_nat (4096 * i))) [0..<48829]"
  have r: "end_uid ?r = 200000000" by simp
  have f: "fits (end_uid ?r)" by (simp add: r fits_def)
  have "sends_left 0 (end_uid ?r) = 48829" by (simp add: r sends_left_def)
  from loop_requests_list [OF f this] have loop: "loop_requests ?r 0 = Some cs" by (simp only: cs_def)
  have range: "unat (start_uid (cs ! i)) = 4096 * i \<and> unat (end_uid (cs ! i)) = min 200000000 (4096 * i + 4095)"
    if "i < 48829" for i
  proof -
    have n: "unat (word_of_nat (4096 * i) :: u64) = 4096 * i"
      using that by (intro unat_word_of_nat64) simp
    then have "word_of_nat (4096 * i) \<le> end_uid ?r" using that by (simp add: r word_le_nat_alt)
    from chunk_end_small(1) [OF f [unfolded fits_def] this] show ?thesis
      using that n by (simp add: chunk_def r cs_def)
  qed
  have "if i < 24415 then \<exists>us s'. uids_to_send cl (start_uid (cs ! i)) (end_uid (cs ! i)) s = Inr (Some us, s')
      else uids_to_send cl (start_uid (cs ! i)) (end_uid (cs ! i)) s = Inl OutOfBounds"
    if i: "i < 48829" and h: "holds db up ks s" for i s
  proof (cases "i < 24415")
    case True
    have "start_uid (cs ! i) \<le> end_uid (cs ! i)" using range [OF i] True by (simp add: word_le_nat_alt)
    moreover have "unat (end_uid (cs ! i)) div 8 < length b" using range [OF i] True assms(3) by simp
    ultimately show ?thesis using uids_to_send_reachable [OF assms(1) h assms(2)] True by metis
  next
    case False
    have "(4096 * i + 4095) div 8 = 512 * i + 511" by presburger
    then have "min 200000000 (4096 * i + 4095) div 8 = min 25000000 (512 * i + 511)"
      by (simp add: min_def)
    then have e: "unat (end_uid (cs ! i)) div 8 = min 25000000 (512 * i + 511)"
      unfolding conjunct2 [OF range [OF i]] .
    have s: "unat (start_uid (cs ! i)) div 8 = 512 * i" using range [OF i] by simp
    have "start_uid (cs ! i) \<le> end_uid (cs ! i)" using range [OF i] i by (simp add: word_le_nat_alt)
    moreover have "length b < unat (end_uid (cs ! i)) div 8" unfolding e using False assms(3) by simp
    moreover have "unat (start_uid (cs ! i)) div 8 < unat (end_uid (cs ! i)) div 8"
      unfolding e s using i by simp
    ultimately show ?thesis using uids_to_send_overread [OF assms(1) h assms(2)] False by metis
  qed
  then have "\<forall>i < 48829. \<forall>s. holds db up ks s \<longrightarrow>
      (if i < 24415 then \<exists>us s'. uids_to_send cl (start_uid (cs ! i)) (end_uid (cs ! i)) s = Inr (Some us, s')
       else uids_to_send cl (start_uid (cs ! i)) (end_uid (cs ! i)) s = Inl OutOfBounds)"
    by blast
  moreover have "startPush_main now s0 = (Begin startPush_request, s0\<lparr>startTime := now\<rparr>)"
    by (simp add: startPush_main_def StartPush_BeginPush_def)
  moreover have "length cs = 48829" by (simp add: cs_def)
  ultimately show ?thesis using loop unfolding startPush_request_simps(1) [symmetric] by blast
qed

definition update_sized :: "nat \<Rightarrow> keyspace" where
  "update_sized n = (\<lambda>_. None)(TMP_USER_INFO_KEY \<mapsto> replicate n 0)"

lemma update_sized_user_info: "with_user_info (update_sized n) TMP_USER_INFO_KEY = Some (replicate n 0)"
  by (simp add: update_sized_def with_user_info_def)

theorem startPush_leaves_bitmaps_witness:
  "\<exists>a e. uids_to_send demo_redis a e (connected, update_sized 12500480) = Inl OutOfBounds"
proof -
  from startPush_leaves_bitmaps [of demo_redis "\<lambda>w. w" "\<lambda>_. True" "update_sized 12500480",
      OF demo_redis_documented update_sized_user_info length_replicate, of 0 "\<lparr>startTime = 0, printed = []\<rparr>"]
  obtain cs :: "produce_request list" where "\<forall>i < 48829. \<forall>s. holds (\<lambda>w. w) (\<lambda>_. True) (update_sized 12500480) s \<longrightarrow>
     (if i < 24415 then \<exists>us s'. uids_to_send demo_redis (start_uid (cs ! i)) (end_uid (cs ! i)) s = Inr (Some us, s')
      else uids_to_send demo_redis (start_uid (cs ! i)) (end_uid (cs ! i)) s = Inl OutOfBounds)"
    by blast
  from this [rule_format, of 48828, OF _ demo_holds]
  have "uids_to_send demo_redis (start_uid (cs ! 48828)) (end_uid (cs ! 48828)) (connected, update_sized 12500480) = Inl OutOfBounds"
    by simp
  then show ?thesis by blast
qed

end
