(* ===== verification/StartUp.thy ===== *)
theory StartUp
  imports DaemonClient Registry DispatchFacts Scenarios
begin

text \<open>
  How the processes start: \<^verbatim>\<open>main\<close> of the daemon, of a producer and of the consumer, \<^verbatim>\<open>Run\<close> and the start of
  \<^verbatim>\<open>HandleRpcs\<close>, as the calls they make in their order; and that their addresses fit together.
\<close>

section \<open>The calls\<close>

text \<open>
  Calls of gRPC with the address they get, threads with the function they run, what a process
  does itself, and the destructors.
\<close>

datatype start_call =
    CreateChannel string | AddListeningPort string | RegisterService | AddCompletionQueue | BuildAndStart
  | StartThread string | NewObject string | SetDaemonClientImpl | InitProducerCall
  | ShutdownServer | ShutdownQueue

definition ServerImpl_Run :: "string \<Rightarrow> start_call list" where
  "ServerImpl_Run addr = [AddListeningPort addr, RegisterService, AddCompletionQueue, BuildAndStart]"

definition ServerImpl_destruct :: "start_call list" where
  "ServerImpl_destruct = [ShutdownServer, ShutdownQueue]"

section \<open>The daemon\<close>

definition daemon_Run :: "start_call list" where
  "daemon_Run = ServerImpl_Run ''192.168.99.100:50051''"

definition daemon_threads :: "start_call list" where
  "daemon_threads = [StartThread ''CheckProcAlive'', StartThread ''ReBalanceTimer'', StartThread ''AsyncCompleteRpc'',
     NewObject ''ClientRegisterCallData'', NewObject ''HeartBeatCallData'', NewObject ''BeginPushCallData'',
     NewObject ''LoadBalanceCallData'']"

definition daemon_destruct :: "start_call list" where
  "daemon_destruct = [ShutdownServer, ShutdownQueue]"

definition daemon_main :: "start_call list" where
  "daemon_main = daemon_Run @ daemon_threads"

section \<open>A producer\<close>

definition serverListeningPort :: string where "serverListeningPort = ''50053''"
definition producer_procName :: string where "producer_procName = ''producer''"
definition producer_groupId :: u32 where "producer_groupId = 601"

text \<open>\<^verbatim>\<open>ServerImpl<Producer>::HandleRpcs\<close>, with the constructor of \<^verbatim>\<open>ProducerImpl\<close>.\<close>

definition ProducerImpl_construct :: "start_call list" where
  "ProducerImpl_construct = [StartThread ''AsyncCompleteRpc'']"

definition producer_HandleRpcs :: "start_call list" where
  "producer_HandleRpcs = [InitProducerCall, NewObject ''ProduceMsgCallData'', CreateChannel ''192.168.99.100:50051'']
     @ ProducerImpl_construct @ [StartThread ''SendLoadBalanceInfo'']"

definition producer_main :: "start_call list \<times> daemon_client" where
  "producer_main =
     ([CreateChannel ''192.168.99.100:50051'', StartThread ''DaemonClientImpl::AsyncCompleteRpc'', SetDaemonClientImpl]
        @ ServerImpl_Run (''192.168.99.100:'' @ serverListeningPort) @ producer_HandleRpcs,
      DaemonClientImpl serverListeningPort producer_procName producer_groupId)"

section \<open>The consumer\<close>

definition consumer_main :: "start_call list" where
  "consumer_main = ServerImpl_Run (''localhost:'' @ ''50000'') @
     [StartThread ''InitConsumer'', NewObject ''ConsumerCallData'']"

section \<open>They fit together\<close>

text \<open>
  The processes reach each other. Every channel of a producer goes to the address the daemon
  listens on; the client that a producer starts with sends a registration, and the daemon, which
  sees the host of the producer as the peer, then has a stub for the address the producer
  listens on; the load reports start after the client they ask for their id is known.
\<close>

theorem processes_reach_each_other:
  assumes "splits_at_colons sp" and "CHR '':'' \<notin> set port" and "daemon_ok d"
    and "env_peer env = ''ipv4:192.168.99.100:'' @ port"
  shows "\<exists>req d' host. status_call NO_SERVER (snd producer_main) = Inr (RegisterSent req) \<and>
    ClientRegister sp req env d = (\<lparr>reg_err = SUCCESS, reg_server_id = register_id (env_random env) d\<rparr>, d') \<and>
    AddListeningPort host \<in> set (fst producer_main) \<and>
    prod_of d' (register_id (env_random env) d) = Some (ProducerState (Some host) 0) \<and>
    (\<forall>addr. CreateChannel addr \<in> set (fst producer_main) \<longrightarrow> AddListeningPort addr \<in> set daemon_main) \<and>
    SetDaemonClientImpl \<in> set (takeWhile (\<lambda>c. c \<noteq> StartThread ''SendLoadBalanceInfo'') (fst producer_main))"
proof -
  have "sp (join_colon [''ipv4'', ''192.168.99.100'', port]) = [''ipv4'', ''192.168.99.100'', port]"
    using assms(1,2) by (intro split_unique) auto
  then have ip: "parseAndGetIp sp (env_peer env) = ''192.168.99.100''"
    by (simp add: assms(4) parseAndGetIp_def)
  let ?req = "\<lparr>listening_port = ''50053'', proc_name = ''producer'', group_id = 601\<rparr> :: register_request"
  have "status_call NO_SERVER (snd producer_main) = Inr (RegisterSent ?req)"
    by (simp add: status_call_def producer_main_def DaemonClientImpl_def serverListeningPort_def
        producer_procName_def producer_groupId_def)
  moreover have "prod_of (snd (ClientRegister sp ?req env d)) (register_id (env_random env) d) =
      Some (ProducerState (Some ''192.168.99.100:50053'') 0)"
    using ClientRegister_prod [OF assms(3), of ?req sp env] by (simp add: ip)
  moreover have "ClientRegister sp ?req env d =
      (\<lparr>reg_err = SUCCESS, reg_server_id = register_id (env_random env) d\<rparr>, snd (ClientRegister sp ?req env d))"
    by (rule prod_eqI) simp_all
  moreover have "AddListeningPort ''192.168.99.100:50053'' \<in> set (fst producer_main)"
    "\<forall>addr. CreateChannel addr \<in> set (fst producer_main) \<longrightarrow> AddListeningPort addr \<in> set daemon_main"
    "SetDaemonClientImpl \<in> set (takeWhile (\<lambda>c. c \<noteq> StartThread ''SendLoadBalanceInfo'') (fst producer_main))"
    by (auto simp: producer_main_def producer_HandleRpcs_def ProducerImpl_construct_def ServerImpl_Run_def
        serverListeningPort_def daemon_main_def daemon_Run_def)
  ultimately show ?thesis by blast
qed

theorem processes_reach_each_other_witness:
  "\<exists>d'. prod_of d' 7 = Some (ProducerState (Some ''192.168.99.100:50053'') 0)"
proof -
  let ?env = "\<lparr>env_peer = ''ipv4:192.168.99.100:41000'', env_random = 7, env_now = 0\<rparr>"
  have "CHR '':'' \<notin> set ''41000''" "env_peer ?env = ''ipv4:192.168.99.100:'' @ ''41000''" by simp_all
  from processes_reach_each_other [OF split_colon_splits this(1) daemon_ok_init this(2)]
  obtain d' host where "AddListeningPort host \<in> set (fst producer_main)"
    "prod_of d' (register_id 7 daemon_init) = Some (ProducerState (Some host) 0)" by auto
  moreover have "register_id 7 daemon_init = 7" by (simp add: register_id_def daemon_init_def om_rbegin_def)
  ultimately show ?thesis
    by (auto simp: producer_main_def producer_HandleRpcs_def ProducerImpl_construct_def ServerImpl_Run_def serverListeningPort_def)
qed

end
