(* ===== verification/RpcServer.thy ===== *)
theory RpcServer
  imports Consumer DaemonSystem
begin

text \<open>
  The loop of a server: \<^verbatim>\<open>ServerImpl::HandleRpcs\<close> of the daemon and of the consumer. The objects of
  all services, the operations that gRPC has under way, and the detached threads that each run one
  \<^verbatim>\<open>Proceed\<close>, in all interleavings. Documented of gRPC: each operation returns its tag once.
\<close>

section \<open>State\<close>

text \<open>
  Objects are numbered in the order of their construction, and keep the class they belong to and
  their \<^verbatim>\<open>status_\<close>. The tags of operations under way; the threads before \<^verbatim>\<open>Proceed\<close>; those in its \<^verbatim>\<open>PROCESS\<close> branch,
  after the new object was made; the replies sent; the state that the handlers share.
\<close>

record ('k, 'r, 's) rpc_server =
  objects :: "nat \<Rightarrow> ('k \<times> call_status) option"
  made :: nat
  pending :: "nat multiset"
  started :: "nat multiset"
  handling :: "nat multiset"
  replies :: "(nat \<times> 'r) list"
  running :: bool
  shared :: 's

type_synonym ('k, 'e, 'r, 's) service = "'k \<Rightarrow> call_status \<Rightarrow> 'e \<Rightarrow> 's \<Rightarrow> call_status \<times> 'r action list \<times> 's"

definition server_init :: "'s \<Rightarrow> ('k, 'r, 's) rpc_server" where
  "server_init s = \<lparr>objects = (\<lambda>_. None), made = 0, pending = {#}, started = {#}, handling = {#},
     replies = [], running = True, shared = s\<rparr>"

section \<open>Operations\<close>

text \<open>
  The constructor of an object: \<^verbatim>\<open>status_\<close> is \<^verbatim>\<open>CREATE\<close>, and \<^verbatim>\<open>Proceed\<close> runs once.
\<close>

definition construct :: "('k, 'e, 'r, 's) service \<Rightarrow> 'e \<Rightarrow> 'k \<Rightarrow> ('k, 'r, 's) rpc_server \<Rightarrow> ('k, 'r, 's) rpc_server" where
  "construct proceed e k sv =
     (let n = made sv; (st, acts, s') = proceed k CREATE e (shared sv)
      in sv\<lparr>objects := (objects sv)(n \<mapsto> (k, st)), made := Suc n,
            pending := (if RequestRpc \<in> set acts then add_mset n (pending sv) else pending sv), shared := s'\<rparr>)"

text \<open>\<^verbatim>\<open>Next\<close>: the loop aborts when \<^verbatim>\<open>ok\<close> is false, else a thread is started for the tag.\<close>

definition take_next :: "nat \<Rightarrow> bool \<Rightarrow> ('k, 'r, 's) rpc_server \<Rightarrow> ('k, 'r, 's) rpc_server" where
  "take_next n ok sv =
     (if ok then sv\<lparr>pending := pending sv - {#n#}, started := add_mset n (started sv)\<rparr>
      else sv\<lparr>running := False\<rparr>)"

text \<open>
  A thread enters \<^verbatim>\<open>Proceed\<close>. In the \<^verbatim>\<open>PROCESS\<close> branch it makes the object for the next RPC, and goes on;
  every other branch is done at once.
\<close>

definition enter ::
  "('k, 'e, 'r, 's) service \<Rightarrow> 'e \<Rightarrow> nat \<Rightarrow> ('k, 'r, 's) rpc_server \<Rightarrow> ('k, 'r, 's) rpc_server ub_or" where
  "enter proceed e n sv =
     (case objects sv n of
        None \<Rightarrow> Inl UseAfterFree
      | Some (k, st) \<Rightarrow>
          let sv1 = sv\<lparr>started := started sv - {#n#}\<rparr> in
          if st = PROCESS then Inr (construct proceed e k (sv1\<lparr>handling := add_mset n (handling sv1)\<rparr>))
          else let (st', acts, s') = proceed k st e (shared sv1) in
            Inr (sv1\<lparr>objects := (objects sv1)(n := if DeleteThis \<in> set acts then None else Some (k, st')), shared := s'\<rparr>))"

fun send_reply :: "nat \<Rightarrow> 'r action \<Rightarrow> ('k, 'r, 's) rpc_server \<Rightarrow> ('k, 'r, 's) rpc_server" where
  "send_reply n (FinishRpc r) sv = sv\<lparr>pending := add_mset n (pending sv), replies := replies sv @ [(n, r)]\<rparr>"
| "send_reply n _ sv = sv"

text \<open>The rest of the \<^verbatim>\<open>PROCESS\<close> branch, up to \<^verbatim>\<open>responder_.Finish\<close>, the last use of the object by its thread.\<close>

definition finish ::
  "('k, 'e, 'r, 's) service \<Rightarrow> 'e \<Rightarrow> nat \<Rightarrow> ('k, 'r, 's) rpc_server \<Rightarrow> ('k, 'r, 's) rpc_server ub_or" where
  "finish proceed e n sv =
     (case objects sv n of
        None \<Rightarrow> Inl UseAfterFree
      | Some (k, st) \<Rightarrow>
          let (st', acts, s') = proceed k st e (shared sv)
          in Inr (fold (send_reply n) acts
               (sv\<lparr>handling := handling sv - {#n#}, objects := (objects sv)(n \<mapsto> (k, st')), shared := s'\<rparr>)))"

text \<open>The start of \<^verbatim>\<open>HandleRpcs\<close>: one object of each class.\<close>

definition HandleRpcs_start :: "('k, 'e, 'r, 's) service \<Rightarrow> 'e \<Rightarrow> 'k list \<Rightarrow> 's \<Rightarrow> ('k, 'r, 's) rpc_server" where
  "HandleRpcs_start proceed e ks s = fold (construct proceed e) ks (server_init s)"

section \<open>Steps\<close>

text \<open>\<open>Elsewhere\<close>: other threads of the process change the shared state.\<close>

datatype ('e, 's) rpc_event = Next nat bool | Enter nat 'e | Finish nat 'e | Elsewhere 's

inductive rpc_step ::
  "('k, 'e, 'r, 's) service \<Rightarrow> ('e, 's) rpc_event \<Rightarrow> ('k, 'r, 's) rpc_server \<Rightarrow> ('k, 'r, 's) rpc_server \<Rightarrow> bool"
  for proceed where
  take: "running sv \<Longrightarrow> n \<in># pending sv \<Longrightarrow> rpc_step proceed (Next n ok) sv (take_next n ok sv)"
| enter: "running sv \<Longrightarrow> n \<in># started sv \<Longrightarrow> enter proceed e n sv = Inr sv' \<Longrightarrow> rpc_step proceed (Enter n e) sv sv'"
| finish: "running sv \<Longrightarrow> n \<in># handling sv \<Longrightarrow> finish proceed e n sv = Inr sv' \<Longrightarrow> rpc_step proceed (Finish n e) sv sv'"
| elsewhere: "running sv \<Longrightarrow> rpc_step proceed (Elsewhere s) sv (sv\<lparr>shared := s\<rparr>)"

inductive_simps rpc_step_simps:
  "rpc_step proceed (Next n ok) sv sv'" "rpc_step proceed (Enter n e) sv sv'"
  "rpc_step proceed (Finish n e) sv sv'" "rpc_step proceed (Elsewhere s) sv sv'"

definition exec_rpc ::
  "('k, 'e, 'r, 's) service \<Rightarrow> ('e, 's) rpc_event \<Rightarrow> ('k, 'r, 's) rpc_server \<Rightarrow> ('k, 'r, 's) rpc_server option" where
  "exec_rpc proceed ev sv =
     (if \<not> running sv then None
      else case ev of
        Next n ok \<Rightarrow> if n \<in># pending sv then Some (take_next n ok sv) else None
      | Enter n e \<Rightarrow> if n \<in># started sv then (case enter proceed e n sv of Inl _ \<Rightarrow> None | Inr sv' \<Rightarrow> Some sv') else None
      | Finish n e \<Rightarrow> if n \<in># handling sv then (case finish proceed e n sv of Inl _ \<Rightarrow> None | Inr sv' \<Rightarrow> Some sv') else None
      | Elsewhere s \<Rightarrow> Some (sv\<lparr>shared := s\<rparr>))"

lemma exec_rpc_iff: "exec_rpc proceed ev sv = Some sv' \<longleftrightarrow> rpc_step proceed ev sv sv'"
  by (cases ev) (auto simp: exec_rpc_def rpc_step_simps split: if_splits sum.splits)

interpretation rpc_exec: executable_steps "rpc_step proceed" "exec_rpc proceed" for proceed
  by unfold_locales (rule exec_rpc_iff)

text \<open>Only a failed operation stops the loop, and nothing happens after it.\<close>

lemma running_construct: "running (construct proceed e k sv) = running sv"
  by (simp add: construct_def Let_def split: prod.splits)

lemma running_replies: "running (fold (send_reply n) acts sv) = running sv"
proof (induction acts arbitrary: sv)
  case (Cons act acts)
  then show ?case by (cases act) simp_all
qed simp

lemma step_running: "rpc_step proceed ev sv sv' \<Longrightarrow> running sv \<and> (running sv' \<longleftrightarrow> (\<forall>n. ev \<noteq> Next n False))"
  by (erule rpc_step.cases)
    (auto simp: take_next_def enter_def finish_def running_construct running_replies Let_def
      split: option.splits prod.splits if_splits)

section \<open>What holds in every run\<close>

definition places :: "('k, 'r, 's) rpc_server \<Rightarrow> nat multiset" where
  "places sv = pending sv + started sv + handling sv"

text \<open>The object of a class that waits for its next RPC, or whose RPC arrived and is not looked at yet.\<close>

definition listens :: "('k, 'r, 's) rpc_server \<Rightarrow> 'k \<Rightarrow> nat \<Rightarrow> bool" where
  "listens sv k n \<longleftrightarrow> objects sv n = Some (k, PROCESS) \<and> n \<notin># handling sv"

definition in_process :: "('k, 'r, 's) rpc_server \<Rightarrow> nat set" where
  "in_process sv = {n. \<exists>k. objects sv n = Some (k, PROCESS)}"

definition rpc_ok :: "'k set \<Rightarrow> ('k, 'r, 's) rpc_server \<Rightarrow> bool" where
  "rpc_ok K sv \<longleftrightarrow>
     (\<forall>n. count (places sv) n = (if objects sv n = None then 0 else 1)) \<and>
     (\<forall>n \<ge> made sv. objects sv n = None) \<and>
     (\<forall>n k st. objects sv n = Some (k, st) \<longrightarrow> k \<in> K \<and> st \<noteq> CREATE) \<and>
     (\<forall>n \<in># handling sv. n \<in> in_process sv) \<and>
     (\<forall>k \<in> K. \<exists>!n. listens sv k n) \<and>
     distinct (map fst (replies sv)) \<and> fst ` set (replies sv) = {..<made sv} - in_process sv"

lemma rpc_okD:
  assumes "rpc_ok K sv"
  shows "count (places sv) n = (if objects sv n = None then 0 else 1)"
    and "made sv \<le> n \<Longrightarrow> objects sv n = None"
    and "objects sv n = Some (k, st) \<Longrightarrow> k \<in> K \<and> st \<noteq> CREATE"
    and "n \<in># handling sv \<Longrightarrow> n \<in> in_process sv"
    and "k \<in> K \<Longrightarrow> \<exists>!n. listens sv k n"
    and "distinct (map fst (replies sv))"
    and "fst ` set (replies sv) = {..<made sv} - in_process sv"
  using assms by (simp_all add: rpc_ok_def)

locale rpc_services =
  fixes proceed :: "('k, 'e, 'r, 's) service"
  assumes services: "call_data (proceed k)"
begin

lemmas proceed_simps [simp] =
  call_data.proceed_create [OF services] call_data.proceed_finish [OF services]

lemma construct_eq [simp]:
  "construct proceed e k sv = sv\<lparr>objects := (objects sv)(made sv \<mapsto> (k, PROCESS)), made := Suc (made sv),
     pending := add_mset (made sv) (pending sv)\<rparr>"
  by (simp add: construct_def Let_def)

lemma enter_process:
  "objects sv n = Some (k, PROCESS) \<Longrightarrow> enter proceed e n sv =
     Inr (construct proceed e k (sv\<lparr>started := started sv - {#n#}, handling := add_mset n (handling sv)\<rparr>))"
  by (simp add: enter_def)

lemma enter_finish:
  "objects sv n = Some (k, FINISH) \<Longrightarrow> enter proceed e n sv =
     Inr (sv\<lparr>started := started sv - {#n#}, objects := (objects sv)(n := None)\<rparr>)"
  by (simp add: enter_def)

lemma finish_eq:
  assumes "objects sv n = Some (k, PROCESS)"
  obtains r s' where "finish proceed e n sv =
    Inr (sv\<lparr>handling := handling sv - {#n#}, objects := (objects sv)(n \<mapsto> (k, FINISH)), shared := s',
      pending := add_mset n (pending sv), replies := replies sv @ [(n, r)]\<rparr>)"
proof -
  obtain r s' where "proceed k PROCESS e (shared sv) = (FINISH, [NewCallData, FinishRpc r], s')"
    using call_data.proceed_process [OF services] by blast
  then show thesis using assms by (intro that [of r s']) (simp add: finish_def)
qed

text \<open>Where a thread or an operation has the number of an object, the object is there.\<close>

lemma place_object:
  assumes "rpc_ok K sv" and "n \<in># places sv"
  shows "(\<exists>k. objects sv n = Some (k, PROCESS)) \<or> (\<exists>k. objects sv n = Some (k, FINISH))"
proof -
  obtain k st where o: "objects sv n = Some (k, st)"
    using rpc_okD(1) [OF assms(1), of n] assms(2) by (cases "objects sv n") (auto simp: count_eq_zero_iff)
  moreover have "st \<noteq> CREATE" using rpc_okD(3) [OF assms(1) o] by simp
  ultimately show ?thesis by (cases st) auto
qed

lemma place_made: "rpc_ok K sv \<Longrightarrow> n \<in># places sv \<Longrightarrow> n < made sv"
  using place_object rpc_okD(2) by (metis not_le option.distinct(1))

lemma handled_process: "rpc_ok K sv \<Longrightarrow> n \<in># handling sv \<Longrightarrow> \<exists>k. objects sv n = Some (k, PROCESS)"
  using rpc_okD(4) by (fastforce simp: in_process_def)

lemma started_not_handled:
  assumes "rpc_ok K sv" and "n \<in># started sv"
  shows "n \<notin># handling sv"
proof
  assume "n \<in># handling sv"
  then obtain A B where "started sv = add_mset n A" "handling sv = add_mset n B"
    using assms(2) by (metis multi_member_split)
  then have "2 \<le> count (places sv) n" by (simp add: places_def)
  then show False using rpc_okD(1) [OF assms(1), of n] by (simp split: if_splits)
qed

section \<open>Steps keep it\<close>

lemma in_remove: "m \<noteq> n \<Longrightarrow> m \<in># A - {#n#} \<longleftrightarrow> m \<in># A"
  by (simp flip: count_greater_zero_iff)

lemma ok_same_objects:
  assumes ok: "rpc_ok K sv" and "objects sv' = objects sv" and "made sv' = made sv" and "handling sv' = handling sv"
    and "replies sv' = replies sv" and "places sv' = places sv"
  shows "rpc_ok K sv'"
  using ok by (simp add: rpc_ok_def listens_def in_process_def assms(2-6))

lemma ok_take: "rpc_ok K sv \<Longrightarrow> n \<in># pending sv \<Longrightarrow> rpc_ok K (take_next n ok sv)"
  by (erule ok_same_objects) (auto simp: take_next_def places_def dest!: multi_member_split)

lemma ok_delete:
  assumes ok: "rpc_ok K sv" and n: "n \<in># started sv" "objects sv n = Some (k, FINISH)"
  shows "rpc_ok K (sv\<lparr>started := started sv - {#n#}, objects := (objects sv)(n := None)\<rparr>)" (is "rpc_ok K ?sv")
proof -
  have places: "places sv = add_mset n (places ?sv)"
    using n(1) by (auto simp: places_def dest!: multi_member_split)
  have "n \<notin># handling sv" using started_not_handled [OF ok n(1)] .
  have l: "listens ?sv = listens sv" by (auto simp: listens_def fun_eq_iff n(2))
  have u: "in_process ?sv = in_process sv" by (auto simp: in_process_def n(2))
  have c: "count (places ?sv) m = (if objects ?sv m = None then 0 else 1)" for m
    using rpc_okD(1) [OF ok, of m] unfolding places by (simp add: n(2) split: if_splits)
  show ?thesis
    unfolding rpc_ok_def l u using rpc_okD(2-) [OF ok] c by simp
qed

lemma ok_arrive:
  assumes ok: "rpc_ok K sv" and n: "n \<in># started sv" "objects sv n = Some (k, PROCESS)"
  shows "rpc_ok K (construct proceed e k (sv\<lparr>started := started sv - {#n#}, handling := add_mset n (handling sv)\<rparr>))"
    (is "rpc_ok K ?sv")
proof -
  let ?m = "made sv"
  have places: "places ?sv = add_mset ?m (places sv)"
    using n(1) by (auto simp: places_def dest!: multi_member_split)
  have new: "objects sv ?m = None" using rpc_okD(2) [OF ok] by simp
  have nm: "n < ?m" using place_made [OF ok] n(1) by (simp add: places_def)
  have fresh: "?m \<notin># handling sv" using place_made [OF ok, of ?m] by (auto simp: places_def)
  have l: "listens sv k n" using started_not_handled [OF ok n(1)] n(2) by (simp add: listens_def)
  have K: "k \<in> K" using rpc_okD(3) [OF ok n(2)] by simp
  have one: "j = n" if "listens sv k j" for j using rpc_okD(5) [OF ok K] l that by blast
  have listens: "listens ?sv k' j \<longleftrightarrow> (if k' = k then j = ?m else listens sv k' j)" for k' j
    using one [of j] new fresh nm n(2) by (auto simp: listens_def)
  have u: "in_process ?sv = insert ?m (in_process sv)" by (auto simp: in_process_def)
  have "fst ` set (replies ?sv) = {..<made ?sv} - in_process ?sv"
    unfolding u using rpc_okD(7) [OF ok] by auto
  moreover have "count (places ?sv) j = (if objects ?sv j = None then 0 else 1)" for j
    using rpc_okD(1) [OF ok, of j] new unfolding places by (cases "?m = j") simp_all
  moreover have "\<exists>!j. listens ?sv k' j" if "k' \<in> K" for k'
    using rpc_okD(5) [OF ok that] unfolding listens by auto
  moreover have "j \<in> in_process ?sv" if "j \<in># handling ?sv" for j
    using that rpc_okD(4) [OF ok, of j] n(2) unfolding u by (auto simp: in_process_def)
  ultimately show ?thesis
    unfolding rpc_ok_def using rpc_okD(2,3,6) [OF ok] K by (simp split: if_splits)
qed

lemma ok_reply:
  assumes ok: "rpc_ok K sv" and n: "n \<in># handling sv" "objects sv n = Some (k, PROCESS)"
  shows "rpc_ok K (sv\<lparr>handling := handling sv - {#n#}, objects := (objects sv)(n \<mapsto> (k, FINISH)), shared := s',
      pending := add_mset n (pending sv), replies := replies sv @ [(n, r)]\<rparr>)" (is "rpc_ok K ?sv")
proof -
  have places: "places ?sv = places sv" using n(1) by (auto simp: places_def dest!: multi_member_split)
  have nm: "n < made sv" using place_made [OF ok] n(1) by (simp add: places_def)
  have l: "listens ?sv = listens sv"
    using n(1) by (auto simp: listens_def fun_eq_iff n(2) in_remove)
  have u: "in_process ?sv = in_process sv - {n}" by (auto simp: in_process_def)
  have n_un: "n \<in> in_process sv" using n(2) by (simp add: in_process_def)
  then have "n \<notin> fst ` set (replies sv)" using rpc_okD(7) [OF ok] by simp
  then have d: "distinct (map fst (replies ?sv))" using rpc_okD(6) [OF ok] by simp
  have "fst ` set (replies ?sv) = {..<made ?sv} - in_process ?sv"
    unfolding u using rpc_okD(7) [OF ok] nm n_un by auto
  moreover have "count (places ?sv) j = (if objects ?sv j = None then 0 else 1)" for j
    using rpc_okD(1) [OF ok, of j] unfolding places by (simp add: n(2))
  moreover have "j \<in> in_process ?sv" if "j \<in># handling ?sv" for j
  proof -
    have "j \<noteq> n"
    proof
      assume "j = n"
      obtain A where A: "handling sv = add_mset n A" using n(1) by (metis multi_member_split)
      then have "n \<in># A" using that \<open>j = n\<close> by simp
      then obtain B where "A = add_mset n B" by (metis multi_member_split)
      with A have "2 \<le> count (places sv) n" by (simp add: places_def)
      then show False using rpc_okD(1) [OF ok, of n] n(2) by simp
    qed
    then show ?thesis using that rpc_okD(4) [OF ok, of j] unfolding u by (auto dest: in_diffD)
  qed
  ultimately show ?thesis
    unfolding rpc_ok_def l using rpc_okD(2,3,5) [OF ok] rpc_okD(3) [OF ok n(2)] d nm by (auto split: if_splits)
qed

lemma step_rpc_ok:
  assumes ok: "rpc_ok K sv" and st: "rpc_step proceed ev sv sv'"
  shows "rpc_ok K sv'"
  using st
proof (cases rule: rpc_step.cases)
  case (take n ok')
  then show ?thesis using ok_take [OF ok] by simp
next
  case (enter n e)
  have "n \<in># places sv" using enter(3) by (simp add: places_def)
  from place_object [OF ok this] show ?thesis
    using enter ok_arrive [OF ok enter(3)] ok_delete [OF ok enter(3)] by (auto simp: enter_process enter_finish)
next
  case (finish n e)
  obtain k where k: "objects sv n = Some (k, PROCESS)" using handled_process [OF ok finish(3)] by blast
  obtain r s' where "finish proceed e n sv =
    Inr (sv\<lparr>handling := handling sv - {#n#}, objects := (objects sv)(n \<mapsto> (k, FINISH)), shared := s',
      pending := add_mset n (pending sv), replies := replies sv @ [(n, r)]\<rparr>)"
    using finish_eq [OF k] by blast
  then show ?thesis using finish(4) ok_reply [OF ok finish(3) k] by simp
next
  case (elsewhere s)
  then show ?thesis using ok by (auto intro: ok_same_objects simp: places_def)
qed

text \<open>No thread finds its object deleted.\<close>

lemma no_use_after_free:
  assumes ok: "rpc_ok K sv"
  shows "n \<in># started sv \<Longrightarrow> defined (enter proceed e n sv)"
    and "n \<in># handling sv \<Longrightarrow> defined (finish proceed e n sv)"
proof -
  assume "n \<in># started sv"
  then have "n \<in># places sv" by (simp add: places_def)
  from place_object [OF ok this] show "defined (enter proceed e n sv)"
    by (auto simp: enter_process enter_finish)
next
  assume "n \<in># handling sv"
  then obtain k where "objects sv n = Some (k, PROCESS)" using handled_process [OF ok] by blast
  then show "defined (finish proceed e n sv)" by (rule finish_eq [of _ _ _ e]) simp
qed

text \<open>The objects that \<^verbatim>\<open>HandleRpcs\<close> makes first.\<close>

lemma construct_more:
  assumes "rpc_ok K sv" and "k \<notin> K" and "handling sv = {#}"
  shows "rpc_ok (insert k K) (construct proceed e k sv)"
proof -
  let ?m = "made sv" and ?sv = "construct proceed e k sv"
  have new: "objects sv ?m = None" using rpc_okD(2) [OF assms(1)] by simp
  have no: "objects sv j \<noteq> Some (k, st)" for j st using rpc_okD(3) [OF assms(1)] assms(2) by blast
  have listens: "listens ?sv k' j \<longleftrightarrow> (if k' = k then j = ?m else listens sv k' j)" for k' j
    using new no by (auto simp: listens_def assms(3))
  have places: "places ?sv = add_mset ?m (places sv)" by (simp add: places_def)
  have u: "in_process ?sv = insert ?m (in_process sv)" by (auto simp: in_process_def)
  have "fst ` set (replies ?sv) = {..<made ?sv} - in_process ?sv"
    unfolding u using rpc_okD(7) [OF assms(1)] by auto
  moreover have "count (places ?sv) j = (if objects ?sv j = None then 0 else 1)" for j
    using rpc_okD(1) [OF assms(1), of j] new unfolding places by (cases "?m = j") simp_all
  moreover have "\<exists>!j. listens ?sv k' j" if "k' \<in> insert k K" for k'
    using rpc_okD(5) [OF assms(1)] that unfolding listens by (cases "k' = k") auto
  ultimately show ?thesis
    unfolding rpc_ok_def using rpc_okD(2,3,6) [OF assms(1)] assms(3) by (auto split: if_splits)
qed

lemma start_ok_from:
  "rpc_ok K sv \<Longrightarrow> handling sv = {#} \<Longrightarrow> distinct ks \<Longrightarrow> set ks \<inter> K = {} \<Longrightarrow>
    rpc_ok (set ks \<union> K) (fold (construct proceed e) ks sv)"
proof (induction ks arbitrary: K sv)
  case (Cons k ks)
  have "rpc_ok (insert k K) (construct proceed e k sv)"
    by (rule construct_more) (use Cons.prems in auto)
  moreover have "handling (construct proceed e k sv) = {#}" using Cons.prems(2) by simp
  ultimately have "rpc_ok (set ks \<union> insert k K) (fold (construct proceed e) ks (construct proceed e k sv))"
    using Cons.prems(3,4) by (intro Cons.IH) auto
  then show ?case by (simp del: construct_eq)
qed simp

lemma start_ok: "distinct ks \<Longrightarrow> rpc_ok (set ks) (HandleRpcs_start proceed e ks s)"
proof -
  assume d: "distinct ks"
  have "rpc_ok {} (server_init s)"
    by (auto simp: rpc_ok_def server_init_def places_def in_process_def)
  from start_ok_from [OF this _ d] show ?thesis by (simp add: HandleRpcs_start_def server_init_def)
qed

end

section \<open>The servers of the daemon and of the consumer\<close>

datatype daemon_service = RegisterService | BeatService | PushService | LoadService

datatype daemon_reply = RegisterReply register_reply | ErrReply err_code

text \<open>What a request brings, and what its handler finds around it: one field for each service.\<close>

record daemon_input =
  in_register :: "register_request \<times> register_env"
  in_beat :: "int \<times> u64"
  in_push :: push_request
  in_load :: "double \<times> load_balance_request"

definition on_tables ::
  "('r \<Rightarrow> daemon_reply) \<Rightarrow> system \<Rightarrow> call_status \<times> 'r action list \<times> daemon \<Rightarrow> call_status \<times> daemon_reply action list \<times> system" where
  "on_tables f s x = (let (st, acts, d) = x in (st, map (map_action f) acts, s\<lparr>tables := d\<rparr>))"

definition daemon_proceed ::
  "(string \<Rightarrow> string list) \<Rightarrow> (produce_request \<Rightarrow> system \<Rightarrow> system) \<Rightarrow>
   (daemon_service, daemon_input, daemon_reply, system) service" where
  "daemon_proceed sp select k st i s =
     (case k of
        RegisterService \<Rightarrow> on_tables RegisterReply s (ClientRegister_Proceed sp st (in_register i) (tables s))
      | BeatService \<Rightarrow> on_tables ErrReply s (HeartBeat_Proceed st (in_beat i) (tables s))
      | LoadService \<Rightarrow> on_tables ErrReply s (LoadBalance_Proceed st (in_load i) (tables s))
      | PushService \<Rightarrow>
          (let (st', acts, s') = BeginPush_Proceed select st (in_push i) s in (st', map (map_action ErrReply) acts, s')))"

text \<open>In the order of \<^verbatim>\<open>HandleRpcs\<close>.\<close>

definition daemon_services :: "daemon_service list" where
  "daemon_services = [RegisterService, BeatService, PushService, LoadService]"

definition daemon_HandleRpcs ::
  "(string \<Rightarrow> string list) \<Rightarrow> (produce_request \<Rightarrow> system \<Rightarrow> system) \<Rightarrow> daemon_input \<Rightarrow>
   (daemon_service, daemon_reply, system) rpc_server" where
  "daemon_HandleRpcs sp select i = HandleRpcs_start (daemon_proceed sp select) i daemon_services system_init"

definition consumer_HandleRpcs :: "'s \<Rightarrow> (unit, unit, 's) rpc_server" where
  "consumer_HandleRpcs s = HandleRpcs_start (\<lambda>_ :: unit. ConsumerCallData_Proceed) () [()] s"

text \<open>The constructors of the classes; \<^verbatim>\<open>HandleRpcs\<close> makes one object of each.\<close>

definition ClientRegisterCallData where
  "ClientRegisterCallData sp select i = construct (daemon_proceed sp select) i RegisterService"

definition HeartBeatCallData where
  "HeartBeatCallData sp select i = construct (daemon_proceed sp select) i BeatService"

definition BeginPushCallData where
  "BeginPushCallData sp select i = construct (daemon_proceed sp select) i PushService"

definition LoadBalanceCallData where
  "LoadBalanceCallData sp select i = construct (daemon_proceed sp select) i LoadService"

definition ConsumerCallData :: "(unit, unit, 's) rpc_server \<Rightarrow> (unit, unit, 's) rpc_server" where
  "ConsumerCallData = construct (\<lambda>_ :: unit. ConsumerCallData_Proceed) () ()"

lemma daemon_HandleRpcs_objects:
  "daemon_HandleRpcs sp select i = LoadBalanceCallData sp select i (BeginPushCallData sp select i
     (HeartBeatCallData sp select i (ClientRegisterCallData sp select i (server_init system_init))))"
  by (simp add: daemon_HandleRpcs_def HandleRpcs_start_def daemon_services_def ClientRegisterCallData_def
      HeartBeatCallData_def BeginPushCallData_def LoadBalanceCallData_def)

lemma consumer_HandleRpcs_objects: "consumer_HandleRpcs s = ConsumerCallData (server_init s)"
  by (simp add: consumer_HandleRpcs_def HandleRpcs_start_def ConsumerCallData_def)

lemma set_daemon_services: "set daemon_services = UNIV"
proof -
  have "k \<in> set daemon_services" for k by (cases k) (simp_all add: daemon_services_def)
  then show ?thesis by blast
qed

lemma daemon_call_data: "call_data (daemon_proceed sp select k)"
proof (unfold_locales, goal_cases)
  case (1 e s)
  show ?case
    by (cases k) (simp_all add: daemon_proceed_def on_tables_def register.proceed_create heart_beat.proceed_create
        load_balance.proceed_create begin_push.proceed_create)
next
  case (2 e s)
  show ?case
    by (cases k) (simp_all add: daemon_proceed_def on_tables_def ClientRegister_Proceed_def HeartBeat_Proceed_def
        LoadBalance_Proceed_def BeginPush_Proceed_def split: prod.splits)
next
  case (3 e s)
  show ?case
    by (cases k) (simp_all add: daemon_proceed_def on_tables_def register.proceed_finish heart_beat.proceed_finish
        load_balance.proceed_finish begin_push.proceed_finish)
qed

interpretation daemon_rpcs: rpc_services "daemon_proceed sp select" for sp select
  by (rule rpc_services.intro) (rule daemon_call_data)

interpretation consumer_rpcs: rpc_services "\<lambda>_ :: unit. ConsumerCallData_Proceed"
  by unfold_locales

lemma daemon_start_ok: "rpc_ok UNIV (daemon_HandleRpcs sp select i)"
  unfolding daemon_HandleRpcs_def set_daemon_services [symmetric]
  by (rule daemon_rpcs.start_ok) (simp add: daemon_services_def)

lemma start_running: "running (HandleRpcs_start proceed e ks s)"
proof -
  have "running (fold (construct proceed e) ks sv) = running sv" for sv
    by (induction ks arbitrary: sv) (simp_all add: running_construct)
  then show ?thesis by (simp add: HandleRpcs_start_def server_init_def)
qed

lemma daemon_start_running: "running (daemon_HandleRpcs sp select i)"
  by (simp add: daemon_HandleRpcs_def start_running)

interpretation daemon_rpcs_inv: trace_invariant "rpc_step (daemon_proceed sp select)" "daemon_HandleRpcs sp select i" any_event
  "\<lambda>evs sv. rpc_ok UNIV sv \<and> (running sv \<longleftrightarrow> (\<forall>n. Next n False \<notin> set evs))" for sp select i
  by unfold_locales
    (auto simp: daemon_start_ok daemon_start_running dest: daemon_rpcs.step_rpc_ok step_running)

end
