(* ===== verification/ServerProps.thy ===== *)
theory ServerProps
  imports RpcServer Scenarios
begin

text \<open>
  What the loop of the daemon's server promises to its clients, and how it ends.
\<close>

text \<open>
  C19: every RPC of the daemon is answered once. In every interleaving of its loop, its \<^verbatim>\<open>Proceed\<close> threads
  and its other threads: no thread finds its object deleted; each of the four services has
  exactly one object that listens; every other object that was made has sent one reply, and no
  second one, or is being handled. The loop runs until an operation fails; then the process
  is aborted, and nothing happens any more.
\<close>

theorem daemon_answers_once:
  assumes "traces (rpc_step (daemon_proceed sp select)) (daemon_HandleRpcs sp select i) any_event evs sv"
  shows "(\<forall>n \<in># started sv. \<forall>e. defined (enter (daemon_proceed sp select) e n sv)) \<and>
    (\<forall>n \<in># handling sv. \<forall>e. defined (finish (daemon_proceed sp select) e n sv)) \<and>
    (\<forall>k. \<exists>!n. listens sv k n) \<and> distinct (map fst (replies sv)) \<and>
    (\<forall>n < made sv. n \<notin> fst ` set (replies sv) \<longrightarrow> n \<in># handling sv \<or> (\<exists>k. listens sv k n)) \<and>
    (\<forall>n \<in> fst ` set (replies sv). n \<notin># handling sv \<and> (\<forall>k. \<not> listens sv k n)) \<and>
    (running sv \<longleftrightarrow> (\<forall>n. Next n False \<notin> set evs)) \<and>
    (\<not> running sv \<longrightarrow> (\<forall>ev sv'. \<not> rpc_step (daemon_proceed sp select) ev sv sv'))"
proof -
  have ok: "rpc_ok UNIV sv" and run: "running sv \<longleftrightarrow> (\<forall>n. Next n False \<notin> set evs)"
    using daemon_rpcs_inv.inv_run [OF assms] by blast+
  have stop: "\<not> running sv \<longrightarrow> (\<forall>ev sv'. \<not> rpc_step (daemon_proceed sp select) ev sv sv')"
    using step_running by blast
  have started: "\<forall>n \<in># started sv. \<forall>e. defined (enter (daemon_proceed sp select) e n sv)"
    and handling: "\<forall>n \<in># handling sv. \<forall>e. defined (finish (daemon_proceed sp select) e n sv)"
    using daemon_rpcs.no_use_after_free [OF ok] by simp_all
  have listening: "\<forall>k. \<exists>!n. listens sv k n" using rpc_okD(5) [OF ok] by simp
  have open_rpcs: "\<forall>n < made sv. n \<notin> fst ` set (replies sv) \<longrightarrow> n \<in># handling sv \<or> (\<exists>k. listens sv k n)"
    using rpc_okD(7) [OF ok] by (auto simp: in_process_def listens_def)
  have answered: "\<forall>n \<in> fst ` set (replies sv). n \<notin># handling sv \<and> (\<forall>k. \<not> listens sv k n)"
    unfolding rpc_okD(7) [OF ok] using rpc_okD(4) [OF ok] by (auto simp: in_process_def listens_def)
  from started handling listening rpc_okD(6) [OF ok] open_rpcs answered run stop show ?thesis
    by (intro conjI)
qed

text \<open>A client registers; it is gone when the reply is sent, and the daemon is aborted.\<close>

definition one_input :: daemon_input where
  "one_input = \<lparr>in_register = (producer_request, at_time 0), in_beat = (0, 7),
     in_push = \<lparr>push_msg_id = 1, push_start_uid = 0, push_end_uid = 7\<rparr>,
     in_load = (0, \<lparr>lb_server_id = 7, lb_score = ''1''\<rparr>)\<rparr>"

definition lost_reply :: "(daemon_input, system) rpc_event list" where
  "lost_reply = [Next 0 True, Enter 0 one_input, Finish 0 one_input, Next 0 False]"

theorem daemon_answers_once_witness:
  "\<exists>sv. traces (rpc_step (daemon_proceed split_colon (\<lambda>r s. s))) (daemon_HandleRpcs split_colon (\<lambda>r s. s) one_input)
      any_event lost_reply sv \<and> map fst (replies sv) = [0] \<and> \<not> running sv \<and>
    (\<forall>ev sv'. \<not> rpc_step (daemon_proceed split_colon (\<lambda>r s. s)) ev sv sv')"
proof -
  let ?P = "daemon_proceed split_colon (\<lambda>r s. s)"
  have "case exec_trace (exec_rpc ?P) any_event lost_reply (daemon_HandleRpcs split_colon (\<lambda>r s. s) one_input) of
      None \<Rightarrow> False | Some sv \<Rightarrow> map fst (replies sv) = [0]"
    by code_simp
  then obtain sv where "exec_trace (exec_rpc ?P) any_event lost_reply (daemon_HandleRpcs split_colon (\<lambda>r s. s) one_input) = Some sv"
    and r: "map fst (replies sv) = [0]"
    by (auto split: option.splits)
  note run = rpc_exec.exec_run [OF this(1)]
  note once = daemon_answers_once [OF run]
  have "Next 0 False \<in> set lost_reply" by (simp add: lost_reply_def)
  then have "\<not> running sv" using once by blast
  moreover then have "\<forall>ev sv'. \<not> rpc_step ?P ev sv sv'" using once by blast
  ultimately show ?thesis using run r by (intro exI [of _ sv]) simp
qed

end
