(* ===== verification/Spec2Isabelle.thy ===== *)
theory Spec2Isabelle
  imports DaemonProps HandlerProps RegistryProps ProducerProps UpdateProps ClientProps ReportProps Membership
    KeepAlive Chunking SharedProps Reporting NetworkProps WholeSystem Stubs StartPush StartUp ServerProps
begin

text \<open>
  Verification of the push system.

  \<^bold>\<open>The program.\<close> A push sends one message to every user of a range of user ids whose bit is set in
  three bitmaps. Its processes:

  \<^item> the daemon (\<^verbatim>\<open>daemonServer/\<close>) keeps a registry of the running servers. They register, send heart
    beats and load reports; a thread removes those that are silent for more than ten seconds. On
    \<^verbatim>\<open>BeginPush\<close> the daemon splits the range into chunks of 4096 user ids and gives each to a
    producer: to an idle one first, otherwise to one drawn with its load score as weight. A chunk
    that failed or was answered with an error is sent again, and a producer with more than 50
    failures between two passes of the liveness thread is removed.
  \<^item> a producer (\<^verbatim>\<open>producer/\<close>) gets chunks, reads the bits of the range from Redis, hands one message
    for each user to RocketMQ, and answers when all are acknowledged. It reports its load.
  \<^item> the consumer (\<^verbatim>\<open>consumer/\<close>) receives the messages.
  \<^item> \<^verbatim>\<open>userInfoUpdate/\<close> copies the user tables of MySQL into the bitmaps once a day.
  \<^item> \<^verbatim>\<open>startPush/\<close> sends one \<^verbatim>\<open>BeginPush\<close>.

  They share \<^verbatim>\<open>common/\<close>: the daemon client, the RPC call objects, the connections to Redis and
  MySQL, the key names, the load score, the RocketMQ counter and options.

  \<^bold>\<open>The language.\<close> \<open>Prelude\<close> has the machine integers as words (\<open>u32\<close>, \<open>u64\<close>), the ways a C++ expression
  has no defined value (\<open>ub\<close>; fallible code returns \<open>ub_or\<close>, a sum), and printing of numbers.
  \<open>StdContainers\<close> has \<^verbatim>\<open>std::map\<close>, \<^verbatim>\<open>std::set\<close> and \<^verbatim>\<open>unordered_map\<close> as sorted association lists behind the
  locale \<open>std_map\<close>, with the end iterator and the inserting \<^verbatim>\<open>operator[]\<close>. \<open>Binary64\<close> has \<^verbatim>\<open>double\<close> as rationals
  with a proved rounding to binary64 (locale \<open>rounding\<close>); \<open>DoubleIO\<close> and \<open>DoublePrint\<close> read and print
  them as streams do. \<open>Runs\<close> has runs of a labelled step relation, with the locales
  \<open>trace_invariant\<close>, \<open>trace_simulation\<close> and \<open>executable_steps\<close> for what is proved of them.

  \<^bold>\<open>The models.\<close>

  \<^item> \<open>Common\<close>: \<^verbatim>\<open>common/common.cpp\<close>. \<open>CallData\<close>: \<^verbatim>\<open>common/handler_interface.h\<close>, the \<^verbatim>\<open>Proceed\<close> state machine
    as the locale \<open>call_data\<close>, interpreted on each RPC that answers in \<^verbatim>\<open>Proceed\<close>, and
    \<^verbatim>\<open>HandleAsyncCall\<close>. \<open>Messages\<close>: the request of the daemon to a producer.
  \<^item> \<open>DaemonState\<close>: the global tables of \<^verbatim>\<open>daemonServer.cpp\<close> as the record \<open>daemon\<close>, and \<^verbatim>\<open>Rebalance\<close>.
    \<open>DaemonHandlers\<close>: \<^verbatim>\<open>ClientRegister\<close>, \<^verbatim>\<open>LoadBalance\<close>, \<^verbatim>\<open>HeartBeat\<close> and \<^verbatim>\<open>CheckProcAlive\<close>. \<open>Dispatch\<close>: one
    turn of \<^verbatim>\<open>SelectProducerAndSend\<close> and the callbacks. \<open>DaemonSystem\<close>: all threads as one step
    relation; a step is one critical section of \<^verbatim>\<open>gSvrInfoMutex\<close>. \<open>Stubs\<close>: the objects a stub passes
    through in \<^verbatim>\<open>ProducerCaller\<close> and \<^verbatim>\<open>ProducerState\<close>, whose copies move it.
  \<^item> \<open>RpcServer\<close>: the loop of \<^verbatim>\<open>HandleRpcs\<close> of the daemon and the consumer, with the objects of all services,
    the operations gRPC has under way and the detached threads; the locale \<open>rpc_services\<close> extends the
    contract \<open>call_data\<close> to a family of services. \<open>StartUp\<close>: what each \<^verbatim>\<open>main\<close>, \<^verbatim>\<open>Run\<close> and \<^verbatim>\<open>HandleRpcs\<close> does first.
  \<^item> \<open>Network\<close>: the daemon, any number of producers, and the RPCs between them as one step relation. A call
    travels, is served by an object of a producer, its reply travels back and is completed by
    \<^verbatim>\<open>common::AsyncCompleteRpc\<close>; or it breaks at any of these stages.
  \<^item> \<open>RedisHandler\<close>, \<open>MysqlHandler\<close>: the connections with their retries, over a parameter for the client
    library. \<open>RedisServer\<close>: the commands the program sends, and what Redis documents of them.
  \<^item> \<open>Produce\<close>: the Redis part of \<^verbatim>\<open>ProduceMsg\<close> and the decoding loops. \<open>Readers\<close>: the same function command by
    command, among the commands of others. \<open>SharedRedis\<close>: any number of producer processes on one Redis, beside
    the update process, as a step relation. \<open>ProducerSystem\<close>: the
    \<^verbatim>\<open>ProduceMsgCallData\<close> objects, the sending threads and the callbacks as a step relation.
    \<open>RocketMq\<close>, \<open>LoadReport\<close>: \<^verbatim>\<open>TpsReportService\<close>, \<^verbatim>\<open>ParseArgs\<close> and \<^verbatim>\<open>SendLoadBalanceInfo\<close>. \<open>Reporting\<close>: the
    load reports of any number of producers on their way to the daemon. \<open>Consumer\<close>: its
    set-up, the message listener and its RPC. \<open>StartPush\<close>: \<^verbatim>\<open>startPush/\<close>.
  \<^item> \<open>UserInfoUpdate\<close>: \<^verbatim>\<open>userInfoUpdate.cpp\<close> and its main loop. \<open>DaemonClient\<close>: \<^verbatim>\<open>daemonClient.cpp\<close>, both
    threads together with the daemon they talk to.

  \<^bold>\<open>What is proved.\<close>

  \<^item> \<open>EndToEnd\<close>, \<open>NetworkFacts\<close>, \<open>NetworkProgress\<close>, \<open>NetworkProps\<close>: a finished push has reached every user of its range
    and the consumer, whatever broke on the way, and every push can be finished. \<open>Origins\<close>,
    \<open>WholeSystem\<close>: nobody else gets a message; from the tables of MySQL to the messages.
  \<^item> \<open>Membership\<close>: the daemon's registry
    is a simulation of an abstract membership service. \<open>KeepAlive\<close>: what a server has to do to stay a member, as
    a judge over the events of a run. \<open>Chunking\<close>: splitting a push into requests does
    not change its users. \<open>StartPush\<close>: which of them lie behind the bitmaps in the push of \<^verbatim>\<open>startPush\<close>.
    \<open>Stubs\<close>: each stub has one owner. \<open>ServerProps\<close>: each RPC of the daemon is answered once, and what aborts
    the daemon. \<open>StartUp\<close>: the processes reach each other.
  \<^item> \<open>DaemonInvariants\<close>, \<open>Progress\<close>, \<open>DaemonProps\<close>: no user id is lost or duplicated in any interleaving; a
    push can always be finished; a fleet of producers never runs into undefined behaviour; the
    counters are exact; the tables agree. And where this ends: reused ids, servers that are no
    producers, ranges close to \<open>2 ^ 64\<close>.
  \<^item> \<open>Registry\<close>, \<open>DispatchFacts\<close>, \<open>RegistryProps\<close>, \<open>HandlerProps\<close>: every handler on every branch, the weighted
    choice, the liveness pass, the circuit breaker, and that the services keep listening.
  \<^item> \<open>ProduceFacts\<close>, \<open>ProducerInvariants\<close>, \<open>ProducerProgress\<close>, \<open>ProducerProps\<close>: which users a chunk reaches, that an
    answer means that every message is acknowledged, that every request with users can be answered,
    that callbacks find their object; and the requests that are never answered, the read past the
    bitmap, the shifted users of a misaligned range, the mutex unlocked after its deletion.
  \<^item> \<open>Readers\<close>, \<open>SharedRedis\<close>, \<open>SharedProps\<close>: producers on one Redis do not disturb each other. What each relies
    on and guarantees is \<open>keeps_users\<close>, so a producer of the network model, whose Redis others use as well,
    reads the same users. The cached bitmap is never older than the last update; and where this ends: a key that
    goes between two commands.
  \<^item> \<open>UpdateFacts\<close>, \<open>UpdateRun\<close>, \<open>UpdateProps\<close>: an update releases or refuses the bitmap of the table, once a
    day; the bitmap decodes to the rows; producers send to the users of the tables.
  \<^item> \<open>ClientProps\<close>: a client uses only ids it was given, can always get registered, and can hold the id
    of another server. \<open>ReportProps\<close>, \<open>Reporting\<close>: load reports are readable and keep the dispatch alive;
    what \<^verbatim>\<open>ParseArgs\<close> accepts.
  \<^item> \<open>Scenarios\<close>, \<open>RedisDemo\<close>, \<open>ServersDemo\<close>: the concrete runs and servers at which the properties are applied.

  \<^bold>\<open>Bounds.\<close> No fuel is used: the loops recurse on lists or counters, the loop of
  \<^verbatim>\<open>SelectProducerAndSend\<close>, which may run for ever, is a step of the run, turn by turn (its chunks alone are the partial
  function \<open>loop_requests\<close>, whose value \<open>None\<close> is a loop without end). The retries of a rejected
  send are events as well. Ranges end below \<open>2 ^ 64 - 4096\<close> where a property says \<open>fits\<close>, a request has less than
  \<open>2 ^ 32\<close> users where it says \<open>small_request\<close>.

  \<^bold>\<open>What is outside\<close>, as parameters with named hypotheses on documented behaviour: hiredis and Redis
  (\<open>redis_documented\<close>), the MySQL client and server (\<open>mysql_documented\<close>, \<open>servers\<close>), \<^verbatim>\<open>boost::split\<close>
  (\<open>splits_at_colons\<close>), \<^verbatim>\<open>getopt\<close> (\<open>getopt_documented\<close>), \<^verbatim>\<open>localtime\<close>, the serialisation of a message. Random draws, the
  clock, whether RocketMQ accepts a message, and whether a call fails are labels of the events.
  The producers of the network share Redis (\<open>redis_shared\<close>): between two commands of one, the others may do what
  \<open>SharedRedis\<close> proves that they do; no bitmap is released and the cached one does not go meanwhile. That
  RocketMQ delivers what it acknowledged to the subscribers (\<open>queue_delivers\<close>), and that reading a message
  undoes writing it, are hypotheses of the property on the consumer. gRPC returns each tag once.

  \<^bold>\<open>Not modelled.\<close> \<^verbatim>\<open>genUserInfo\<close> (no code); the wire format of the messages; log output, except where it has an
  effect, as in \<^verbatim>\<open>Rebalance\<close>, or is what a function is for; the Windows branch of \<^verbatim>\<open>ParseArgs\<close>; the end of the
  processes, but for the reporting thread and the calls of the destructors; sleeping, which is the freedom of the interleaving. Infinite and undefined
  doubles do not arise from the code and are left out.
\<close>

end
